(* ===== verification/Prelude.thy ===== *)
theory Prelude
  imports Complex_Main "HOL-Library.Word" "HOL-Library.Monad_Syntax"
begin

unbundle bit_operations_syntax

section \<open>Shared vocabulary of the ground-station model\<close>

text \<open>
  Types, checked memory access, byte order and the two interfaces every parser of the program is
  checked against.

  \<^item> The C++ integer types are words of their width (\<open>u8\<close> \dots \<open>u64\<close>, wrapping); \<open>size_t\<close> values
    are lengths of buffers that exist and are natural numbers; a buffer \<open>(pointer, size)\<close> is a list of bytes.
  \<^item> A read through a pointer or an index is \<open>read8\<close> or \<open>read_span\<close>, whose result \<open>None\<close> is an access
    outside the buffer, which is undefined behaviour in C++. An operation of the model runs in the option monad
    and propagates \<open>None\<close>, so \<^emph>\<open>the operation returns \<open>Some\<close>\<close> is a memory-safety statement.
  \<^item> A callback invocation is an element of the list of outputs an operation returns, in call order.
  \<^item> \<open>checked_machine\<close> is the contract of a component that never faults from a state of its
    invariant; \<open>stream_parser\<close> adds that the way a byte stream is cut into pushes is not observable.
\<close>

named_theorems read_simps \<open>evaluation of checked reads in concatenated buffers\<close>

type_synonym u8 = "8 word"
type_synonym u16 = "16 word"
type_synonym u32 = "32 word"
type_synonym u64 = "64 word"
type_synonym bytes = "u8 list"

subsection \<open>Checked access\<close>

definition read8 :: "bytes \<Rightarrow> nat \<Rightarrow> u8 option" where
  "read8 bs i = (if i < length bs then Some (bs ! i) else None)"

definition read_span :: "bytes \<Rightarrow> nat \<Rightarrow> nat \<Rightarrow> bytes option" where
  "read_span bs off n = (if off + n \<le> length bs then Some (take n (drop off bs)) else None)"

text \<open>An \<open>int8_t\<close> is a byte read as a signed number.\<close>

type_synonym i8 = u8

text \<open>A store through a reference into a vector: outside the vector it is a fault.\<close>

definition write_at :: "'a list \<Rightarrow> nat \<Rightarrow> 'a \<Rightarrow> 'a list option" where
  "write_at xs i v = (if i < length xs then Some (xs[i := v]) else None)"

subsection \<open>Byte order\<close>

definition be16 :: "u8 \<Rightarrow> u8 \<Rightarrow> u16" where
  "be16 hi lo = (push_bit 8 (ucast hi) OR ucast lo)"

definition be32 :: "u8 \<Rightarrow> u8 \<Rightarrow> u8 \<Rightarrow> u8 \<Rightarrow> u32" where
  "be32 b0 b1 b2 b3 =
     (push_bit 24 (ucast b0) OR push_bit 16 (ucast b1) OR push_bit 8 (ucast b2) OR ucast b3)"

definition be32_bytes :: "u32 \<Rightarrow> bytes" where
  "be32_bytes w =
     [ucast (drop_bit 24 w AND 0xff), ucast (drop_bit 16 w AND 0xff),
      ucast (drop_bit 8 w AND 0xff), ucast (w AND 0xff)]"

subsection \<open>Running a component over a sequence of inputs\<close>

fun run_steps :: "('s \<Rightarrow> 'e \<Rightarrow> ('s \<times> 'o list) option) \<Rightarrow> 's \<Rightarrow> 'e list \<Rightarrow> ('s \<times> 'o list) option" where
  "run_steps f s [] = Some (s, [])"
| "run_steps f s (e # es) = do {
     (s1, o1) \<leftarrow> f s e;
     (s2, o2) \<leftarrow> run_steps f s1 es;
     Some (s2, o1 @ o2)
   }"

text \<open>The same for a total specification, which cannot fault.\<close>

fun run_spec :: "('a \<Rightarrow> 'e \<Rightarrow> 'a \<times> 'p list) \<Rightarrow> 'a \<Rightarrow> 'e list \<Rightarrow> 'a \<times> 'p list" where
  "run_spec g a [] = (a, [])"
| "run_spec g a (e # es) =
     (case g a e of (a1, o1) \<Rightarrow> case run_spec g a1 es of (a2, o2) \<Rightarrow> (a2, o1 @ o2))"

subsection \<open>Lemmas on checked access\<close>

lemma read8_Some [simp]: "i < length bs \<Longrightarrow> read8 bs i = Some (bs ! i)"
  by (simp add: read8_def)

lemma read8_None_iff [simp]: "read8 bs i = None \<longleftrightarrow> length bs \<le> i"
  by (simp add: read8_def not_less)

lemma read8_eq_Some: "read8 bs i = Some b \<longleftrightarrow> i < length bs \<and> b = bs ! i"
  by (auto simp: read8_def)

lemma read_span_Some [simp]: "off + n \<le> length bs \<Longrightarrow> read_span bs off n = Some (take n (drop off bs))"
  by (simp add: read_span_def)

lemma write_at_Some [simp]: "i < length xs \<Longrightarrow> write_at xs i v = Some (xs[i := v])"
  by (simp add: write_at_def)

lemma read8_drop: "read8 (drop off bs) i = read8 bs (off + i)"
  by (auto simp: read8_def)

lemma read8_append [simp]: "i < length xs \<Longrightarrow> read8 (xs @ ys) i = Some (xs ! i)"
  by (simp add: read8_def nth_append)

lemma read8_skip [read_simps]: "length xs \<le> i \<Longrightarrow> read8 (xs @ ys) i = read8 ys (i - length xs)"
  by (auto simp: read8_def nth_append)

lemma read8_Cons_skip [read_simps]: "0 < i \<Longrightarrow> read8 (x # xs) i = read8 xs (i - 1)"
  by (auto simp: read8_def nth_Cons')

lemma read8_Cons_0 [read_simps]: "read8 (x # xs) 0 = Some x"
  by (simp add: read8_def)

subsection \<open>Lemmas on words and byte order\<close>

lemma unat_u8_less [simp]: "unat (b :: u8) < 256"
  using unsigned_less [of b] by simp

lemma unat_u8_le [simp]: "255 \<le> n \<Longrightarrow> unat (b :: u8) \<le> n"
  using unat_u8_less [of b] by linarith

lemma not_less_unat_u8 [simp]: "255 \<le> n \<Longrightarrow> \<not> n < unat (b :: u8)"
  by (simp add: not_less)

text \<open>Equality of bytes bit by bit: decides equations between masks and flags.\<close>

lemma u8_eq_iff:
  "a = (b :: u8) \<longleftrightarrow> bit a 0 = bit b 0 \<and> bit a 1 = bit b 1 \<and> bit a 2 = bit b 2 \<and> bit a 3 = bit b 3
     \<and> bit a 4 = bit b 4 \<and> bit a 5 = bit b 5 \<and> bit a 6 = bit b 6 \<and> bit a 7 = bit b 7"
  (is "_ \<longleftrightarrow> ?bits")
proof
  assume bits: ?bits
  show "a = b"
  proof (rule bit_word_eqI)
    fix n :: nat
    assume "n < LENGTH(8)"
    then have "n \<in> {0, 1, 2, 3, 4, 5, 6, 7}" by auto
    with bits show "bit a n = bit b n" by auto
  qed
qed simp

lemma u8_flag_simps:
  "(w AND 0x80 = (0 :: u8)) = (\<not> bit w 7)"
  "(w AND 0x40 = (0 :: u8)) = (\<not> bit w 6)"
  "(w AND 0x20 = (0 :: u8)) = (\<not> bit w 5)"
  "(w AND 0x10 = (0 :: u8)) = (\<not> bit w 4)"
  by (simp_all add: u8_eq_iff bit_simps)

lemma ff_mask: "(255 :: 'a::len word) = mask 8"
  by (simp add: mask_eq_exp_minus_1)

lemma be32_be32_bytes:
  "be32 (be32_bytes w ! 0) (be32_bytes w ! 1) (be32_bytes w ! 2) (be32_bytes w ! 3) = w"
  (is "?w = w")
proof (rule bit_word_eqI)
  fix n :: nat
  assume "n < LENGTH(32)"
  then have "n < 8 \<or> (8 \<le> n \<and> n < 16) \<or> (16 \<le> n \<and> n < 24) \<or> (24 \<le> n \<and> n < 32)"
    by auto
  then show "bit ?w n = bit w n"
    by (elim disjE) (auto simp: be32_def be32_bytes_def ff_mask bit_simps)
qed

text \<open>The same bytes without the masks: the narrowing cast already truncates.\<close>

lemma be32_bytes_cast:
  "be32_bytes w = [ucast (drop_bit 24 w), ucast (drop_bit 16 w), ucast (drop_bit 8 w), ucast w]"
  by (simp add: be32_bytes_def u8_eq_iff bit_simps)

lemma be32_cast [simp]:
  "be32 (ucast (drop_bit 24 w)) (ucast (drop_bit 16 w)) (ucast (drop_bit 8 w)) (ucast w) = w"
  using be32_be32_bytes [of w] by (simp add: be32_bytes_cast)

lemma be16_cast [simp]: "be16 (ucast (drop_bit 8 w)) (ucast (w AND 0xff)) = w"
proof (rule bit_word_eqI)
  fix n :: nat
  assume "n < LENGTH(16)"
  then have "n < 8 \<or> (8 \<le> n \<and> n < 16)" by auto
  then show "bit (be16 (ucast (drop_bit 8 w)) (ucast (w AND 0xff))) n = bit w n"
    by (elim disjE) (auto simp: be16_def ff_mask bit_simps)
qed

lemma u8_bit_out [simp]: "8 \<le> n \<Longrightarrow> \<not> bit (b :: u8) n"
  by (auto dest: bit_imp_le_length)

lemma be32_bytes_eq_iff: "[a, b, c, d] = be32_bytes w \<longleftrightarrow> be32 a b c d = w"
proof
  assume eq: "[a, b, c, d] = be32_bytes w"
  show "be32 a b c d = w" using be32_be32_bytes [of w] by (simp flip: eq)
next
  assume "be32 a b c d = w"
  then have w: "w = be32 a b c d" by simp
  show "[a, b, c, d] = be32_bytes w"
    unfolding w be32_bytes_cast by (simp add: u8_eq_iff be32_def bit_simps)
qed

lemma length_be32_bytes [simp]: "length (be32_bytes w) = 4"
  by (simp add: be32_bytes_def)

subsection \<open>Lemmas on runs\<close>

lemma run_steps_append:
  "run_steps f s (xs @ ys) = do {
     (s1, o1) \<leftarrow> run_steps f s xs;
     (s2, o2) \<leftarrow> run_steps f s1 ys;
     Some (s2, o1 @ o2)
   }"
  by (induction xs arbitrary: s)
     (auto simp: Option.bind_assoc case_prod_unfold intro!: Option.bind_cong)

lemma run_steps_single [simp]: "run_steps f s [e] = f s e"
  by (cases "f s e") auto

lemma run_spec_append:
  "run_spec g a (xs @ ys) =
     (case run_spec g a xs of (a1, o1) \<Rightarrow> case run_spec g a1 ys of (a2, o2) \<Rightarrow> (a2, o1 @ o2))"
  by (induction xs arbitrary: a) (auto split: prod.splits)

subsection \<open>Interfaces\<close>

text \<open>
  A component whose operation never faults while its invariant holds. The client obtains the same
  for any sequence of operations.
\<close>

locale checked_machine =
  fixes step :: "'s \<Rightarrow> 'e \<Rightarrow> ('s \<times> 'o list) option"
    and inv :: "'s \<Rightarrow> bool"
  assumes step_safe: "inv s \<Longrightarrow> \<exists>s' os. step s e = Some (s', os) \<and> inv s'"
begin

lemma step_obtain:
  assumes "inv s"
  obtains s' os where "step s e = Some (s', os)" and "inv s'"
  using step_safe [OF assms] by blast

lemma step_keeps: "inv s \<Longrightarrow> step s e = Some (s', os) \<Longrightarrow> inv s'"
  using step_safe [of s e] by auto

lemma run_safe: "inv s \<Longrightarrow> \<exists>s' os. run_steps step s es = Some (s', os) \<and> inv s'"
proof (induction es arbitrary: s)
  case Nil
  then show ?case by simp
next
  case (Cons e es)
  obtain s1 o1 where s1: "step s e = Some (s1, o1)" "inv s1"
    using Cons.prems by (rule step_obtain)
  then obtain s2 o2 where "run_steps step s1 es = Some (s2, o2)" "inv s2"
    using Cons.IH by blast
  with s1 show ?case by simp
qed

lemma run_keeps: "inv s \<Longrightarrow> run_steps step s es = Some (s', os) \<Longrightarrow> inv s'"
  using run_safe [of s es] by auto

end

text \<open>A component that, in addition, hands only well-formed values to its callback.\<close>

locale checked_emitter = checked_machine step inv
  for step :: "'s \<Rightarrow> 'e \<Rightarrow> ('s \<times> 'o list) option" and inv :: "'s \<Rightarrow> bool" +
  fixes good :: "'o \<Rightarrow> bool"
  assumes step_good: "inv s \<Longrightarrow> step s e = Some (s', os) \<Longrightarrow> list_all good os"
begin

lemma run_good:
  "inv s \<Longrightarrow> \<exists>s' os. run_steps step s es = Some (s', os) \<and> inv s' \<and> list_all good os"
proof (induction es arbitrary: s)
  case Nil
  then show ?case by simp
next
  case (Cons e es)
  obtain s1 o1 where s1: "step s e = Some (s1, o1)" "inv s1"
    using Cons.prems by (rule step_obtain)
  then obtain s2 o2 where "run_steps step s1 es = Some (s2, o2)" "inv s2" "list_all good o2"
    using Cons.IH by blast
  with s1 step_good [OF Cons.prems s1(1)] show ?case by simp
qed

end

text \<open>
  A resynchronising parser of a byte stream: pushing two chunks is pushing their concatenation, so
  the datagram or TCP segment boundaries of the transport are not observable.
\<close>

locale stream_parser = checked_machine push inv
  for push :: "'s \<Rightarrow> 'b list \<Rightarrow> ('s \<times> 'o list) option" and inv :: "'s \<Rightarrow> bool" +
  assumes push_nil: "inv s \<Longrightarrow> push s [] = Some (s, [])"
    and push_append: "inv s \<Longrightarrow>
      push s (xs @ ys) = do {
        (s1, o1) \<leftarrow> push s xs;
        (s2, o2) \<leftarrow> push s1 ys;
        Some (s2, o1 @ o2)
      }"
begin

lemma run_concat: "inv s \<Longrightarrow> run_steps push s chunks = push s (concat chunks)"
proof (induction chunks arbitrary: s)
  case Nil
  then show ?case by (simp add: push_nil)
next
  case (Cons c cs)
  obtain s1 o1 where "push s c = Some (s1, o1)" "inv s1"
    using Cons.prems by (rule step_obtain)
  with Cons show ?case by (simp add: push_append)
qed

lemma chunking_irrelevant:
  "inv s \<Longrightarrow> concat xs = concat ys \<Longrightarrow> run_steps push s xs = run_steps push s ys"
  by (simp add: run_concat)

end

text \<open>
  A component that implements a total specification: its operation never faults and commutes with the
  abstraction of its state and of its outputs, and so does every sequence of operations.
\<close>

locale refinement = checked_machine step inv
  for step :: "'s \<Rightarrow> 'e \<Rightarrow> ('s \<times> 'o list) option" and inv :: "'s \<Rightarrow> bool" +
  fixes abs_state :: "'s \<Rightarrow> 'a"
    and abs_out :: "'o \<Rightarrow> 'p"
    and spec :: "'a \<Rightarrow> 'e \<Rightarrow> 'a \<times> 'p list"
  assumes step_refines:
    "inv s \<Longrightarrow> step s e = Some (s', os) \<Longrightarrow> spec (abs_state s) e = (abs_state s', map abs_out os)"
begin

lemma run_refines:
  "inv s \<Longrightarrow> \<exists>s' os. run_steps step s es = Some (s', os) \<and> inv s'
     \<and> run_spec spec (abs_state s) es = (abs_state s', map abs_out os)"
proof (induction es arbitrary: s)
  case Nil
  then show ?case by simp
next
  case (Cons e es)
  obtain s1 o1 where s1: "step s e = Some (s1, o1)" "inv s1"
    using Cons.prems by (rule step_obtain)
  then obtain s2 o2 where "run_steps step s1 es = Some (s2, o2)" "inv s2"
      "run_spec spec (abs_state s1) es = (abs_state s2, map abs_out o2)"
    using Cons.IH by blast
  with s1 step_refines [OF Cons.prems s1(1)] show ?case by simp
qed

end

end
