(* ===== verification/Mavlink_Framer.thy ===== *)
theory Mavlink_Framer
  imports Prelude
begin

section \<open>MAVLink framing\<close>

text \<open>
  \<^verbatim>\<open>core/src/mavlink/router.cpp\<close>, class \<open>MavlinkFramer\<close>: a byte stream is cut into whole MAVLink v1 and
  v2 messages. The state is \<open>framer\<close>; \<open>framer_Push\<close> is \<open>MavlinkFramer::Push\<close>, its \<open>while\<close> loop is
  \<open>push_loop\<close> and the body of the loop up to the point where it breaks, skips a byte or has a message is
  \<open>scan_at\<close>. The callback invocations are the list of messages \<open>framer_Push\<close> returns.

  The reference definition \<open>scan\<close> reads the head of the remaining bytes with no index arithmetic and
  without the length test the code makes against \<open>kMaxFrameSize\<close>; \<open>scan_at_scan\<close> shows the two agree, which
  is both the memory safety of the loop and the fact that no frame exceeds the limit. The framer is then an
  instance of \<open>stream_parser\<close>.
\<close>

subsection \<open>Data and operations\<close>

definition kMavlinkV1Magic :: u8 where [simp]: "kMavlinkV1Magic = 0xfe"
definition kMavlinkV2Magic :: u8 where [simp]: "kMavlinkV2Magic = 0xfd"
definition kMavlinkV1HeaderSize :: nat where [simp]: "kMavlinkV1HeaderSize = 6"
definition kMavlinkV2HeaderSize :: nat where [simp]: "kMavlinkV2HeaderSize = 10"
definition kChecksumSize :: nat where [simp]: "kChecksumSize = 2"
definition kSignatureSize :: nat where [simp]: "kSignatureSize = 13"
definition kMaxFrameSize :: nat where [simp]: "kMaxFrameSize = 280"

record mavlink_message =
  mm_data :: bytes
  mm_size :: nat
  mm_msgid :: u32
  mm_system_id :: u8
  mm_component_id :: u8
  mm_v2 :: bool

record framer =
  fr_buffer :: bytes
  fr_callback :: bool
  fr_messages :: u64
  fr_dropped_bytes :: u64

definition framer_init :: framer where
  "framer_init = \<lparr>fr_buffer = [], fr_callback = False, fr_messages = 0, fr_dropped_bytes = 0\<rparr>"

definition framer_set_callback :: "framer \<Rightarrow> framer" where
  "framer_set_callback s = s\<lparr>fr_callback := True\<rparr>"

definition framer_Reset :: "framer \<Rightarrow> framer" where
  "framer_Reset s = s\<lparr>fr_buffer := []\<rparr>"

datatype scan_result = NeedMore | SkipByte | Message mavlink_message

definition scan_at :: "bytes \<Rightarrow> nat \<Rightarrow> scan_result option" where
  "scan_at buffer offset = do {
     magic \<leftarrow> read8 buffer offset;
     if magic \<noteq> kMavlinkV1Magic \<and> magic \<noteq> kMavlinkV2Magic then Some SkipByte
     else do {
       let v2 = (magic = kMavlinkV2Magic);
       let header = (if v2 then kMavlinkV2HeaderSize else kMavlinkV1HeaderSize);
       if length buffer - offset < header then Some NeedMore
       else do {
         len_byte \<leftarrow> read8 buffer (offset + 1);
         let payload_len = unat len_byte;
         let base_len = header + payload_len + kChecksumSize;
         frame_len \<leftarrow> (if v2 then do {
             incompat_flags \<leftarrow> read8 buffer (offset + 2);
             Some (if incompat_flags AND 0x01 \<noteq> 0 then base_len + kSignatureSize else base_len)
           } else Some base_len);
         if frame_len > kMaxFrameSize then Some SkipByte
         else if length buffer - offset < frame_len then Some NeedMore
         else do {
           data \<leftarrow> read_span buffer offset frame_len;
           if v2 then do {
             sys \<leftarrow> read8 buffer (offset + 5);
             comp \<leftarrow> read8 buffer (offset + 6);
             id0 \<leftarrow> read8 buffer (offset + 7);
             id1 \<leftarrow> read8 buffer (offset + 8);
             id2 \<leftarrow> read8 buffer (offset + 9);
             Some (Message \<lparr>mm_data = data, mm_size = frame_len,
                            mm_msgid = ucast id0 OR push_bit 8 (ucast id1) OR push_bit 16 (ucast id2),
                            mm_system_id = sys, mm_component_id = comp, mm_v2 = True\<rparr>)
           } else do {
             sys \<leftarrow> read8 buffer (offset + 3);
             comp \<leftarrow> read8 buffer (offset + 4);
             id0 \<leftarrow> read8 buffer (offset + 5);
             Some (Message \<lparr>mm_data = data, mm_size = frame_len, mm_msgid = ucast id0,
                            mm_system_id = sys, mm_component_id = comp, mm_v2 = False\<rparr>)
           }
         }
       }
     }
   }"

text \<open>The loop advances by a whole frame, which is never empty: its termination rests on this.\<close>

lemma scan_at_message_size: "scan_at buffer offset = Some (Message m) \<Longrightarrow> 0 < mm_size m"
  by (auto simp: scan_at_def Let_def bind_eq_Some_conv split: if_splits)

function push_loop :: "framer \<Rightarrow> nat \<Rightarrow> (framer \<times> nat \<times> mavlink_message list) option" where
  "push_loop s offset =
     (if offset < length (fr_buffer s) then
        (case scan_at (fr_buffer s) offset of
           None \<Rightarrow> None
         | Some NeedMore \<Rightarrow> Some (s, offset, [])
         | Some SkipByte \<Rightarrow> push_loop (s\<lparr>fr_dropped_bytes := fr_dropped_bytes s + 1\<rparr>) (offset + 1)
         | Some (Message m) \<Rightarrow>
             (case push_loop (s\<lparr>fr_messages := fr_messages s + 1\<rparr>) (offset + mm_size m) of
                None \<Rightarrow> None
              | Some (s', offset', ms) \<Rightarrow> Some (s', offset', if fr_callback s then m # ms else ms)))
      else Some (s, offset, []))"
  by pat_completeness auto
termination
  by (relation "measure (\<lambda>(s, offset). length (fr_buffer s) - offset)")
     (auto dest: scan_at_message_size)

declare push_loop.simps [simp del]

definition framer_Push :: "framer \<Rightarrow> bytes \<Rightarrow> (framer \<times> mavlink_message list) option" where
  "framer_Push s data = do {
     let s0 = s\<lparr>fr_buffer := fr_buffer s @ data\<rparr>;
     (s1, offset, out) \<leftarrow> push_loop s0 0;
     let s2 = (if offset > 0 then s1\<lparr>fr_buffer := drop offset (fr_buffer s1)\<rparr> else s1);
     let s3 = (if length (fr_buffer s2) > 4 * kMaxFrameSize
               then framer_Reset (s2\<lparr>fr_dropped_bytes :=
                      fr_dropped_bytes s2 + of_nat (length (fr_buffer s2))\<rparr>)
               else s2);
     Some (s3, out)
   }"

subsection \<open>Reference definition: reading the head of the remaining bytes\<close>

definition magic_byte :: "u8 \<Rightarrow> bool" where
  "magic_byte b \<longleftrightarrow> b = 0xfe \<or> b = 0xfd"

definition header_len :: "bytes \<Rightarrow> nat" where
  "header_len xs = (if xs ! 0 = 0xfd then 10 else 6)"

definition wire_len :: "bytes \<Rightarrow> nat" where
  "wire_len xs = header_len xs + unat (xs ! 1) + 2
     + (if xs ! 0 = 0xfd \<and> xs ! 2 AND 1 \<noteq> 0 then 13 else 0)"

definition head_message :: "bytes \<Rightarrow> mavlink_message" where
  "head_message xs =
     (if xs ! 0 = 0xfd
      then \<lparr>mm_data = take (wire_len xs) xs, mm_size = wire_len xs,
            mm_msgid = ucast (xs ! 7) OR push_bit 8 (ucast (xs ! 8)) OR push_bit 16 (ucast (xs ! 9)),
            mm_system_id = xs ! 5, mm_component_id = xs ! 6, mm_v2 = True\<rparr>
      else \<lparr>mm_data = take (wire_len xs) xs, mm_size = wire_len xs, mm_msgid = ucast (xs ! 5),
            mm_system_id = xs ! 3, mm_component_id = xs ! 4, mm_v2 = False\<rparr>)"

definition scan :: "bytes \<Rightarrow> scan_result" where
  "scan xs =
     (if \<not> magic_byte (xs ! 0) then SkipByte
      else if length xs < header_len xs \<or> length xs < wire_len xs then NeedMore
      else Message (head_message xs))"

text \<open>
  The stream specification: skip what cannot start a frame, take whole frames, keep an incomplete one.
  \<open>parse\<close> returns the frames, the number of skipped bytes and the incomplete rest.
\<close>

lemma wire_len_pos [simp]: "0 < wire_len xs"
  by (simp add: wire_len_def)

function parse :: "bytes \<Rightarrow> mavlink_message list \<times> nat \<times> bytes" where
  "parse xs =
     (if xs = [] then ([], 0, [])
      else case scan xs of
        NeedMore \<Rightarrow> ([], 0, xs)
      | SkipByte \<Rightarrow> (case parse (tl xs) of (ms, n, r) \<Rightarrow> (ms, Suc n, r))
      | Message m \<Rightarrow> (case parse (drop (wire_len xs) xs) of (ms, n, r) \<Rightarrow> (m # ms, n, r)))"
  by pat_completeness auto
termination
  by (relation "measure length") auto

declare parse.simps [simp del]

lemma parse_Nil [simp]: "parse [] = ([], 0, [])"
  by (simp add: parse.simps)

subsection \<open>The loop body agrees with the reference\<close>

lemma wire_len_bound: "wire_len xs \<le> kMaxFrameSize"
  by (simp add: wire_len_def header_len_def)

lemma header_len_less_wire_len: "header_len xs < wire_len xs"
  by (simp add: wire_len_def)

lemma scan_at_scan: "offset < length buffer \<Longrightarrow> scan_at buffer offset = Some (scan (drop offset buffer))"
  by (auto simp: scan_at_def scan_def head_message_def magic_byte_def header_len_def wire_len_def Let_def
      split: if_splits)

lemma head_message_size [simp]: "mm_size (head_message xs) = wire_len xs"
  by (simp add: head_message_def)

lemma scan_Message_iff:
  "scan xs = Message m \<longleftrightarrow>
     magic_byte (xs ! 0) \<and> wire_len xs \<le> length xs \<and> m = head_message xs"
  using header_len_less_wire_len [of xs] by (auto simp: scan_def)

lemma scan_SkipByte_iff: "scan xs = SkipByte \<longleftrightarrow> \<not> magic_byte (xs ! 0)"
  by (simp add: scan_def)

lemma scan_NeedMore_iff:
  "scan xs = NeedMore \<longleftrightarrow> magic_byte (xs ! 0) \<and> (length xs < header_len xs \<or> length xs < wire_len xs)"
  by (simp add: scan_def)

lemmas scan_iffs = scan_Message_iff scan_SkipByte_iff scan_NeedMore_iff

subsection \<open>Bytes that arrive later do not change what was decided\<close>

lemma header_len_append: "xs \<noteq> [] \<Longrightarrow> header_len (xs @ ys) = header_len xs"
  by (simp add: header_len_def nth_append)

lemma wire_len_append: "header_len xs \<le> length xs \<Longrightarrow> wire_len (xs @ ys) = wire_len xs"
  by (auto simp: wire_len_def header_len_def nth_append split: if_splits)

lemma head_message_append:
  "wire_len xs \<le> length xs \<Longrightarrow> head_message (xs @ ys) = head_message xs"
  using header_len_less_wire_len [of xs] wire_len_append [of xs ys]
  by (auto simp: head_message_def header_len_def nth_append split: if_splits)

lemma scan_append_Message: "xs \<noteq> [] \<Longrightarrow> scan xs = Message m \<Longrightarrow> scan (xs @ ys) = Message m"
  using header_len_less_wire_len [of xs] wire_len_append [of xs ys]
  by (auto simp: scan_iffs nth_append head_message_append)

lemma scan_append_SkipByte: "xs \<noteq> [] \<Longrightarrow> scan xs = SkipByte \<Longrightarrow> scan (xs @ ys) = SkipByte"
  by (simp add: scan_iffs nth_append)

lemma parse_append:
  "parse xs = (ms, n, r) \<Longrightarrow>
   parse (xs @ ys) = (case parse (r @ ys) of (ms', n', r') \<Rightarrow> (ms @ ms', n + n', r'))"
proof (induction xs arbitrary: ms n r rule: parse.induct)
  case (1 xs)
  show ?case
  proof (cases "xs = []")
    case True
    with "1.prems" show ?thesis by (simp add: parse.simps [of "[]"])
  next
    case ne: False
    show ?thesis
    proof (cases "scan xs")
      case NeedMore
      with "1.prems" ne show ?thesis by (simp add: parse.simps [of xs])
    next
      case SkipByte
      with "1.prems" ne obtain n1 where p: "parse (tl xs) = (ms, n1, r)" "n = Suc n1"
        by (auto simp: parse.simps [of xs] split: prod.splits)
      from "1.IH"(1) [OF ne SkipByte p(1)] p(2) ne scan_append_SkipByte [OF ne SkipByte, of ys]
      show ?thesis by (simp add: parse.simps [of "xs @ ys"] split: prod.splits)
    next
      case (Message m)
      with "1.prems" ne obtain ms1 where p: "parse (drop (wire_len xs) xs) = (ms1, n, r)" "ms = m # ms1"
        by (auto simp: parse.simps [of xs] split: prod.splits)
      have "wire_len (xs @ ys) = wire_len xs" "wire_len xs \<le> length xs"
        using Message header_len_less_wire_len [of xs] wire_len_append [of xs ys]
        by (auto simp: scan_iffs)
      with "1.IH"(2) [OF ne Message p(1)] p(2) ne scan_append_Message [OF ne Message, of ys]
      show ?thesis by (simp add: parse.simps [of "xs @ ys"] split: prod.splits)
    qed
  qed
qed

text \<open>An incomplete rest is short, and reading it again changes nothing.\<close>

lemma parse_rest:
  "parse xs = (ms, n, r) \<Longrightarrow> length r < kMaxFrameSize \<and> parse r = ([], 0, r)"
proof (induction xs arbitrary: ms n r rule: parse.induct)
  case (1 xs)
  show ?case
  proof (cases "xs = []")
    case True
    with "1.prems" show ?thesis by (simp add: parse.simps)
  next
    case ne: False
    show ?thesis
    proof (cases "scan xs")
      case NeedMore
      then have "length xs < 280"
        using wire_len_bound [of xs] header_len_less_wire_len [of xs] by (auto simp: scan_iffs)
      with NeedMore "1.prems" ne show ?thesis by (auto simp: parse.simps [of xs] parse.simps [of r])
    next
      case SkipByte
      with "1.IH"(1) [OF ne SkipByte] "1.prems" ne show ?thesis
        by (auto simp: parse.simps [of xs] split: prod.splits)
    next
      case (Message m)
      with "1.IH"(2) [OF ne Message] "1.prems" ne show ?thesis
        by (auto simp: parse.simps [of xs] split: prod.splits)
    qed
  qed
qed

lemma parse_split:
  "parse xs = (ms, n, r) \<Longrightarrow>
   \<exists>p. xs = p @ r \<and> length p = n + sum_list (map mm_size ms)"
proof (induction xs arbitrary: ms n r rule: parse.induct)
  case (1 xs)
  show ?case
  proof (cases "xs = []")
    case True
    with "1.prems" show ?thesis by (simp add: parse.simps)
  next
    case ne: False
    show ?thesis
    proof (cases "scan xs")
      case NeedMore
      with "1.prems" ne show ?thesis by (simp add: parse.simps [of xs])
    next
      case SkipByte
      with "1.prems" ne obtain n1 where p: "parse (tl xs) = (ms, n1, r)" "n = Suc n1"
        by (auto simp: parse.simps [of xs] split: prod.splits)
      with "1.IH"(1) [OF ne SkipByte p(1)] obtain p1
        where "tl xs = p1 @ r" "length p1 = n1 + sum_list (map mm_size ms)" by blast
      with ne p(2) show ?thesis by (intro exI [of _ "hd xs # p1"]) (cases xs, auto)
    next
      case (Message m)
      with "1.prems" ne obtain ms1 where p: "parse (drop (wire_len xs) xs) = (ms1, n, r)" "ms = m # ms1"
        by (auto simp: parse.simps [of xs] split: prod.splits)
      with "1.IH"(2) [OF ne Message p(1)] obtain p1
        where p1: "drop (wire_len xs) xs = p1 @ r" "length p1 = n + sum_list (map mm_size ms1)" by blast
      have "mm_size m = wire_len xs" "wire_len xs \<le> length xs"
        using Message by (auto simp: scan_iffs)
      moreover have "xs = (take (wire_len xs) xs @ p1) @ r"
        using p1(1) by (metis append.assoc append_take_drop_id)
      ultimately show ?thesis
        using p1(2) p(2) by (intro exI [of _ "take (wire_len xs) xs @ p1"]) auto
    qed
  qed
qed

subsection \<open>The loop and the whole operation agree with the reference\<close>

definition count_frames :: "framer \<Rightarrow> nat \<Rightarrow> nat \<Rightarrow> framer" where
  "count_frames s k n = s\<lparr>fr_messages := fr_messages s + of_nat k,
                          fr_dropped_bytes := fr_dropped_bytes s + of_nat n\<rparr>"

lemma count_frames_sel [simp]:
  "fr_buffer (count_frames s k n) = fr_buffer s"
  "fr_callback (count_frames s k n) = fr_callback s"
  "fr_messages (count_frames s k n) = fr_messages s + of_nat k"
  "fr_dropped_bytes (count_frames s k n) = fr_dropped_bytes s + of_nat n"
  by (simp_all add: count_frames_def)

lemma push_loop_parse:
  "offset \<le> length (fr_buffer s) \<Longrightarrow> parse (drop offset (fr_buffer s)) = (ms, n, r) \<Longrightarrow>
   push_loop s offset =
     Some (count_frames s (length ms) n, length (fr_buffer s) - length r, if fr_callback s then ms else [])"
proof (induction s offset arbitrary: ms n r rule: push_loop.induct)
  case (1 s offset)
  let ?xs = "drop offset (fr_buffer s)"
  show ?case
  proof (cases "offset < length (fr_buffer s)")
    case False
    with "1.prems" show ?thesis
      by (subst push_loop.simps) (simp add: count_frames_def)
  next
    case lt: True
    then have ne: "?xs \<noteq> []" by simp
    note step = scan_at_scan [OF lt]
    show ?thesis
    proof (cases "scan ?xs")
      case NeedMore
      with "1.prems" lt step show ?thesis
        by (auto simp: push_loop.simps [of s offset] parse.simps [of ?xs] count_frames_def)
    next
      case SkipByte
      with "1.prems" lt obtain n1 where p: "parse (drop (Suc offset) (fr_buffer s)) = (ms, n1, r)" "n = Suc n1"
        by (auto simp: parse.simps [of ?xs] drop_Suc drop_tl split: prod.splits)
      with "1.IH"(1) [OF lt] SkipByte step lt show ?thesis
        by (simp add: push_loop.simps [of s offset] count_frames_def)
    next
      case (Message m)
      then have sz: "mm_size m = wire_len ?xs" "wire_len ?xs \<le> length ?xs" by (auto simp: scan_iffs)
      from Message "1.prems" lt sz obtain ms1
        where p: "parse (drop (offset + mm_size m) (fr_buffer s)) = (ms1, n, r)" "ms = m # ms1"
        by (auto simp: parse.simps [of ?xs] add.commute split: prod.splits)
      from lt sz have le: "offset + mm_size m \<le> length (fr_buffer s)" by simp
      from "1.IH"(2) [OF lt] Message step p(1) le
      have "push_loop (s\<lparr>fr_messages := fr_messages s + 1\<rparr>) (offset + mm_size m) =
        Some (count_frames (s\<lparr>fr_messages := fr_messages s + 1\<rparr>) (length ms1) n,
          length (fr_buffer s) - length r, if fr_callback s then ms1 else [])"
        by simp
      with Message step lt p(2) show ?thesis
        by (simp add: push_loop.simps [of s offset] count_frames_def)
    qed
  qed
qed

lemma framer_Push_parse:
  assumes "parse (fr_buffer s @ data) = (ms, n, r)"
  shows "framer_Push s data =
    Some ((count_frames s (length ms) n)\<lparr>fr_buffer := r\<rparr>, if fr_callback s then ms else [])"
proof -
  from parse_split [OF assms] obtain p where p: "fr_buffer s @ data = p @ r" by blast
  from parse_rest [OF assms] have "length r < 280" by simp
  moreover have "push_loop (s\<lparr>fr_buffer := fr_buffer s @ data\<rparr>) 0 =
    Some (count_frames (s\<lparr>fr_buffer := fr_buffer s @ data\<rparr>) (length ms) n, length p,
          if fr_callback s then ms else [])"
    using assms p by (subst push_loop_parse [where ms = ms and n = n and r = r]) auto
  ultimately show ?thesis
    using p by (auto simp: framer_Push_def count_frames_def)
qed

subsection \<open>The invariant and the interface\<close>

definition framer_inv :: "framer \<Rightarrow> bool" where
  "framer_inv s \<longleftrightarrow> parse (fr_buffer s) = ([], 0, fr_buffer s)"

lemma framer_inv_init [simp]: "framer_inv framer_init"
  by (simp add: framer_inv_def framer_init_def parse.simps)

lemma framer_inv_set_callback [simp]: "framer_inv (framer_set_callback s) = framer_inv s"
  by (simp add: framer_inv_def framer_set_callback_def)

lemma framer_Push_safe:
  obtains s' ms n r where "framer_Push s data = Some (s', if fr_callback s then ms else [])"
    and "parse (fr_buffer s @ data) = (ms, n, r)"
    and "s' = (count_frames s (length ms) n)\<lparr>fr_buffer := r\<rparr>" and "framer_inv s'"
proof -
  obtain ms n r where p: "parse (fr_buffer s @ data) = (ms, n, r)" by (metis prod_cases3)
  show ?thesis
    using that [OF framer_Push_parse [OF p] p refl] parse_rest [OF p] by (simp add: framer_inv_def)
qed

interpretation mavlink: stream_parser framer_Push framer_inv
proof (unfold_locales, goal_cases)
  case (1 s e)
  then show ?case by (metis framer_Push_safe)
next
  case (2 s)
  then show ?case
    by (subst framer_Push_parse [where ms = "[]" and n = 0 and r = "fr_buffer s"])
       (auto simp: framer_inv_def count_frames_def)
next
  case (3 s xs ys)
  obtain ms n r where p: "parse (fr_buffer s @ xs) = (ms, n, r)" by (metis prod_cases3)
  obtain ms' n' r' where p': "parse (r @ ys) = (ms', n', r')" by (metis prod_cases3)
  have "parse (fr_buffer s @ xs @ ys) = (ms @ ms', n + n', r')"
    using parse_append [OF p, of ys] p' by simp
  then show ?case
    using p p' by (simp add: framer_Push_parse count_frames_def add.assoc)
qed

subsection \<open>Whole frames\<close>

definition whole_frame :: "bytes \<Rightarrow> bool" where
  "whole_frame f \<longleftrightarrow> f \<noteq> [] \<and> magic_byte (f ! 0) \<and> length f = wire_len f"

definition noise :: "bytes \<Rightarrow> bool" where
  "noise g \<longleftrightarrow> list_all (\<lambda>b. \<not> magic_byte b) g"

lemma parse_whole_frame:
  assumes "whole_frame f" and "parse ys = (ms, n, r)"
  shows "parse (f @ ys) = (head_message f # ms, n, r)"
proof -
  from assms(1) have f: "f \<noteq> []" "scan f = Message (head_message f)" "wire_len f = length f"
    by (auto simp: whole_frame_def scan_iffs)
  moreover have "wire_len (f @ ys) = length f"
    using f header_len_less_wire_len [of f] by (simp add: wire_len_append)
  ultimately show ?thesis
    using assms(2) scan_append_Message [OF f(1,2), of ys] by (simp add: parse.simps [of "f @ ys"])
qed

lemma parse_skip: "\<not> magic_byte b \<Longrightarrow> parse ys = (ms, n, r) \<Longrightarrow> parse (b # ys) = (ms, Suc n, r)"
  by (subst parse.simps) (simp add: scan_def)

lemma parse_noise:
  "noise g \<Longrightarrow> parse ys = (ms, n, r) \<Longrightarrow> parse (g @ ys) = (ms, length g + n, r)"
  by (induction g) (auto simp: noise_def parse_skip)

lemma parse_frames:
  assumes "\<forall>(g, f) \<in> set items. noise g \<and> whole_frame f"
  shows "parse (concat (map (\<lambda>(g, f). g @ f) items)) =
    (map (\<lambda>(g, f). head_message f) items, sum_list (map (\<lambda>(g, f). length g) items), [])"
  using assms
proof (induction items)
  case Nil
  then show ?case by simp
next
  case (Cons a items)
  obtain g f where a: "a = (g, f)" by (cases a)
  with Cons have "parse (f @ concat (map (\<lambda>(g, f). g @ f) items)) =
    (head_message f # map (\<lambda>(g, f). head_message f) items,
     sum_list (map (\<lambda>(g, f). length g) items), [])"
    by (intro parse_whole_frame) auto
  with a Cons.prems show ?case by (auto intro: parse_noise)
qed

text \<open>The frame builders of \<^verbatim>\<open>core/tests/test_mavlink.cpp\<close>.\<close>

definition BuildV1 :: "u8 \<Rightarrow> u8 \<Rightarrow> u8 \<Rightarrow> bytes \<Rightarrow> bytes" where
  "BuildV1 sequence system_id msgid payload =
     [0xfe, of_nat (length payload), sequence, system_id, 1, msgid] @ payload @ [0x00, 0x00]"

definition BuildV2 :: "u8 \<Rightarrow> u8 \<Rightarrow> u32 \<Rightarrow> bytes \<Rightarrow> bool \<Rightarrow> bytes" where
  "BuildV2 sequence system_id msgid payload signed_frame =
     [0xfd, of_nat (length payload), if signed_frame then 0x01 else 0x00, 0x00, sequence, system_id, 1,
      ucast (msgid AND 0xff), ucast (drop_bit 8 msgid AND 0xff), ucast (drop_bit 16 msgid AND 0xff)]
     @ payload @ [0x00, 0x00] @ (if signed_frame then replicate 13 0x00 else [])"

lemma unat_of_nat_u8: "n < 256 \<Longrightarrow> unat (of_nat n :: u8) = n"
  by (simp add: unat_of_nat take_bit_nat_eq_self)

lemma whole_frame_BuildV1: "length payload < 256 \<Longrightarrow> whole_frame (BuildV1 sq sys mid payload)"
  by (simp add: whole_frame_def BuildV1_def magic_byte_def wire_len_def header_len_def unat_of_nat_u8)

lemma whole_frame_BuildV2: "length payload < 256 \<Longrightarrow> whole_frame (BuildV2 sq sys mid payload sig)"
  by (simp add: whole_frame_def BuildV2_def magic_byte_def wire_len_def header_len_def unat_of_nat_u8)

lemma msgid_bytes:
  assumes "mid < 2 ^ 24"
  shows "ucast (ucast (mid AND 0xff) :: u8) OR push_bit 8 (ucast (ucast (drop_bit 8 mid AND 0xff) :: u8))
    OR push_bit 16 (ucast (ucast (drop_bit 16 mid AND 0xff) :: u8)) = (mid :: u32)" (is "?m = mid")
proof (rule bit_word_eqI)
  fix n :: nat
  assume "n < LENGTH(32)"
  then have "n < 8 \<or> (8 \<le> n \<and> n < 16) \<or> (16 \<le> n \<and> n < 24) \<or> (24 \<le> n \<and> n < 32)" by auto
  moreover have "24 \<le> n \<Longrightarrow> \<not> bit mid n"
    using assms by (metis bit_take_bit_iff less_mask_eq not_le take_bit_eq_mask)
  ultimately show "bit ?m n = bit mid n"
    by (elim disjE) (auto simp: ff_mask bit_simps)
qed

subsection \<open>What a delivered message looks like\<close>

definition message_wf :: "mavlink_message \<Rightarrow> bool" where
  "message_wf m \<longleftrightarrow> length (mm_data m) = mm_size m \<and> mm_size m \<le> kMaxFrameSize
     \<and> (if mm_v2 m then kMavlinkV2HeaderSize else kMavlinkV1HeaderSize) + kChecksumSize \<le> mm_size m"

lemma message_wf_head: "wire_len xs \<le> length xs \<Longrightarrow> message_wf (head_message xs)"
  using wire_len_bound [of xs]
  by (auto simp: message_wf_def head_message_def wire_len_def header_len_def)

lemma parse_message_wf: "parse xs = (ms, n, r) \<Longrightarrow> list_all message_wf ms"
proof (induction xs arbitrary: ms n r rule: parse.induct)
  case (1 xs)
  show ?case
  proof (cases "xs = []")
    case False
    then show ?thesis
      using "1.IH" [OF False] "1.prems"
      by (auto simp: parse.simps [of xs] scan_iffs message_wf_head split: scan_result.splits prod.splits)
  qed (use "1.prems" in simp)
qed

lemma framer_Push_message_wf: "framer_Push s data = Some (s', out) \<Longrightarrow> list_all message_wf out"
  by (rule framer_Push_safe [of s data]) (auto dest: parse_message_wf)

lemma head_message_BuildV2:
  assumes "length payload < 256" and "mid < 2 ^ 24"
  shows "head_message (BuildV2 sq sys mid payload sig) =
    \<lparr>mm_data = BuildV2 sq sys mid payload sig, mm_size = length (BuildV2 sq sys mid payload sig),
     mm_msgid = mid, mm_system_id = sys, mm_component_id = 1, mm_v2 = True\<rparr>"
proof -
  have "wire_len (BuildV2 sq sys mid payload sig) = length (BuildV2 sq sys mid payload sig)"
    using whole_frame_BuildV2 [OF assms(1)] by (simp add: whole_frame_def)
  then show ?thesis
    using msgid_bytes [OF assms(2)] by (simp add: head_message_def) (simp add: BuildV2_def)
qed

text \<open>A stream of whole frames, however it is cut.\<close>

lemma run_frames:
  assumes "fr_buffer s = []" and "fr_callback s"
    and "\<forall>(g, f) \<in> set items. noise g \<and> whole_frame f"
    and "concat chunks = concat (map (\<lambda>(g, f). g @ f) items)"
  shows "run_steps framer_Push s chunks =
    Some (s\<lparr>fr_messages := fr_messages s + of_nat (length items),
            fr_dropped_bytes := fr_dropped_bytes s + of_nat (sum_list (map (\<lambda>(g, f). length g) items))\<rparr>,
          map (\<lambda>(g, f). head_message f) items)"
proof -
  have inv: "framer_inv s" using assms(1) by (simp add: framer_inv_def)
  have "run_steps framer_Push s chunks = framer_Push s (concat (map (\<lambda>(g, f). g @ f) items))"
    by (simp add: mavlink.run_concat [OF inv] assms(4))
  also have "\<dots> = Some ((count_frames s (length items)
      (sum_list (map (\<lambda>(g, f). length g) items)))\<lparr>fr_buffer := []\<rparr>, map (\<lambda>(g, f). head_message f) items)"
    using assms(1,2) parse_frames [OF assms(3)] by (simp add: framer_Push_parse)
  finally show ?thesis
    using assms(1) by (cases s) (simp add: count_frames_def)
qed

lemma framer_Push_callback: "framer_Push s data = Some (s', out) \<Longrightarrow> fr_callback s' = fr_callback s"
  by (rule framer_Push_safe [of s data]) auto

lemma head_message_data: "whole_frame f \<Longrightarrow> mm_data (head_message f) = f \<and> mm_size (head_message f) = length f"
  by (simp add: whole_frame_def head_message_def)

subsection \<open>Properties\<close>

text \<open>
  C10: the messages delivered, the counters and the bytes left over depend only on the bytes the framer
  received and not on how TCP or the radio cut them into pushes, and no push reads outside its buffer.
\<close>

theorem framer_chunking:
  assumes "framer_inv s" and "concat xs = concat ys"
  shows "run_steps framer_Push s xs = run_steps framer_Push s ys \<and> run_steps framer_Push s xs \<noteq> None"
  using mavlink.chunking_irrelevant [OF assms] mavlink.run_safe [OF assms(1), of xs] by auto

theorem framer_chunking_witness:
  "run_steps framer_Push framer_init [[0x11, 0xfe], [0, 7, 1, 1, 5], [9, 9]] =
   run_steps framer_Push framer_init [[0x11, 0xfe, 0, 7, 1, 1, 5, 9, 9]]"
  using framer_chunking [of framer_init "[[0x11, 0xfe], [0, 7, 1, 1, 5], [9, 9]]"
      "[[0x11, 0xfe, 0, 7, 1, 1, 5, 9, 9]]"] by simp

text \<open>
  C1: a stream of whole frames separated by bytes that are no start marker is delivered frame by frame
  whatever the chunking: every frame is handed over once and in order, every separator byte is counted as
  dropped, and nothing is left in the buffer.
\<close>

theorem framer_delivers_frames:
  assumes "fr_buffer s = []" and "fr_callback s"
    and "\<forall>(g, f) \<in> set items. noise g \<and> whole_frame f"
    and "concat chunks = concat (map (\<lambda>(g, f). g @ f) items)"
  shows "run_steps framer_Push s chunks =
    Some (s\<lparr>fr_messages := fr_messages s + of_nat (length items),
            fr_dropped_bytes := fr_dropped_bytes s + of_nat (sum_list (map (\<lambda>(g, f). length g) items))\<rparr>,
          map (\<lambda>(g, f). head_message f) items)"
  using assms by (rule run_frames)

theorem framer_delivers_frames_witness:
  "run_steps framer_Push (framer_set_callback framer_init) [[0x11, 0xfe], [0, 7, 1, 1, 5, 9, 9]] =
   Some ((framer_set_callback framer_init)\<lparr>fr_messages := 1, fr_dropped_bytes := 1\<rparr>,
         [head_message [0xfe, 0, 7, 1, 1, 5, 9, 9]])"
  using framer_delivers_frames [of "framer_set_callback framer_init"
      "[([0x11], [0xfe, 0, 7, 1, 1, 5, 9, 9])]" "[[0x11, 0xfe], [0, 7, 1, 1, 5, 9, 9]]"]
  by (simp add: framer_set_callback_def framer_init_def noise_def whole_frame_def magic_byte_def
      wire_len_def header_len_def)

text \<open>
  C24: every byte pushed is accounted for (it is dropped, part of a delivered message or still
  buffered), a delivered message lies within the buffer and the protocol limit, and less than one frame stays
  buffered. The branch of \<open>Push\<close> that discards an oversized buffer is never taken: the state after a push is what the
  scanning loop left, with the scanned prefix erased and nothing else, and every dropped byte was dropped by the loop.
\<close>

theorem framer_accounts_bytes:
  assumes "framer_Push s data = Some (s', out)" and "fr_callback s"
  shows "\<exists>s1 offset n. push_loop (s\<lparr>fr_buffer := fr_buffer s @ data\<rparr>) 0 = Some (s1, offset, out)
    \<and> s' = s1\<lparr>fr_buffer := drop offset (fr_buffer s @ data)\<rparr>
    \<and> length (drop offset (fr_buffer s @ data)) < kMaxFrameSize \<and> list_all message_wf out
    \<and> fr_dropped_bytes s' = fr_dropped_bytes s + of_nat n
    \<and> length (fr_buffer s) + length data = n + sum_list (map mm_size out) + length (fr_buffer s')"
proof -
  obtain ms n r where p: "parse (fr_buffer s @ data) = (ms, n, r)" using prod_cases3 by blast
  let ?s0 = "s\<lparr>fr_buffer := fr_buffer s @ data\<rparr>"
  have eq: "s' = (count_frames s (length ms) n)\<lparr>fr_buffer := r\<rparr>" "out = ms"
    using framer_Push_parse [OF p] assms by auto
  obtain q where q: "fr_buffer s @ data = q @ r" using parse_split [OF p] by blast
  define k where "k = length (fr_buffer s @ data) - length r"
  have loop: "push_loop ?s0 0 = Some (count_frames ?s0 (length ms) n, k, out)"
    using push_loop_parse [of 0 ?s0 ms n r] p assms(2) by (simp add: k_def eq)
  have rest: "drop k (fr_buffer s @ data) = r" unfolding k_def q by simp
  have bytes: "length (fr_buffer s) + length data = n + sum_list (map mm_size out) + length (fr_buffer s')"
  proof -
    have "length (fr_buffer s @ data) = n + sum_list (map mm_size ms) + length r"
      using parse_split [OF p] by (metis length_append)
    then show ?thesis by (simp add: eq)
  qed
  have "s' = (count_frames ?s0 (length ms) n)\<lparr>fr_buffer := drop k (fr_buffer s @ data)\<rparr>"
    unfolding rest by (simp add: eq count_frames_def)
  moreover have "length (drop k (fr_buffer s @ data)) < kMaxFrameSize" "list_all message_wf out"
      "fr_dropped_bytes s' = fr_dropped_bytes s + of_nat n"
    using parse_rest [OF p] parse_message_wf [OF p] unfolding rest by (simp_all add: eq)
  ultimately show ?thesis using loop bytes by blast
qed

theorem framer_accounts_bytes_witness:
  "let s = framer_set_callback framer_init in
   \<exists>s' out s1 offset. framer_Push s [0x11, 0xfe, 0] = Some (s', out)
     \<and> push_loop (s\<lparr>fr_buffer := [0x11, 0xfe, 0]\<rparr>) 0 = Some (s1, offset, out) \<and> fr_buffer s' = drop offset [0x11, 0xfe, 0]"
proof -
  let ?s = "framer_set_callback framer_init"
  obtain s' out where p: "framer_Push ?s [0x11, 0xfe, 0] = Some (s', out)"
    using mavlink.step_safe [of ?s "[0x11, 0xfe, 0]"] by auto
  have "fr_callback ?s" "fr_buffer ?s = []" by (simp_all add: framer_set_callback_def framer_init_def)
  with framer_accounts_bytes [OF p] obtain s1 offset where
      "push_loop (?s\<lparr>fr_buffer := [0x11, 0xfe, 0]\<rparr>) 0 = Some (s1, offset, out)"
      "s' = s1\<lparr>fr_buffer := drop offset [0x11, 0xfe, 0]\<rparr>" by auto
  moreover from this(2) have "fr_buffer s' = drop offset [0x11, 0xfe, 0]" by (cases s1) simp
  ultimately show ?thesis using p unfolding Let_def by blast
qed

text \<open>
  A MAVLink v2 message, signed or not, pushed into an idle framer is delivered with exactly its
  bytes and with the system id and the 24-bit message id it was built with.
\<close>

theorem framer_BuildV2_roundtrip:
  assumes "fr_buffer s = []" and "fr_callback s" and "length payload < 256" and "mid < 2 ^ 24"
  shows "map_option snd (framer_Push s (BuildV2 sq sys mid payload sig)) =
    Some [\<lparr>mm_data = BuildV2 sq sys mid payload sig, mm_size = length (BuildV2 sq sys mid payload sig),
           mm_msgid = mid, mm_system_id = sys, mm_component_id = 1, mm_v2 = True\<rparr>]"
proof -
  have "parse (BuildV2 sq sys mid payload sig @ []) = (head_message (BuildV2 sq sys mid payload sig) # [], 0, [])"
    by (rule parse_whole_frame) (simp_all add: whole_frame_BuildV2 assms(3))
  then show ?thesis
    using assms by (simp add: framer_Push_parse head_message_BuildV2)
qed

theorem framer_BuildV2_roundtrip_witness:
  "map_option snd (framer_Push (framer_set_callback framer_init) (BuildV2 0 255 76 [1, 2, 3] True)) =
   Some [\<lparr>mm_data = BuildV2 0 255 76 [1, 2, 3] True, mm_size = 28, mm_msgid = 76,
          mm_system_id = 255, mm_component_id = 1, mm_v2 = True\<rparr>]"
  using framer_BuildV2_roundtrip [of "framer_set_callback framer_init" "[1, 2, 3]" 76 0 255 True]
  by (simp add: framer_set_callback_def framer_init_def BuildV2_def)

end
