(* ===== verification/Telemetry.thy ===== *)
theory Telemetry
  imports Mavlink_Framer
begin

section \<open>Telemetry extraction\<close>

text \<open>
  \<^verbatim>\<open>core/src/mavlink/router.cpp\<close>, class \<open>TelemetryDecoder\<close>: the handful of MAVLink messages the on-screen
  display shows are decoded into \<open>telemetry_state\<close>. \<open>telemetry_Consume\<close> is \<open>TelemetryDecoder::Consume\<close> with one
  definition per \<open>case\<close> of its \<open>switch\<close>; \<open>now\<close> is the value of \<open>NowMs()\<close>. Every read of the payload is
  checked.

  A \<open>float\<close> is symbolic: \<open>F32_bits w\<close> is the float whose bit pattern was copied from the message,
  \<open>F32_quot n d\<close> the float the code computes as \<open>n / d\<close> from an integer \<open>n\<close> and the float constant \<open>d\<close>.
\<close>

subsection \<open>Data\<close>

definition kMsgHeartbeat :: u32 where [simp]: "kMsgHeartbeat = 0"
definition kMsgSysStatus :: u32 where [simp]: "kMsgSysStatus = 1"
definition kMsgAttitude :: u32 where [simp]: "kMsgAttitude = 30"
definition kMsgGlobalPositionInt :: u32 where [simp]: "kMsgGlobalPositionInt = 33"
definition kMsgGpsRawInt :: u32 where [simp]: "kMsgGpsRawInt = 24"
definition kMsgVfrHud :: u32 where [simp]: "kMsgVfrHud = 74"
definition kMsgBatteryStatus :: u32 where [simp]: "kMsgBatteryStatus = 147"

datatype f32 = F32_bits u32 | F32_quot int int

record telemetry_state =
  ts_armed :: bool
  ts_base_mode :: u8
  ts_custom_mode :: u32
  ts_system_status :: u8
  ts_mav_type :: u8
  ts_roll_rad :: f32
  ts_pitch_rad :: f32
  ts_yaw_rad :: f32
  ts_latitude_e7 :: int
  ts_longitude_e7 :: int
  ts_altitude_mm :: int
  ts_relative_altitude_mm :: int
  ts_satellites :: u8
  ts_gps_fix_type :: u8
  ts_ground_speed_ms :: f32
  ts_air_speed_ms :: f32
  ts_climb_ms :: f32
  ts_heading_deg :: f32
  ts_throttle_pct :: u16
  ts_battery_voltage_v :: f32
  ts_battery_current_a :: f32
  ts_battery_remaining_pct :: int
  ts_last_update_ms :: u64
  ts_valid :: bool

definition telemetry_init :: telemetry_state where
  "telemetry_init =
     \<lparr>ts_armed = False, ts_base_mode = 0, ts_custom_mode = 0, ts_system_status = 0, ts_mav_type = 0,
      ts_roll_rad = F32_bits 0, ts_pitch_rad = F32_bits 0, ts_yaw_rad = F32_bits 0,
      ts_latitude_e7 = 0, ts_longitude_e7 = 0, ts_altitude_mm = 0, ts_relative_altitude_mm = 0,
      ts_satellites = 0, ts_gps_fix_type = 0,
      ts_ground_speed_ms = F32_bits 0, ts_air_speed_ms = F32_bits 0, ts_climb_ms = F32_bits 0,
      ts_heading_deg = F32_bits 0, ts_throttle_pct = 0,
      ts_battery_voltage_v = F32_bits 0, ts_battery_current_a = F32_bits 0, ts_battery_remaining_pct = -1,
      ts_last_update_ms = 0, ts_valid = False\<rparr>"

subsection \<open>Operations\<close>

text \<open>\<open>ReadLe<T>\<close> copies \<open>sizeof(T)\<close> bytes; the targets (ARM, x86) are little-endian.\<close>

definition ReadLe16 :: "bytes \<Rightarrow> nat \<Rightarrow> u16 option" where
  "ReadLe16 p i = do {
     b0 \<leftarrow> read8 p i;
     b1 \<leftarrow> read8 p (i + 1);
     Some (ucast b0 OR push_bit 8 (ucast b1))
   }"

definition ReadLe32 :: "bytes \<Rightarrow> nat \<Rightarrow> u32 option" where
  "ReadLe32 p i = do {
     b0 \<leftarrow> read8 p i;
     b1 \<leftarrow> read8 p (i + 1);
     b2 \<leftarrow> read8 p (i + 2);
     b3 \<leftarrow> read8 p (i + 3);
     Some (ucast b0 OR push_bit 8 (ucast b1) OR push_bit 16 (ucast b2) OR push_bit 24 (ucast b3))
   }"

definition read_float :: "bytes \<Rightarrow> nat \<Rightarrow> f32 option" where
  "read_float p i = map_option F32_bits (ReadLe32 p i)"

text \<open>In each \<open>case\<close>, \<open>p\<close> is the message and \<open>h\<close> the offset of its payload.\<close>

definition consume_heartbeat :: "bytes \<Rightarrow> nat \<Rightarrow> nat \<Rightarrow> telemetry_state \<Rightarrow> telemetry_state option" where
  "consume_heartbeat p h payload_len st =
     (if payload_len \<ge> 8 then do {
        custom_mode \<leftarrow> ReadLe32 p h;
        mav_type \<leftarrow> read8 p (h + 4);
        base_mode \<leftarrow> read8 p (h + 6);
        system_status \<leftarrow> read8 p (h + 7);
        Some (st\<lparr>ts_custom_mode := custom_mode, ts_mav_type := mav_type, ts_base_mode := base_mode,
                 ts_system_status := system_status, ts_armed := (base_mode AND 0x80 \<noteq> 0)\<rparr>)
      } else Some st)"

definition consume_sys_status :: "bytes \<Rightarrow> nat \<Rightarrow> nat \<Rightarrow> telemetry_state \<Rightarrow> telemetry_state option" where
  "consume_sys_status p h payload_len st =
     (if payload_len \<ge> 31 then do {
        mv \<leftarrow> ReadLe16 p (h + 14);
        ca \<leftarrow> ReadLe16 p (h + 16);
        remaining \<leftarrow> read8 p (h + 30);
        Some (st\<lparr>ts_battery_voltage_v := F32_quot (uint mv) 1000,
                 ts_battery_current_a := F32_quot (sint ca) 100,
                 ts_battery_remaining_pct := sint remaining\<rparr>)
      } else Some st)"

definition consume_attitude :: "bytes \<Rightarrow> nat \<Rightarrow> nat \<Rightarrow> telemetry_state \<Rightarrow> telemetry_state option" where
  "consume_attitude p h payload_len st =
     (if payload_len \<ge> 16 then do {
        roll \<leftarrow> read_float p (h + 4);
        pitch \<leftarrow> read_float p (h + 8);
        yaw \<leftarrow> read_float p (h + 12);
        Some (st\<lparr>ts_roll_rad := roll, ts_pitch_rad := pitch, ts_yaw_rad := yaw\<rparr>)
      } else Some st)"

definition consume_global_position_int :: "bytes \<Rightarrow> nat \<Rightarrow> nat \<Rightarrow> telemetry_state \<Rightarrow> telemetry_state option" where
  "consume_global_position_int p h payload_len st =
     (if payload_len \<ge> 28 then do {
        lat \<leftarrow> ReadLe32 p (h + 4);
        lon \<leftarrow> ReadLe32 p (h + 8);
        alt \<leftarrow> ReadLe32 p (h + 12);
        rel \<leftarrow> ReadLe32 p (h + 16);
        hdg \<leftarrow> ReadLe16 p (h + 26);
        let st1 = st\<lparr>ts_latitude_e7 := sint lat, ts_longitude_e7 := sint lon,
                     ts_altitude_mm := sint alt, ts_relative_altitude_mm := sint rel\<rparr>;
        Some (if hdg \<noteq> 0xffff then st1\<lparr>ts_heading_deg := F32_quot (uint hdg) 100\<rparr> else st1)
      } else Some st)"

definition consume_gps_raw_int :: "bytes \<Rightarrow> nat \<Rightarrow> nat \<Rightarrow> telemetry_state \<Rightarrow> telemetry_state option" where
  "consume_gps_raw_int p h payload_len st =
     (if payload_len \<ge> 30 then do {
        fix_type \<leftarrow> read8 p (h + 28);
        satellites \<leftarrow> read8 p (h + 29);
        Some (st\<lparr>ts_gps_fix_type := fix_type, ts_satellites := satellites\<rparr>)
      } else Some st)"

definition consume_vfr_hud :: "bytes \<Rightarrow> nat \<Rightarrow> nat \<Rightarrow> telemetry_state \<Rightarrow> telemetry_state option" where
  "consume_vfr_hud p h payload_len st =
     (if payload_len \<ge> 20 then do {
        air_speed \<leftarrow> read_float p h;
        ground_speed \<leftarrow> read_float p (h + 4);
        climb \<leftarrow> read_float p (h + 12);
        throttle \<leftarrow> ReadLe16 p (h + 18);
        Some (st\<lparr>ts_air_speed_ms := air_speed, ts_ground_speed_ms := ground_speed,
                 ts_climb_ms := climb, ts_throttle_pct := throttle\<rparr>)
      } else Some st)"

definition consume_battery_status :: "bytes \<Rightarrow> nat \<Rightarrow> nat \<Rightarrow> telemetry_state \<Rightarrow> telemetry_state option" where
  "consume_battery_status p h payload_len st =
     (if payload_len \<ge> 36 then do {
        cell_mv \<leftarrow> ReadLe16 p (h + 5);
        ca \<leftarrow> ReadLe16 p (h + 25);
        remaining \<leftarrow> read8 p (h + 35);
        let st1 = (if cell_mv \<noteq> 0xffff then st\<lparr>ts_battery_voltage_v := F32_quot (uint cell_mv) 1000\<rparr> else st);
        Some (st1\<lparr>ts_battery_current_a := F32_quot (sint ca) 100, ts_battery_remaining_pct := sint remaining\<rparr>)
      } else Some st)"

definition consume_payload :: "u32 \<Rightarrow> bytes \<Rightarrow> nat \<Rightarrow> nat \<Rightarrow> telemetry_state \<Rightarrow> telemetry_state option" where
  "consume_payload msgid p h payload_len st =
     (if msgid = kMsgHeartbeat then consume_heartbeat p h payload_len st
      else if msgid = kMsgSysStatus then consume_sys_status p h payload_len st
      else if msgid = kMsgAttitude then consume_attitude p h payload_len st
      else if msgid = kMsgGlobalPositionInt then consume_global_position_int p h payload_len st
      else if msgid = kMsgGpsRawInt then consume_gps_raw_int p h payload_len st
      else if msgid = kMsgVfrHud then consume_vfr_hud p h payload_len st
      else if msgid = kMsgBatteryStatus then consume_battery_status p h payload_len st
      else Some st)"

definition telemetry_Consume :: "telemetry_state \<Rightarrow> u64 \<Rightarrow> mavlink_message \<Rightarrow> telemetry_state option" where
  "telemetry_Consume st now m = (
     let header = (if mm_v2 m then kMavlinkV2HeaderSize else kMavlinkV1HeaderSize) in
     if mm_size m < header + kChecksumSize then Some st
     else
       let payload_len = mm_size m - header - kChecksumSize;
           st1 = st\<lparr>ts_valid := True, ts_last_update_ms := now\<rparr>
       in consume_payload (mm_msgid m) (mm_data m) header payload_len st1)"

definition telemetry_Get :: "telemetry_state \<Rightarrow> telemetry_state" where
  "telemetry_Get st = st"

subsection \<open>Little-endian reads\<close>

definition le32_bytes :: "u32 \<Rightarrow> bytes" where
  "le32_bytes w = rev (be32_bytes w)"

lemma length_le32_bytes [simp]: "length (le32_bytes w) = 4"
  by (simp add: le32_bytes_def)

lemma ReadLe32_be32:
  "i + 4 \<le> length p \<Longrightarrow> ReadLe32 p i = Some (be32 (p ! (i + 3)) (p ! (i + 2)) (p ! (i + 1)) (p ! i))"
  by (simp add: ReadLe32_def be32_def ac_simps)

lemma ReadLe32_skip [read_simps]: "length xs \<le> i \<Longrightarrow> ReadLe32 (xs @ ys) i = ReadLe32 ys (i - length xs)"
  by (simp add: ReadLe32_def read8_skip Suc_diff_le)

lemma ReadLe32_Cons_skip [read_simps]: "0 < i \<Longrightarrow> ReadLe32 (x # xs) i = ReadLe32 xs (i - 1)"
  by (simp add: ReadLe32_def read8_Cons_skip)

lemma ReadLe16_skip [read_simps]: "length xs \<le> i \<Longrightarrow> ReadLe16 (xs @ ys) i = ReadLe16 ys (i - length xs)"
  by (simp add: ReadLe16_def read8_skip Suc_diff_le)

lemma ReadLe16_Cons_skip [read_simps]: "0 < i \<Longrightarrow> ReadLe16 (x # xs) i = ReadLe16 xs (i - 1)"
  by (simp add: ReadLe16_def read8_Cons_skip)

lemma ReadLe16_here [read_simps]:
  "ReadLe16 (a # b # xs) 0 = Some (ucast a OR push_bit 8 (ucast b))"
  by (simp add: ReadLe16_def read8_def)

lemma ReadLe32_here [read_simps]: "ReadLe32 (le32_bytes w @ ys) 0 = Some w"
proof -
  have "ReadLe32 (le32_bytes w @ ys) 0 =
    Some (be32 (be32_bytes w ! 0) (be32_bytes w ! 1) (be32_bytes w ! 2) (be32_bytes w ! 3))"
    by (subst ReadLe32_be32) (auto simp: le32_bytes_def nth_append be32_bytes_def)
  then show ?thesis by (simp only: be32_be32_bytes)
qed

subsection \<open>Facts about each case\<close>

definition armed_inv :: "telemetry_state \<Rightarrow> bool" where
  "armed_inv st \<longleftrightarrow> (ts_armed st \<longleftrightarrow> ts_base_mode st AND 0x80 \<noteq> 0)"

lemmas read_defs = ReadLe16_def ReadLe32_def read_float_def

text \<open>No case reads past the payload.\<close>

lemma consume_safe:
  assumes "h + n \<le> length p"
  shows "\<exists>st'. consume_heartbeat p h n st = Some st'"
    and "\<exists>st'. consume_sys_status p h n st = Some st'"
    and "\<exists>st'. consume_attitude p h n st = Some st'"
    and "\<exists>st'. consume_global_position_int p h n st = Some st'"
    and "\<exists>st'. consume_gps_raw_int p h n st = Some st'"
    and "\<exists>st'. consume_vfr_hud p h n st = Some st'"
    and "\<exists>st'. consume_battery_status p h n st = Some st'"
  using assms
  by (simp_all add: consume_heartbeat_def consume_sys_status_def consume_attitude_def
      consume_global_position_int_def consume_gps_raw_int_def consume_vfr_hud_def
      consume_battery_status_def read_defs Let_def)

text \<open>Only a heartbeat writes the arming state.\<close>

lemma heartbeat_arming: "consume_heartbeat p h n st = Some st' \<Longrightarrow> armed_inv st \<Longrightarrow> armed_inv st'"
  by (auto simp: consume_heartbeat_def armed_inv_def split: if_splits Option.bind_splits)

lemma sys_status_arming: "consume_sys_status p h n st = Some st' \<Longrightarrow> armed_inv st \<Longrightarrow> armed_inv st'"
  by (auto simp: consume_sys_status_def armed_inv_def split: if_splits Option.bind_splits)

lemma attitude_arming: "consume_attitude p h n st = Some st' \<Longrightarrow> armed_inv st \<Longrightarrow> armed_inv st'"
  by (auto simp: consume_attitude_def armed_inv_def split: if_splits Option.bind_splits)

lemma position_arming: "consume_global_position_int p h n st = Some st' \<Longrightarrow> armed_inv st \<Longrightarrow> armed_inv st'"
  by (auto simp: consume_global_position_int_def armed_inv_def Let_def split: if_splits Option.bind_splits)

lemma gps_arming: "consume_gps_raw_int p h n st = Some st' \<Longrightarrow> armed_inv st \<Longrightarrow> armed_inv st'"
  by (auto simp: consume_gps_raw_int_def armed_inv_def split: if_splits Option.bind_splits)

lemma vfr_hud_arming: "consume_vfr_hud p h n st = Some st' \<Longrightarrow> armed_inv st \<Longrightarrow> armed_inv st'"
  by (auto simp: consume_vfr_hud_def armed_inv_def split: if_splits Option.bind_splits)

lemma battery_arming: "consume_battery_status p h n st = Some st' \<Longrightarrow> armed_inv st \<Longrightarrow> armed_inv st'"
  by (auto simp: consume_battery_status_def armed_inv_def Let_def split: if_splits Option.bind_splits)

lemmas consume_arming = heartbeat_arming sys_status_arming attitude_arming position_arming gps_arming
  vfr_hud_arming battery_arming

text \<open>A payload shorter than eight bytes is never interpreted.\<close>

lemma consume_short:
  assumes "n < 8"
  shows "consume_heartbeat p h n st = Some st"
    and "consume_sys_status p h n st = Some st"
    and "consume_attitude p h n st = Some st"
    and "consume_global_position_int p h n st = Some st"
    and "consume_gps_raw_int p h n st = Some st"
    and "consume_vfr_hud p h n st = Some st"
    and "consume_battery_status p h n st = Some st"
  using assms
  by (simp_all add: consume_heartbeat_def consume_sys_status_def consume_attitude_def
      consume_global_position_int_def consume_gps_raw_int_def consume_vfr_hud_def consume_battery_status_def)

lemma armed_inv_init [simp]: "armed_inv telemetry_init"
  by (simp add: armed_inv_def telemetry_init_def)

lemma armed_inv_time [simp]:
  "armed_inv (st\<lparr>ts_valid := v, ts_last_update_ms := now\<rparr>) = armed_inv st"
  by (simp add: armed_inv_def)

lemma consume_payload_safe: "h + n \<le> length p \<Longrightarrow> \<exists>st'. consume_payload i p h n st = Some st'"
  by (simp add: consume_payload_def consume_safe)

lemma consume_payload_short: "n < 8 \<Longrightarrow> consume_payload i p h n st = Some st"
  by (simp add: consume_payload_def consume_short)

lemma consume_payload_other:
  "i \<notin> {0, 1, 30, 33, 24, 74, 147} \<Longrightarrow> consume_payload i p h n st = Some st"
  by (simp add: consume_payload_def)

lemma consume_payload_arming: "consume_payload i p h n st = Some st' \<Longrightarrow> armed_inv st \<Longrightarrow> armed_inv st'"
  by (simp add: consume_payload_def split: if_split_asm) (blast dest: consume_arming)+

lemma telemetry_Consume_safe:
  assumes "length (mm_data m) = mm_size m"
  shows "\<exists>st'. telemetry_Consume st now m = Some st'"
  using assms by (auto simp: telemetry_Consume_def Let_def intro!: consume_payload_safe)

lemma telemetry_Consume_armed_inv:
  "telemetry_Consume st now m = Some st' \<Longrightarrow> armed_inv st \<Longrightarrow> armed_inv st'"
  by (auto simp: telemetry_Consume_def Let_def split: if_splits dest: consume_payload_arming)

subsection \<open>Properties\<close>

text \<open>
  Consuming any message whose size matches its buffer reads within that buffer, and the armed flag
  always says what bit 7 of the last base mode says.
\<close>

theorem telemetry_Consume_armed:
  assumes "armed_inv st" and "length (mm_data m) = mm_size m"
  shows "\<exists>st'. telemetry_Consume st now m = Some st' \<and> armed_inv st'"
  using telemetry_Consume_safe [OF assms(2)] telemetry_Consume_armed_inv [OF _ assms(1)] by blast

theorem telemetry_Consume_armed_witness:
  "\<exists>st'. telemetry_Consume telemetry_init 5 (head_message (BuildV1 0 1 0 [5, 0, 0, 0, 2, 3, 0x80, 4, 3])) = Some st'
     \<and> armed_inv st'"
  by (rule telemetry_Consume_armed)
     (simp_all add: BuildV1_def head_message_def wire_len_def header_len_def)

text \<open>
  A message the on-screen display does not interpret, or one with fewer than eight payload bytes,
  refreshes the time stamp and the valid flag and nothing else.
\<close>

theorem telemetry_Consume_other:
  assumes "message_wf m"
    and "mm_msgid m \<notin> {kMsgHeartbeat, kMsgSysStatus, kMsgAttitude, kMsgGlobalPositionInt, kMsgGpsRawInt,
                       kMsgVfrHud, kMsgBatteryStatus}
      \<or> mm_size m < (if mm_v2 m then kMavlinkV2HeaderSize else kMavlinkV1HeaderSize) + kChecksumSize + 8"
  shows "telemetry_Consume st now m = Some (st\<lparr>ts_valid := True, ts_last_update_ms := now\<rparr>)"
proof -
  define h where "h = (if mm_v2 m then kMavlinkV2HeaderSize else kMavlinkV1HeaderSize)"
  define n where "n = mm_size m - h - kChecksumSize"
  have "h + 2 \<le> mm_size m" using assms(1) by (simp add: message_wf_def h_def)
  then have eq: "telemetry_Consume st now m =
      consume_payload (mm_msgid m) (mm_data m) h n (st\<lparr>ts_valid := True, ts_last_update_ms := now\<rparr>)"
    by (simp add: telemetry_Consume_def Let_def n_def flip: h_def)
  from assms(2) have "mm_msgid m \<notin> {0, 1, 30, 33, 24, 74, 147} \<or> n < 8"
    unfolding h_def [symmetric] n_def by auto
  then show ?thesis
    unfolding eq by (rule disjE) (rule consume_payload_other consume_payload_short; assumption)+
qed

theorem telemetry_Consume_other_witness:
  "telemetry_Consume telemetry_init 5 (head_message (BuildV1 0 1 77 [1, 2])) =
   Some (telemetry_init\<lparr>ts_valid := True, ts_last_update_ms := 5\<rparr>)"
  by (rule telemetry_Consume_other)
     (simp_all add: message_wf_def BuildV1_def head_message_def wire_len_def header_len_def)



text \<open>
  The payload length is computed from the size of the whole frame, so the 13 signature bytes of a
  signed MAVLink v2 frame count as payload: a signed heartbeat that carries no payload at all sets the base
  mode, and with it the armed flag, from its signature.
\<close>

theorem telemetry_signature_as_payload:
  assumes "length sig = 13" and "f = [0xfd, 0, 1, 0, sq, sys, cid, 0, 0, 0] @ [c0, c1] @ sig"
  shows "whole_frame f \<and> (\<exists>st'. telemetry_Consume st now (head_message f) = Some st'
           \<and> ts_base_mode st' = sig ! 4 \<and> ts_armed st' = (sig ! 4 AND 0x80 \<noteq> 0))"
proof -
  have len: "length f = 25" "wire_len f = 25" using assms by (simp_all add: wire_len_def header_len_def)
  then have "whole_frame f" using assms(2) by (simp add: whole_frame_def magic_byte_def)
  moreover have "head_message f = \<lparr>mm_data = f, mm_size = 25, mm_msgid = 0, mm_system_id = sys,
    mm_component_id = cid, mm_v2 = True\<rparr>"
    using len assms(2) by (simp add: head_message_def)
  moreover have "read8 f 16 = Some (sig ! 4)"
    using assms by (simp add: read_simps)
  ultimately show ?thesis
    using len by (simp add: telemetry_Consume_def consume_payload_def consume_heartbeat_def ReadLe32_def)
qed

theorem telemetry_signature_as_payload_witness:
  "\<exists>st'. telemetry_Consume telemetry_init 1 (head_message ([0xfd, 0, 1, 0, 0, 1, 1, 0, 0, 0] @ [0, 0]
      @ [1, 2, 3, 4, 0x80, 6, 7, 8, 9, 10, 11, 12, 13])) = Some st' \<and> ts_armed st'"
  using telemetry_signature_as_payload [of "[1, 2, 3, 4, 0x80, 6, 7, 8, 9, 10, 11, 12, 13]" _ 0 1 1 0 0
      telemetry_init 1] by fastforce

end
