(* ===== verification/Doubles.thy ===== *)
theory Doubles
  imports Prelude
begin

section \<open>The doubles of the adaptive-link code\<close>

text \<open>
  An IEEE double as the C++ code sees it: a finite value, one of the two infinities or NaN. Arithmetic on finite
  values is exact (rounding, overflow and the sign of zero are not modelled; no divisor in the code is a negative
  zero), while division by zero, the infinities and NaN follow IEEE 754, so that a configuration that makes the
  code compute NaN is visible in the model. The conversions to \<open>int\<close> are checked: \<open>None\<close> is a value
  that does not fit, which is undefined behaviour in C++.
\<close>

datatype f64 = Fin real | PInf | NInf | NaN

subsection \<open>Arithmetic and comparison\<close>

definition inf_of :: "bool \<Rightarrow> f64" where
  "inf_of positive = (if positive then PInf else NInf)"

fun f64_neg :: "f64 \<Rightarrow> f64" where
  "f64_neg (Fin x) = Fin (- x)"
| "f64_neg PInf = NInf"
| "f64_neg NInf = PInf"
| "f64_neg NaN = NaN"

fun f64_add :: "f64 \<Rightarrow> f64 \<Rightarrow> f64" where
  "f64_add (Fin x) (Fin y) = Fin (x + y)"
| "f64_add NaN _ = NaN"
| "f64_add _ NaN = NaN"
| "f64_add PInf NInf = NaN"
| "f64_add NInf PInf = NaN"
| "f64_add PInf _ = PInf"
| "f64_add _ PInf = PInf"
| "f64_add NInf _ = NInf"
| "f64_add _ NInf = NInf"

text \<open>The sign of a number that is not NaN: \<open>-1\<close>, \<open>0\<close> or \<open>1\<close>.\<close>

fun f64_sign :: "f64 \<Rightarrow> int" where
  "f64_sign (Fin x) = (if x > 0 then 1 else if x < 0 then - 1 else 0)"
| "f64_sign PInf = 1"
| "f64_sign NInf = - 1"
| "f64_sign NaN = 0"

fun f64_mul :: "f64 \<Rightarrow> f64 \<Rightarrow> f64" where
  "f64_mul (Fin x) (Fin y) = Fin (x * y)"
| "f64_mul NaN _ = NaN"
| "f64_mul _ NaN = NaN"
| "f64_mul x y = (let sg = f64_sign x * f64_sign y in if sg = 0 then NaN else inf_of (sg > 0))"

fun f64_div :: "f64 \<Rightarrow> f64 \<Rightarrow> f64" where
  "f64_div (Fin x) (Fin y) =
     (if y \<noteq> 0 then Fin (x / y) else if x = 0 then NaN else inf_of (x > 0))"
| "f64_div NaN _ = NaN"
| "f64_div _ NaN = NaN"
| "f64_div (Fin x) _ = Fin 0"
| "f64_div x (Fin y) = inf_of ((f64_sign x > 0) = (y \<ge> 0))"
| "f64_div _ _ = NaN"

text \<open>The ordered comparisons: false as soon as one side is NaN.\<close>

fun f64_less :: "f64 \<Rightarrow> f64 \<Rightarrow> bool" where
  "f64_less (Fin x) (Fin y) = (x < y)"
| "f64_less NaN _ = False"
| "f64_less _ NaN = False"
| "f64_less NInf y = (y \<noteq> NInf)"
| "f64_less x PInf = (x \<noteq> PInf)"
| "f64_less _ _ = False"

instantiation f64 :: "{plus, minus, times, inverse, ord}"
begin

definition plus_f64 :: "f64 \<Rightarrow> f64 \<Rightarrow> f64" where
  "plus_f64 = f64_add"

definition minus_f64 :: "f64 \<Rightarrow> f64 \<Rightarrow> f64" where
  "minus_f64 x y = f64_add x (f64_neg y)"

definition times_f64 :: "f64 \<Rightarrow> f64 \<Rightarrow> f64" where
  "times_f64 = f64_mul"

definition divide_f64 :: "f64 \<Rightarrow> f64 \<Rightarrow> f64" where
  "divide_f64 = f64_div"

definition inverse_f64 :: "f64 \<Rightarrow> f64" where
  "inverse_f64 = f64_div (Fin 1)"

definition less_f64 :: "f64 \<Rightarrow> f64 \<Rightarrow> bool" where
  "less_f64 = f64_less"

definition less_eq_f64 :: "f64 \<Rightarrow> f64 \<Rightarrow> bool" where
  "less_eq_f64 x y = (f64_less x y \<or> (x = y \<and> x \<noteq> NaN))"

instance ..

end

text \<open>\<open>x != 0.0\<close>: true for NaN.\<close>

definition f64_nonzero :: "f64 \<Rightarrow> bool" where
  "f64_nonzero x = (x \<noteq> Fin 0)"

subsection \<open>Standard library functions\<close>

text \<open>\<open>std::min\<close> and \<open>std::max\<close> return their first argument when the comparison fails, so NaN survives in it.\<close>

definition std_min :: "f64 \<Rightarrow> f64 \<Rightarrow> f64" where
  "std_min a b = (if b < a then b else a)"

definition std_max :: "f64 \<Rightarrow> f64 \<Rightarrow> f64" where
  "std_max a b = (if a < b then b else a)"

text \<open>
  \<open>std::pow\<close>: one when the exponent is zero; a negative base has a value only for an integral exponent.
\<close>

definition pow_fin :: "real \<Rightarrow> real \<Rightarrow> f64" where
  "pow_fin b e =
     (if e = 0 then Fin 1
      else if b = 0 then (if e > 0 then Fin 0 else PInf)
      else if b > 0 then Fin (b powr e)
      else if e \<in> \<int> then Fin (if even \<lfloor>e\<rfloor> then \<bar>b\<bar> powr e else - (\<bar>b\<bar> powr e))
      else NaN)"

fun std_pow :: "f64 \<Rightarrow> f64 \<Rightarrow> f64" where
  "std_pow (Fin b) (Fin e) = pow_fin b e"
| "std_pow PInf (Fin e) = (if e = 0 then Fin 1 else if e > 0 then PInf else Fin 0)"
| "std_pow NInf (Fin e) =
     (if e = 0 then Fin 1
      else if e > 0 then (if e \<in> \<int> \<and> odd \<lfloor>e\<rfloor> then NInf else PInf)
      else Fin 0)"
| "std_pow NaN (Fin e) = (if e = 0 then Fin 1 else NaN)"
| "std_pow (Fin b) PInf = (if \<bar>b\<bar> = 1 then Fin 1 else if \<bar>b\<bar> < 1 then Fin 0 else PInf)"
| "std_pow (Fin b) NInf = (if \<bar>b\<bar> = 1 then Fin 1 else if \<bar>b\<bar> < 1 then PInf else Fin 0)"
| "std_pow (Fin b) NaN = (if b = 1 then Fin 1 else NaN)"
| "std_pow NaN _ = NaN"
| "std_pow _ NaN = NaN"
| "std_pow _ PInf = PInf"
| "std_pow _ NInf = Fin 0"

text \<open>\<open>static_cast<int>(double)\<close> truncates toward zero.\<close>

definition trunc_real :: "real \<Rightarrow> int" where
  "trunc_real x = (if x \<ge> 0 then \<lfloor>x\<rfloor> else \<lceil>x\<rceil>)"

definition fits_int32 :: "int \<Rightarrow> bool" where
  "fits_int32 n = (- (2 ^ 31) \<le> n \<and> n < 2 ^ 31)"

fun cast_int :: "f64 \<Rightarrow> int option" where
  "cast_int (Fin x) = (if fits_int32 (trunc_real x) then Some (trunc_real x) else None)"
| "cast_int _ = None"

text \<open>
  \<open>std::lround\<close> rounds half away from zero into a 64-bit \<open>long\<close>; the narrowing to \<open>int\<close> that follows keeps the
  low 32 bits.
\<close>

definition round_half_away :: "real \<Rightarrow> int" where
  "round_half_away x = (if x \<ge> 0 then \<lfloor>x + 1 / 2\<rfloor> else \<lceil>x - 1 / 2\<rceil>)"

definition narrow_int :: "int \<Rightarrow> int" where
  "narrow_int n = sint (word_of_int n :: 32 word)"

fun lround_int :: "f64 \<Rightarrow> int option" where
  "lround_int (Fin x) =
     (let n = round_half_away x in if - (2 ^ 63) \<le> n \<and> n < 2 ^ 63 then Some (narrow_int n) else None)"
| "lround_int _ = None"

subsection \<open>Lemmas\<close>

lemma f64_fin_simps [simp]:
  "Fin x + Fin y = Fin (x + y)"
  "Fin x - Fin y = Fin (x - y)"
  "Fin x * Fin y = Fin (x * y)"
  "y \<noteq> 0 \<Longrightarrow> Fin x / Fin y = Fin (x / y)"
  "(Fin x < Fin y) = (x < y)"
  "(Fin x \<le> Fin y) = (x \<le> y)"
  "f64_nonzero (Fin x) = (x \<noteq> 0)"
  by (auto simp: plus_f64_def minus_f64_def times_f64_def divide_f64_def less_f64_def less_eq_f64_def f64_nonzero_def)

lemma std_min_fin [simp]: "std_min (Fin x) (Fin y) = Fin (min x y)"
  by (simp add: std_min_def)

lemma std_max_fin [simp]: "std_max (Fin x) (Fin y) = Fin (max x y)"
  by (simp add: std_max_def)

lemma pow_fin_unit:
  assumes "0 \<le> b" and "0 < e"
  shows "\<exists>r. std_pow (Fin b) (Fin e) = Fin r \<and> 0 \<le> r \<and> (b \<le> 1 \<longrightarrow> r \<le> 1) \<and> (b \<ge> 1 \<longrightarrow> r \<ge> 1)"
  using assms by (auto simp: pow_fin_def powr_le1 ge_one_powr_ge_zero)

lemma trunc_real_bounds:
  "of_int a \<le> x \<Longrightarrow> x \<le> of_int b \<Longrightarrow> a \<le> trunc_real x \<and> trunc_real x \<le> b"
  by (auto simp: trunc_real_def le_floor_iff floor_le_iff ceiling_le_iff le_ceiling_iff)

lemma trunc_real_of_int [simp]: "trunc_real (of_int n) = n"
  by (simp add: trunc_real_def)

lemma narrow_int_id [simp]: "fits_int32 n \<Longrightarrow> narrow_int n = n"
  by (simp add: narrow_int_def fits_int32_def sint_sbintrunc' signed_take_bit_int_eq_self)

lemma cast_int_of_int [simp]: "fits_int32 n \<Longrightarrow> cast_int (Fin (of_int n)) = Some n"
  by simp

end
