(* ===== verification/Config.thy ===== *)
theory Config
  imports Doubles
begin

section \<open>Configuration types\<close>

text \<open>
  The types of \<open>core/include/openipc/config.h\<close>: the radio ports, the channel id that couples a link id and a port,
  and the configuration structures with their default values. \<open>std::string\<close> is \<open>string\<close>, \<open>int\<close> is
  \<open>int\<close>, \<open>double\<close> is \<open>f64\<close>.
\<close>

definition kPortVideo :: u8 where "kPortVideo = 0x00"
definition kPortMavlinkRx :: u8 where "kPortMavlinkRx = 0x10"
definition kPortTunnelRx :: u8 where "kPortTunnelRx = 0x20"
definition kPortMavlinkTx :: u8 where "kPortMavlinkTx = 0x90"
definition kPortTunnelTx :: u8 where "kPortTunnelTx = 0xa0"

lemmas radio_port_defs = kPortVideo_def kPortMavlinkRx_def kPortTunnelRx_def kPortMavlinkTx_def kPortTunnelTx_def

datatype bandwidth = k5 | k10 | k20 | k40 | k80

fun bandwidth_value :: "bandwidth \<Rightarrow> u8" where
  "bandwidth_value k5 = 5"
| "bandwidth_value k10 = 10"
| "bandwidth_value k20 = 20"
| "bandwidth_value k40 = 40"
| "bandwidth_value k80 = 80"

definition ChannelId :: "u32 \<Rightarrow> u8 \<Rightarrow> u32" where
  "ChannelId link_id radio_port = (push_bit 8 link_id OR ucast radio_port)"

datatype source_kind = kDevourer | kUdp | kPcapFile

record radio_config =
  rc_channel :: int
  rc_bandwidth :: bandwidth
  rc_link_id :: u32
  rc_key_path :: string
  rc_ldpc :: bool
  rc_stbc :: bool

definition radio_config_default :: radio_config where
  "radio_config_default =
     \<lparr>rc_channel = 161, rc_bandwidth = k20, rc_link_id = 7669206, rc_key_path = '''', rc_ldpc = True, rc_stbc = True\<rparr>"

record udp_source_config =
  us_bind_addr :: string
  us_video_port :: int

definition udp_source_config_default :: udp_source_config where
  "udp_source_config_default = \<lparr>us_bind_addr = ''0.0.0.0'', us_video_port = 5600\<rparr>"

datatype endpoint_kind = kUdpOut | kUdpServer | kTcpServer

record mavlink_endpoint =
  me_kind :: endpoint_kind
  me_host :: string
  me_port :: int
  me_enabled :: bool
  me_allow_uplink :: bool

definition mavlink_endpoint_default :: mavlink_endpoint where
  "mavlink_endpoint_default =
     \<lparr>me_kind = kUdpOut, me_host = ''127.0.0.1'', me_port = 14550, me_enabled = True, me_allow_uplink = True\<rparr>"

record alink_config =
  ac_enabled :: bool
  ac_udp_host :: string
  ac_udp_port :: int
  ac_interval_ms :: int
  ac_snr_weight :: f64
  ac_rssi_weight :: f64
  ac_snr_min :: f64
  ac_snr_max :: f64
  ac_rssi_min :: f64
  ac_rssi_max :: f64
  ac_allow_idr :: bool
  ac_idr_max_messages :: int
  ac_allow_penalty :: bool
  ac_allow_fec_increase :: bool
  ac_min_noise :: f64
  ac_max_noise :: f64
  ac_deduction_exponent :: f64
  ac_min_noise_for_fec_change :: f64
  ac_noise_for_max_fec_change :: f64
  ac_kalman_estimate :: f64
  ac_kalman_error_estimate :: f64
  ac_process_variance :: f64
  ac_measurement_variance :: f64

definition alink_config_default :: alink_config where
  "alink_config_default =
     \<lparr>ac_enabled = False, ac_udp_host = ''10.5.0.10'', ac_udp_port = 9999, ac_interval_ms = 100,
      ac_snr_weight = Fin (1/2), ac_rssi_weight = Fin (1/2),
      ac_snr_min = Fin 12, ac_snr_max = Fin 38, ac_rssi_min = Fin (- 80), ac_rssi_max = Fin (- 30),
      ac_allow_idr = True, ac_idr_max_messages = 20,
      ac_allow_penalty = False, ac_allow_fec_increase = False,
      ac_min_noise = Fin (1/100), ac_max_noise = Fin (1/10), ac_deduction_exponent = Fin (1/2),
      ac_min_noise_for_fec_change = Fin (1/100), ac_noise_for_max_fec_change = Fin (1/10),
      ac_kalman_estimate = Fin (5/1000), ac_kalman_error_estimate = Fin (1/10),
      ac_process_variance = Fin (1/100000), ac_measurement_variance = Fin (1/100)\<rparr>"

record gs_config =
  gc_source :: source_kind
  gc_radio :: radio_config
  gc_udp :: udp_source_config
  gc_alink :: alink_config
  gc_pcap_path :: string
  gc_video_mirror_host :: string
  gc_video_mirror_port :: int

definition gs_config_default :: gs_config where
  "gs_config_default =
     \<lparr>gc_source = kDevourer, gc_radio = radio_config_default, gc_udp = udp_source_config_default,
      gc_alink = alink_config_default, gc_pcap_path = '''', gc_video_mirror_host = '''', gc_video_mirror_port = 0\<rparr>"

subsection \<open>The channel id\<close>

lemma bit_ChannelId:
  "bit (ChannelId l p) n \<longleftrightarrow> (if n < 8 then bit p n else n < 32 \<and> bit l (n - 8))"
  by (auto simp: ChannelId_def bit_simps dest: bit_imp_le_length)

lemma ChannelId_port: "ucast (ChannelId l p) = p"
  by (rule bit_word_eqI) (simp add: bit_ChannelId bit_simps)

lemma ChannelId_link: "l < 2 ^ 24 \<Longrightarrow> drop_bit 8 (ChannelId l p) = l"
proof (rule bit_word_eqI)
  fix n :: nat
  assume "l < 2 ^ 24" and "n < LENGTH(32)"
  then have "take_bit 24 l = l" by (simp add: take_bit_eq_mask less_mask_eq)
  then have "bit l n \<Longrightarrow> n < 24" by (metis bit_take_bit_iff)
  then show "bit (drop_bit 8 (ChannelId l p)) n = bit l n"
    by (auto simp: bit_simps bit_ChannelId)
qed

lemma ChannelId_eq_iff:
  assumes "l < 2 ^ 24" and "l' < 2 ^ 24"
  shows "ChannelId l p = ChannelId l' p' \<longleftrightarrow> l = l' \<and> p = p'"
  using ChannelId_link [OF assms(1), of p] ChannelId_link [OF assms(2), of p']
    ChannelId_port [of l p] ChannelId_port [of l' p'] by metis

end
