(* ===== verification/Mavlink_Router.thy ===== *)
theory Mavlink_Router
  imports Telemetry Config "HOL-Library.Multiset"
begin

section \<open>The MAVLink router\<close>

text \<open>
  Model of class \<open>MavlinkRouter\<close> of \<open>core/src/mavlink/router.cpp\<close>: the endpoint table and its rebuilding, the
  downlink fan-out, the uplink re-framing, one iteration of the poll loop, start and stop.

  The socket calls are decided by the operating system. What they return is an argument: \<open>network\<close> for the calls
  that set an endpoint up, \<open>poll_result\<close> for one wait of the poll loop and the receive calls that follow it. What
  the router does to the outside is a list of \<open>router_action\<close>s. \<open>rt_open\<close> is the list of descriptors the router
  has opened and not closed; it is bookkeeping of the model, and the invariant states that it is what the endpoints
  and the wake pipe hold. A mutex protects the endpoint table, so the operations are atomic steps; an endpoint is
  identified by its position in the table, which only the poll thread changes.
\<close>

subsection \<open>Data\<close>

type_synonym sockaddr = "u32 \<times> u16"

record network =
  nt_pton :: "string \<Rightarrow> u32 option"
  nt_socket :: "nat \<Rightarrow> int"
  nt_bind :: "int \<Rightarrow> sockaddr \<Rightarrow> bool"
  nt_listen :: "int \<Rightarrow> bool"

record endpoint =
  ep_config :: mavlink_endpoint
  ep_fd :: int
  ep_clients :: "int list"
  ep_peer :: sockaddr
  ep_have_peer :: bool
  ep_framer :: framer

record router =
  rt_configured :: "mavlink_endpoint list"
  rt_endpoints :: "endpoint list"
  rt_dirty :: bool
  rt_downlink_framer :: framer
  rt_telemetry :: telemetry_state
  rt_uplink :: bool
  rt_running :: bool
  rt_wake_pipe :: "int list"
  rt_downlink_bytes :: u64
  rt_uplink_bytes :: u64
  rt_open :: "int list"

datatype router_action =
    SendTo int sockaddr bytes
  | SendClient int bytes
  | Uplink bytes
  | CloseFd int

subsection \<open>Setting endpoints up\<close>

definition ResolveIpv4 :: "network \<Rightarrow> string \<Rightarrow> int \<Rightarrow> sockaddr option" where
  "ResolveIpv4 net host port =
     (if host = '''' \<or> host = ''0.0.0.0'' then Some (0, word_of_int port)
      else map_option (\<lambda>ip. (ip, word_of_int port)) (nt_pton net host))"

definition router_init :: router where
  "router_init =
     \<lparr>rt_configured = [], rt_endpoints = [], rt_dirty = True, rt_downlink_framer = framer_set_callback framer_init,
      rt_telemetry = telemetry_init, rt_uplink = False, rt_running = False, rt_wake_pipe = [- 1, - 1],
      rt_downlink_bytes = 0, rt_uplink_bytes = 0, rt_open = []\<rparr>"

definition router_SetEndpoints :: "router \<Rightarrow> mavlink_endpoint list \<Rightarrow> router" where
  "router_SetEndpoints r endpoints = r\<lparr>rt_configured := endpoints, rt_dirty := True\<rparr>"

definition set_uplink_callback :: "router \<Rightarrow> router" where
  "set_uplink_callback r = r\<lparr>rt_uplink := True\<rparr>"

text \<open>
  One round of the loop of \<open>RebuildEndpoints\<close>. \<open>configure_endpoint\<close> is what follows a successful \<open>socket\<close>: the endpoint
  to append, or none on one of the \<open>continue\<close> paths, where the destructor of the endpoint closes the socket again.
\<close>

definition new_endpoint :: "mavlink_endpoint \<Rightarrow> int \<Rightarrow> endpoint" where
  "new_endpoint config fd =
     \<lparr>ep_config = config, ep_fd = fd, ep_clients = [], ep_peer = (0, 0), ep_have_peer = False, ep_framer = framer_init\<rparr>"

definition configure_endpoint :: "network \<Rightarrow> mavlink_endpoint \<Rightarrow> int \<Rightarrow> endpoint option" where
  "configure_endpoint net config fd =
     (let ep = new_endpoint config fd in
      case me_kind config of
        kTcpServer \<Rightarrow>
          (case ResolveIpv4 net (me_host config) (me_port config) of
             None \<Rightarrow> None
           | Some addr \<Rightarrow> if \<not> nt_bind net fd addr \<or> \<not> nt_listen net fd then None else Some ep)
      | kUdpServer \<Rightarrow>
          (case ResolveIpv4 net (me_host config) (me_port config) of
             None \<Rightarrow> None
           | Some addr \<Rightarrow> if \<not> nt_bind net fd addr then None else Some ep)
      | kUdpOut \<Rightarrow>
          (case ResolveIpv4 net (me_host config) (me_port config) of
             None \<Rightarrow> None
           | Some addr \<Rightarrow> Some (ep\<lparr>ep_peer := addr, ep_have_peer := True\<rparr>)))"

definition setup_endpoint :: "network \<Rightarrow> nat \<Rightarrow> router \<Rightarrow> mavlink_endpoint \<Rightarrow> router \<times> router_action list" where
  "setup_endpoint net i r config =
     (if \<not> me_enabled config then (r, [])
      else
        let fd = nt_socket net i in
        if fd < 0 then (r, [])
        else
          let r1 = r\<lparr>rt_open := rt_open r @ [fd]\<rparr> in
          case configure_endpoint net config fd of
            None \<Rightarrow> (r1\<lparr>rt_open := remove1 fd (rt_open r1)\<rparr>, [CloseFd fd])
          | Some ep \<Rightarrow> (r1\<lparr>rt_endpoints := rt_endpoints r1 @ [ep]\<rparr>, []))"

fun setup_endpoints :: "network \<Rightarrow> nat \<Rightarrow> router \<Rightarrow> mavlink_endpoint list \<Rightarrow> router \<times> router_action list" where
  "setup_endpoints net i r [] = (r, [])"
| "setup_endpoints net i r (config # configs) =
     (case setup_endpoint net i r config of
        (r1, acts) \<Rightarrow> case setup_endpoints net (i + 1) r1 configs of (r2, acts') \<Rightarrow> (r2, acts @ acts'))"

definition endpoint_fds :: "endpoint \<Rightarrow> int list" where
  "endpoint_fds ep = ep_clients ep @ [ep_fd ep]"

definition table_fds :: "endpoint list \<Rightarrow> int list" where
  "table_fds eps = concat (map endpoint_fds eps)"

text \<open>\<open>endpoints_.clear()\<close>: the destructor of each endpoint closes its clients and its socket.\<close>

definition clear_endpoints :: "router \<Rightarrow> router \<times> router_action list" where
  "clear_endpoints r =
     (r\<lparr>rt_endpoints := [], rt_open := filter (\<lambda>fd. fd \<notin> set (table_fds (rt_endpoints r))) (rt_open r)\<rparr>,
      map CloseFd (table_fds (rt_endpoints r)))"

definition RebuildEndpoints :: "network \<Rightarrow> router \<Rightarrow> router \<times> router_action list" where
  "RebuildEndpoints net r =
     (if \<not> rt_dirty r then (r, [])
      else
        let (r1, shut) = clear_endpoints (r\<lparr>rt_dirty := False\<rparr>);
            (r2, dropped) = setup_endpoints net 0 r1 (rt_configured r1)
        in (r2, shut @ dropped))"

subsection \<open>Data flow\<close>

definition HandleEndpointData :: "router \<Rightarrow> endpoint \<Rightarrow> bytes \<Rightarrow> (router \<times> endpoint \<times> router_action list) option" where
  "HandleEndpointData r ep data =
     (if \<not> me_allow_uplink (ep_config ep) \<or> \<not> rt_uplink r then Some (r, ep, [])
      else do {
        (fr, messages) \<leftarrow> framer_Push (framer_set_callback (ep_framer ep)) data;
        Some (r\<lparr>rt_uplink_bytes := rt_uplink_bytes r + sum_list (map (\<lambda>m. of_nat (mm_size m)) messages)\<rparr>,
              ep\<lparr>ep_framer := fr\<rparr>, map (\<lambda>m. Uplink (mm_data m)) messages)
      })"

fun consume_all :: "telemetry_state \<Rightarrow> u64 \<Rightarrow> mavlink_message list \<Rightarrow> telemetry_state option" where
  "consume_all st now [] = Some st"
| "consume_all st now (m # ms) = do { st1 \<leftarrow> telemetry_Consume st now m; consume_all st1 now ms }"

definition endpoint_sends :: "bytes \<Rightarrow> endpoint \<Rightarrow> router_action list" where
  "endpoint_sends data ep =
     (if ep_fd ep < 0 then []
      else if me_kind (ep_config ep) = kTcpServer then map (\<lambda>client. SendClient client data) (ep_clients ep)
      else if ep_have_peer ep then [SendTo (ep_fd ep) (ep_peer ep) data] else [])"

definition FeedDownlink :: "router \<Rightarrow> u64 \<Rightarrow> bytes \<Rightarrow> (router \<times> router_action list) option" where
  "FeedDownlink r now data =
     (if length data = 0 then Some (r, [])
      else do {
        (fr, messages) \<leftarrow> framer_Push (rt_downlink_framer r) data;
        telemetry \<leftarrow> consume_all (rt_telemetry r) now messages;
        Some (r\<lparr>rt_downlink_bytes := rt_downlink_bytes r + of_nat (length data), rt_downlink_framer := fr,
                rt_telemetry := telemetry\<rparr>,
              concat (map (endpoint_sends data) (rt_endpoints r)))
      })"

subsection \<open>The poll loop\<close>

text \<open>A polled descriptor: the position of its endpoint, the descriptor, and whether it is a client.\<close>

record slot =
  sl_endpoint :: nat
  sl_fd :: int
  sl_is_client :: bool

text \<open>
  What \<open>poll\<close> reports for a slot and what the call made on it returns: \<open>None\<close> is an error of \<open>recv\<close>, \<open>Some []\<close>
  the end of the stream.
\<close>

record slot_event =
  se_pollin :: bool
  se_hangup :: bool
  se_other :: bool
  se_received :: "bytes option"
  se_from :: sockaddr
  se_accepted :: int

datatype poll_result = Poll_interrupted | Poll_failed | Poll_timeout | Poll_woken | Poll_events "slot_event list"

definition endpoint_slots :: "nat \<Rightarrow> endpoint \<Rightarrow> slot list" where
  "endpoint_slots i ep =
     (if ep_fd ep < 0 then []
      else \<lparr>sl_endpoint = i, sl_fd = ep_fd ep, sl_is_client = False\<rparr>
           # map (\<lambda>client. \<lparr>sl_endpoint = i, sl_fd = client, sl_is_client = True\<rparr>) (ep_clients ep))"

definition build_slots :: "endpoint list \<Rightarrow> slot list" where
  "build_slots eps = concat (map (\<lambda>i. endpoint_slots i (eps ! i)) [0..<length eps])"

text \<open>The body of the loop over the slots; the list of descriptors to close is threaded through.\<close>

definition handle_slot ::
  "router \<Rightarrow> slot \<Rightarrow> slot_event \<Rightarrow> (router \<times> int list \<times> router_action list) option" where
  "handle_slot r sl ev =
     (if \<not> se_pollin ev \<and> \<not> se_hangup ev \<and> \<not> se_other ev then Some (r, [], [])
      else if \<not> sl_endpoint sl < length (rt_endpoints r) then Some (r, [], [])
      else
        let i = sl_endpoint sl; ep = rt_endpoints r ! i in
        if sl_is_client sl then
          (if se_hangup ev then Some (r, [sl_fd sl], [])
           else case se_received ev of
             None \<Rightarrow> Some (r, [], [])
           | Some [] \<Rightarrow> Some (r, [sl_fd sl], [])
           | Some data \<Rightarrow> do {
               (r1, ep1, acts) \<leftarrow> HandleEndpointData r ep data;
               Some (r1\<lparr>rt_endpoints := (rt_endpoints r1)[i := ep1]\<rparr>, [], acts)
             })
        else if \<not> se_pollin ev then Some (r, [], [])
        else if me_kind (ep_config ep) = kTcpServer then
          (if se_accepted ev \<ge> 0 then
             Some (r\<lparr>rt_endpoints := (rt_endpoints r)[i := ep\<lparr>ep_clients := ep_clients ep @ [se_accepted ev]\<rparr>],
                     rt_open := rt_open r @ [se_accepted ev]\<rparr>, [], [])
           else Some (r, [], []))
        else case se_received ev of
          None \<Rightarrow> Some (r, [], [])
        | Some [] \<Rightarrow> Some (r, [], [])
        | Some data \<Rightarrow> do {
            let ep0 = (if me_kind (ep_config ep) = kUdpServer
                       then ep\<lparr>ep_peer := se_from ev, ep_have_peer := True\<rparr> else ep);
            (r1, ep1, acts) \<leftarrow> HandleEndpointData r ep0 data;
            Some (r1\<lparr>rt_endpoints := (rt_endpoints r1)[i := ep1]\<rparr>, [], acts)
          })"

fun handle_slots ::
  "router \<Rightarrow> (slot \<times> slot_event) list \<Rightarrow> (router \<times> int list \<times> router_action list) option" where
  "handle_slots r [] = Some (r, [], [])"
| "handle_slots r ((sl, ev) # rest) = do {
     (r1, c1, a1) \<leftarrow> handle_slot r sl ev;
     (r2, c2, a2) \<leftarrow> handle_slots r1 rest;
     Some (r2, c1 @ c2, a1 @ a2)
   }"

text \<open>Closing one descriptor: it is removed from the first endpoint that has it as a client.\<close>

fun close_client :: "endpoint list \<Rightarrow> int \<Rightarrow> endpoint list \<times> bool" where
  "close_client [] fd = ([], False)"
| "close_client (ep # eps) fd =
     (if fd \<in> set (ep_clients ep) then (ep\<lparr>ep_clients := remove1 fd (ep_clients ep)\<rparr> # eps, True)
      else case close_client eps fd of (eps', found) \<Rightarrow> (ep # eps', found))"

fun close_clients :: "router \<Rightarrow> int list \<Rightarrow> router \<times> router_action list" where
  "close_clients r [] = (r, [])"
| "close_clients r (fd # fds) =
     (case close_client (rt_endpoints r) fd of
        (eps, found) \<Rightarrow>
          let r1 = (if found then r\<lparr>rt_endpoints := eps, rt_open := remove1 fd (rt_open r)\<rparr> else r) in
          case close_clients r1 fds of (r2, acts) \<Rightarrow> (r2, (if found then [CloseFd fd] else []) @ acts))"

text \<open>One iteration of \<open>PollLoop\<close>; the third component tells whether the loop goes on.\<close>

definition poll_iteration ::
  "network \<Rightarrow> router \<Rightarrow> poll_result \<Rightarrow> (router \<times> router_action list \<times> bool) option" where
  "poll_iteration net r result =
     (case RebuildEndpoints net r of
        (r1, shut) \<Rightarrow>
          let slots = build_slots (rt_endpoints r1) in
          case result of
            Poll_interrupted \<Rightarrow> Some (r1, shut, True)
          | Poll_failed \<Rightarrow> Some (r1, shut, False)
          | _ \<Rightarrow>
            if \<not> rt_running r1 then Some (r1, shut, False)
            else case result of
              Poll_events events \<Rightarrow> do {
                (r2, to_close, acts) \<leftarrow> handle_slots r1 (zip slots events);
                let (r3, acts') = close_clients r2 to_close;
                Some (r3, shut @ acts @ acts', True)
              }
            | _ \<Rightarrow> Some (r1, shut, True))"

subsection \<open>Start and stop\<close>

text \<open>\<open>pipe\<close> returns two descriptors or fails.\<close>

definition router_Start :: "router \<Rightarrow> (int \<times> int) option \<Rightarrow> router \<times> bool" where
  "router_Start r pipe =
     (if rt_running r then (r, True)
      else case pipe of
        None \<Rightarrow> (r\<lparr>rt_running := False\<rparr>, False)
      | Some (a, b) \<Rightarrow> (r\<lparr>rt_running := True, rt_wake_pipe := [a, b], rt_open := rt_open r @ [a, b]\<rparr>, True))"

definition CloseEndpoints :: "router \<Rightarrow> router \<times> router_action list" where
  "CloseEndpoints r = clear_endpoints r"

definition router_Stop :: "router \<Rightarrow> router \<times> router_action list" where
  "router_Stop r =
     (if \<not> rt_running r then (r, [])
      else
        let r1 = r\<lparr>rt_running := False\<rparr>;
            pipe_fds = filter (\<lambda>fd. fd \<ge> 0) (rt_wake_pipe r1);
            r2 = r1\<lparr>rt_wake_pipe := map (\<lambda>fd. if fd \<ge> 0 then - 1 else fd) (rt_wake_pipe r1),
                    rt_open := filter (\<lambda>fd. fd \<notin> set pipe_fds) (rt_open r1)\<rparr>;
            (r3, acts) = CloseEndpoints r2
        in (r3, map CloseFd pipe_fds @ acts))"

subsection \<open>Invariant\<close>

text \<open>The descriptors the router holds: those of the endpoint table and of the wake pipe.\<close>

definition pipe_fds :: "router \<Rightarrow> int list" where
  "pipe_fds r = filter (\<lambda>fd. fd \<ge> 0) (rt_wake_pipe r)"

definition held :: "router \<Rightarrow> int list" where
  "held r = table_fds (rt_endpoints r) @ pipe_fds r"

definition fds_inv :: "router \<Rightarrow> bool" where
  "fds_inv r \<longleftrightarrow> mset (rt_open r) = mset (held r) \<and> distinct (held r)"

definition framers_inv :: "router \<Rightarrow> bool" where
  "framers_inv r \<longleftrightarrow> framer_inv (rt_downlink_framer r) \<and> (\<forall>ep \<in> set (rt_endpoints r). framer_inv (ep_framer ep))"

definition router_inv :: "router \<Rightarrow> bool" where
  "router_inv r \<longleftrightarrow> framers_inv r \<and> fds_inv r"

text \<open>
  The endpoints a rebuild keeps, as a function of the configuration and of what the socket calls return. What the
  operating system guarantees of new descriptors: those of the endpoints kept differ from each other and from those of
  the wake pipe, which is open.
\<close>

definition kept_endpoint :: "network \<Rightarrow> nat \<Rightarrow> mavlink_endpoint \<Rightarrow> endpoint option" where
  "kept_endpoint net i config =
     (if me_enabled config \<and> 0 \<le> nt_socket net i then configure_endpoint net config (nt_socket net i) else None)"

fun kept_endpoints :: "network \<Rightarrow> nat \<Rightarrow> mavlink_endpoint list \<Rightarrow> endpoint list" where
  "kept_endpoints net i [] = []"
| "kept_endpoints net i (config # configs) =
     (case kept_endpoint net i config of None \<Rightarrow> [] | Some ep \<Rightarrow> [ep]) @ kept_endpoints net (i + 1) configs"

definition fresh_sockets :: "network \<Rightarrow> router \<Rightarrow> bool" where
  "fresh_sockets net r \<longleftrightarrow> distinct (map ep_fd (kept_endpoints net 0 (rt_configured r)) @ pipe_fds r)"

definition accepted_fds :: "slot_event list \<Rightarrow> int list" where
  "accepted_fds events = filter (\<lambda>fd. 0 \<le> fd) (map se_accepted events)"

lemma router_inv_init: "router_inv router_init"
  by (simp add: router_inv_def framers_inv_def fds_inv_def held_def pipe_fds_def table_fds_def router_init_def)

lemma kept_endpoint_fields:
  "kept_endpoint net i config = Some ep \<Longrightarrow>
     ep_fd ep = nt_socket net i \<and> ep_clients ep = [] \<and> ep_framer ep = framer_init \<and> ep_config ep = config
     \<and> me_enabled config \<and> 0 \<le> ep_fd ep"
  by (auto simp: kept_endpoint_def configure_endpoint_def new_endpoint_def Let_def
      split: if_splits endpoint_kind.splits option.splits)

lemma kept_endpoints_fields:
  "table_fds (kept_endpoints net i configs) = map ep_fd (kept_endpoints net i configs)
    \<and> (\<forall>ep \<in> set (kept_endpoints net i configs). framer_inv (ep_framer ep) \<and> 0 \<le> ep_fd ep)"
proof (induction configs arbitrary: i)
  case (Cons config configs)
  show ?case
  proof (cases "kept_endpoint net i config")
    case None
    with Cons [of "i + 1"] show ?thesis by (fastforce simp: table_fds_def)
  next
    case (Some ep)
    with kept_endpoint_fields [OF Some] Cons [of "i + 1"] show ?thesis by (fastforce simp: table_fds_def endpoint_fds_def)
  qed
qed (simp add: table_fds_def)

text \<open>
  A round of the loop appends the endpoint it keeps and leaves its socket open, or leaves the table and the open
  descriptors as they were: the socket of a dropped endpoint is closed.
\<close>

lemma setup_endpoints_kept:
  "\<exists>fds acts. setup_endpoints net i r configs = (r\<lparr>rt_endpoints := rt_endpoints r @ kept_endpoints net i configs, rt_open := fds\<rparr>, acts)
     \<and> mset fds = mset (rt_open r) + mset (map ep_fd (kept_endpoints net i configs))
     \<and> (\<forall>a \<in> set acts. \<exists>fd. a = CloseFd fd)"
proof (induction configs arbitrary: i r)
  case Nil
  then show ?case by (intro exI [of _ "rt_open r"]) simp
next
  case (Cons config configs)
  let ?new = "case kept_endpoint net i config of None \<Rightarrow> [] | Some ep \<Rightarrow> [ep]"
  have "\<exists>fds acts. setup_endpoint net i r config = (r\<lparr>rt_endpoints := rt_endpoints r @ ?new, rt_open := fds\<rparr>, acts)
     \<and> mset fds = mset (rt_open r) + mset (map ep_fd ?new) \<and> (\<forall>a \<in> set acts. \<exists>fd. a = CloseFd fd)"
  proof (cases "kept_endpoint net i config")
    case None
    show ?thesis
    proof (cases "me_enabled config \<and> 0 \<le> nt_socket net i")
      case True
      with None show ?thesis
        by (intro exI [of _ "remove1 (nt_socket net i) (rt_open r @ [nt_socket net i])"])
           (simp add: setup_endpoint_def kept_endpoint_def Let_def)
    next
      case False
      with None show ?thesis by (intro exI [of _ "rt_open r"]) (auto simp: setup_endpoint_def Let_def)
    qed
  next
    case (Some ep)
    with kept_endpoint_fields [OF Some] show ?thesis
      by (intro exI [of _ "rt_open r @ [nt_socket net i]"]) (simp add: setup_endpoint_def kept_endpoint_def Let_def split: if_splits)
  qed
  then obtain fds acts where one: "setup_endpoint net i r config = (r\<lparr>rt_endpoints := rt_endpoints r @ ?new, rt_open := fds\<rparr>, acts)"
    "mset fds = mset (rt_open r) + mset (map ep_fd ?new)" "\<forall>a \<in> set acts. \<exists>fd. a = CloseFd fd" by blast
  from Cons.IH [of "i + 1" "r\<lparr>rt_endpoints := rt_endpoints r @ ?new, rt_open := fds\<rparr>"] obtain fds' acts' where
    "setup_endpoints net (i + 1) (r\<lparr>rt_endpoints := rt_endpoints r @ ?new, rt_open := fds\<rparr>) configs =
       (r\<lparr>rt_endpoints := rt_endpoints r @ ?new @ kept_endpoints net (i + 1) configs, rt_open := fds'\<rparr>, acts')"
    "mset fds' = mset fds + mset (map ep_fd (kept_endpoints net (i + 1) configs))" "\<forall>a \<in> set acts'. \<exists>fd. a = CloseFd fd"
    by auto
  with one show ?case by (intro exI [of _ fds'] exI [of _ "acts @ acts'"]) auto
qed

text \<open>Rebuilding a dirty table: the old endpoints are closed, and what is open afterwards is the rest and the new sockets.\<close>

lemma Rebuild_kept:
  assumes "rt_dirty r"
  shows "\<exists>fds acts. RebuildEndpoints net r =
      (r\<lparr>rt_dirty := False, rt_endpoints := kept_endpoints net 0 (rt_configured r), rt_open := fds\<rparr>, acts)
    \<and> mset fds = mset (filter (\<lambda>fd. fd \<notin> set (table_fds (rt_endpoints r))) (rt_open r))
        + mset (map ep_fd (kept_endpoints net 0 (rt_configured r)))
    \<and> (\<forall>a \<in> set acts. \<exists>fd. a = CloseFd fd)"
proof -
  let ?rest = "filter (\<lambda>fd. fd \<notin> set (table_fds (rt_endpoints r))) (rt_open r)"
  from setup_endpoints_kept [of net 0 "r\<lparr>rt_dirty := False, rt_endpoints := [], rt_open := ?rest\<rparr>" "rt_configured r"] obtain fds acts where
    "setup_endpoints net 0 (r\<lparr>rt_dirty := False, rt_endpoints := [], rt_open := ?rest\<rparr>) (rt_configured r) =
       (r\<lparr>rt_dirty := False, rt_endpoints := kept_endpoints net 0 (rt_configured r), rt_open := fds\<rparr>, acts)"
    "mset fds = mset ?rest + mset (map ep_fd (kept_endpoints net 0 (rt_configured r)))" "\<forall>a \<in> set acts. \<exists>fd. a = CloseFd fd"
    by auto
  with assms show ?thesis
    by (intro exI [of _ fds] exI [of _ "map CloseFd (table_fds (rt_endpoints r)) @ acts"])
       (auto simp: RebuildEndpoints_def clear_endpoints_def Let_def)
qed

lemma mset_filter_out:
  assumes "mset xs = mset (ys @ zs)" and "distinct (ys @ zs)"
  shows "mset (filter (\<lambda>x. x \<notin> set ys) xs) = mset zs" and "mset (filter (\<lambda>x. x \<notin> set zs) xs) = mset ys"
proof -
  have "filter (\<lambda>x. x \<notin> set ys) (ys @ zs) = zs" "filter (\<lambda>x. x \<notin> set zs) (ys @ zs) = ys"
    using assms(2) by (auto simp: filter_id_conv filter_empty_conv)
  with assms(1) show "mset (filter (\<lambda>x. x \<notin> set ys) xs) = mset zs" "mset (filter (\<lambda>x. x \<notin> set zs) xs) = mset ys"
    by (metis mset_filter)+
qed

lemma Rebuild_inv:
  assumes "router_inv r" and "fresh_sockets net r" and "RebuildEndpoints net r = (r', acts)"
  shows "router_inv r' \<and> rt_running r' = rt_running r \<and> (\<forall>a \<in> set acts. \<exists>fd. a = CloseFd fd)"
proof (cases "rt_dirty r")
  case False
  with assms show ?thesis by (simp add: RebuildEndpoints_def)
next
  case True
  let ?eps = "kept_endpoints net 0 (rt_configured r)"
  let ?rest = "filter (\<lambda>fd. fd \<notin> set (table_fds (rt_endpoints r))) (rt_open r)"
  note eps = kept_endpoints_fields [of net 0 "rt_configured r"]
  from Rebuild_kept [OF True, of net] assms(3) obtain fds where
    r': "r' = r\<lparr>rt_dirty := False, rt_endpoints := ?eps, rt_open := fds\<rparr>"
    and fds: "mset fds = mset ?rest + mset (map ep_fd ?eps)" and acts: "\<forall>a \<in> set acts. \<exists>fd. a = CloseFd fd" by auto
  have old: "mset (rt_open r) = mset (table_fds (rt_endpoints r) @ pipe_fds r)" "distinct (table_fds (rt_endpoints r) @ pipe_fds r)"
    using assms(1) by (simp_all add: router_inv_def fds_inv_def held_def)
  then have "mset ?rest = mset (pipe_fds r)" by (rule mset_filter_out)
  moreover have "distinct (map ep_fd ?eps @ pipe_fds r)"
    using assms(2) by (simp add: fresh_sockets_def)
  ultimately have "fds_inv r'"
    using eps fds by (simp add: r' fds_inv_def held_def pipe_fds_def)
  moreover have "framers_inv r'"
    using assms(1) eps by (simp add: r' router_inv_def framers_inv_def)
  ultimately show ?thesis using acts by (simp add: router_inv_def r')
qed

subsection \<open>The poll loop keeps the invariant\<close>

lemma table_fds_update:
  assumes "i < length eps"
  shows "table_fds (eps[i := ep]) = table_fds (take i eps) @ endpoint_fds ep @ table_fds (drop (Suc i) eps)"
    and "table_fds eps = table_fds (take i eps) @ endpoint_fds (eps ! i) @ table_fds (drop (Suc i) eps)"
proof -
  show "table_fds (eps[i := ep]) = table_fds (take i eps) @ endpoint_fds ep @ table_fds (drop (Suc i) eps)"
    using assms by (simp add: upd_conv_take_nth_drop table_fds_def)
  show "table_fds eps = table_fds (take i eps) @ endpoint_fds (eps ! i) @ table_fds (drop (Suc i) eps)"
    using id_take_nth_drop [OF assms] by (metis concat.simps(2) concat_append list.map(2) map_append table_fds_def)
qed

text \<open>Everything the router hands to the uplink is one complete MAVLink frame.\<close>

definition whole_uplink :: "router_action \<Rightarrow> bool" where
  "whole_uplink a \<longleftrightarrow> (case a of Uplink data \<Rightarrow> length data \<le> kMaxFrameSize \<and> 8 \<le> length data | _ \<Rightarrow> True)"

lemma whole_uplink_CloseFd [simp]: "whole_uplink (CloseFd fd)"
  by (simp add: whole_uplink_def)

lemma HandleEndpointData_ok:
  assumes "framer_inv (ep_framer ep)"
  shows "\<exists>n ep' acts. HandleEndpointData r ep data = Some (r\<lparr>rt_uplink_bytes := n\<rparr>, ep', acts)
    \<and> framer_inv (ep_framer ep') \<and> ep' = ep\<lparr>ep_framer := ep_framer ep'\<rparr> \<and> list_all whole_uplink acts"
proof (cases "\<not> me_allow_uplink (ep_config ep) \<or> \<not> rt_uplink r")
  case True
  then have "HandleEndpointData r ep data = Some (r, ep, [])" by (auto simp: HandleEndpointData_def)
  moreover have "r = r\<lparr>rt_uplink_bytes := rt_uplink_bytes r\<rparr>" "ep = ep\<lparr>ep_framer := ep_framer ep\<rparr>" by simp_all
  moreover have "list_all whole_uplink []" by simp
  ultimately show ?thesis using assms by metis
next
  case False
  obtain fr ms where push: "framer_Push (framer_set_callback (ep_framer ep)) data = Some (fr, ms)" "framer_inv fr"
    using mavlink.step_safe [of "framer_set_callback (ep_framer ep)" data] assms by auto
  then have "list_all message_wf ms" using framer_Push_message_wf by blast
  then have "list_all whole_uplink (map (\<lambda>m. Uplink (mm_data m)) ms)"
    by (auto simp: list_all_iff whole_uplink_def message_wf_def split: if_splits)
  with False push show ?thesis by (auto simp: HandleEndpointData_def)
qed

lemma data_step_inv:
  assumes "router_inv r" and "i < length (rt_endpoints r)" and "framer_inv (ep_framer ep)"
    and "ep_clients ep = ep_clients (rt_endpoints r ! i)" and "ep_fd ep = ep_fd (rt_endpoints r ! i)"
  shows "\<exists>r1 ep1 acts. HandleEndpointData r ep data = Some (r1, ep1, acts) \<and> list_all whole_uplink acts
    \<and> router_inv (r1\<lparr>rt_endpoints := (rt_endpoints r1)[i := ep1]\<rparr>) \<and> rt_open r1 = rt_open r"
proof -
  obtain n ep1 acts where h: "HandleEndpointData r ep data = Some (r\<lparr>rt_uplink_bytes := n\<rparr>, ep1, acts)"
      "framer_inv (ep_framer ep1)" "ep1 = ep\<lparr>ep_framer := ep_framer ep1\<rparr>" "list_all whole_uplink acts"
    using HandleEndpointData_ok [OF assms(3)] by blast
  have "endpoint_fds ep1 = endpoint_fds (rt_endpoints r ! i)"
    using assms(4,5) arg_cong [OF h(3), of ep_clients] arg_cong [OF h(3), of ep_fd] by (simp add: endpoint_fds_def)
  then have "table_fds ((rt_endpoints r)[i := ep1]) = table_fds (rt_endpoints r)"
    using table_fds_update [OF assms(2)] by metis
  with h assms(1,2) show ?thesis
    by (auto simp: router_inv_def framers_inv_def fds_inv_def held_def pipe_fds_def dest: set_update_subset_insert [THEN subsetD])
qed

lemma accept_inv:
  assumes "router_inv r" and "i < length (rt_endpoints r)" and "fd \<notin> set (rt_open r)"
  shows "router_inv (r\<lparr>rt_endpoints := (rt_endpoints r)[i := (rt_endpoints r ! i)\<lparr>ep_clients := ep_clients (rt_endpoints r ! i) @ [fd]\<rparr>],
     rt_open := rt_open r @ [fd]\<rparr>)"
proof -
  let ?ep = "rt_endpoints r ! i"
  let ?new = "table_fds ((rt_endpoints r)[i := ?ep\<lparr>ep_clients := ep_clients ?ep @ [fd]\<rparr>])"
  have m: "mset ?new = add_mset fd (mset (table_fds (rt_endpoints r)))"
    by (simp add: table_fds_update(1) [OF assms(2)] table_fds_update(2) [OF assms(2)] endpoint_fds_def)
  have old: "mset (rt_open r) = mset (held r)" "distinct (held r)"
    using assms(1) by (simp_all add: router_inv_def fds_inv_def)
  then have "fd \<notin> set (held r)" using assms(3) by (metis set_mset_mset)
  then have "distinct (fd # held r)" using old(2) by simp
  moreover have "mset (?new @ pipe_fds r) = mset (fd # held r)" using m by (simp add: held_def)
  ultimately have "distinct (?new @ pipe_fds r)" by (metis distinct_count_atmost_1 mset_eq_setD)
  then show ?thesis
    using assms(1,2) m old
    by (auto simp: router_inv_def framers_inv_def fds_inv_def held_def pipe_fds_def dest: set_update_subset_insert [THEN subsetD])
qed

lemma handle_slot_inv:
  assumes "router_inv r" and "0 \<le> se_accepted ev \<longrightarrow> se_accepted ev \<notin> set (rt_open r)"
  shows "\<exists>r' fds acts. handle_slot r sl ev = Some (r', fds, acts) \<and> router_inv r' \<and> list_all whole_uplink acts
    \<and> set (rt_open r') \<subseteq> {fd. fd = se_accepted ev \<and> 0 \<le> fd} \<union> set (rt_open r)"
proof (cases "(se_pollin ev \<or> se_hangup ev \<or> se_other ev) \<and> sl_endpoint sl < length (rt_endpoints r)")
  case False
  then show ?thesis using assms(1) by (auto simp: handle_slot_def)
next
  case True
  let ?i = "sl_endpoint sl" and ?ep = "rt_endpoints r ! sl_endpoint sl"
  have fr: "framer_inv (ep_framer ?ep)" using assms(1) True by (auto simp: router_inv_def framers_inv_def)
  let ?upd = "if me_kind (ep_config ?ep) = kUdpServer then ?ep\<lparr>ep_peer := se_from ev, ep_have_peer := True\<rparr> else ?ep"
  note d = data_step_inv [OF assms(1), of ?i]
  show ?thesis
  proof (cases "sl_is_client sl")
    case client: True
    show ?thesis
    proof (cases "se_hangup ev \<or> se_received ev = None \<or> se_received ev = Some []")
      case False
      then obtain b bs where data: "se_received ev = Some (b # bs)" "\<not> se_hangup ev" by (cases "se_received ev"; cases "the (se_received ev)") auto
      from d [OF _ fr refl refl, of "b # bs"] True obtain r1 ep1 acts where
        "HandleEndpointData r ?ep (b # bs) = Some (r1, ep1, acts)" "list_all whole_uplink acts"
        "router_inv (r1\<lparr>rt_endpoints := (rt_endpoints r1)[?i := ep1]\<rparr>)" "rt_open r1 = rt_open r" by blast
      with data client True show ?thesis by (auto simp: handle_slot_def Let_def)
    qed (use client True assms(1) in \<open>auto simp: handle_slot_def Let_def\<close>)
  next
    case server: False
    show ?thesis
    proof (cases "\<not> se_pollin ev \<or> me_kind (ep_config ?ep) = kTcpServer \<or> se_received ev = None \<or> se_received ev = Some []")
      case False
      then obtain b bs where data: "se_received ev = Some (b # bs)" by (cases "se_received ev"; cases "the (se_received ev)") auto
      have ep0: "framer_inv (ep_framer ?upd)" "ep_clients ?upd = ep_clients ?ep" "ep_fd ?upd = ep_fd ?ep"
        using fr by simp_all
      obtain r1 ep1 acts where
        "HandleEndpointData r ?upd (b # bs) = Some (r1, ep1, acts)" "list_all whole_uplink acts"
        "router_inv (r1\<lparr>rt_endpoints := (rt_endpoints r1)[?i := ep1]\<rparr>)" "rt_open r1 = rt_open r"
        using data_step_inv [OF assms(1) _ ep0, of "b # bs"] True by blast
      with data False server True show ?thesis by (auto simp: handle_slot_def Let_def)
    next
      case idle: True
      with server True assms(1) accept_inv [OF assms(1), of ?i "se_accepted ev"] assms(2) show ?thesis
        by (auto simp: handle_slot_def Let_def)
    qed
  qed
qed

lemma accepted_fds_Cons:
  "accepted_fds (ev # evs) = (if 0 \<le> se_accepted ev then se_accepted ev # accepted_fds evs else accepted_fds evs)"
  by (simp add: accepted_fds_def)

lemma handle_slots_inv:
  assumes "router_inv r" and "distinct (accepted_fds (map snd items))"
    and "set (accepted_fds (map snd items)) \<inter> set (rt_open r) = {}"
  shows "\<exists>r' fds acts. handle_slots r items = Some (r', fds, acts) \<and> router_inv r' \<and> list_all whole_uplink acts"
  using assms
proof (induction items arbitrary: r)
  case Nil
  then show ?case by simp
next
  case (Cons item items)
  obtain sl ev where item: "item = (sl, ev)" by force
  have "0 \<le> se_accepted ev \<longrightarrow> se_accepted ev \<notin> set (rt_open r)"
    using Cons.prems(3) by (auto simp: item accepted_fds_Cons)
  then obtain r1 c1 a1 where r1: "handle_slot r sl ev = Some (r1, c1, a1)" "router_inv r1" "list_all whole_uplink a1"
      "set (rt_open r1) \<subseteq> {fd. fd = se_accepted ev \<and> 0 \<le> fd} \<union> set (rt_open r)"
    using handle_slot_inv [OF Cons.prems(1)] by blast
  have "distinct (accepted_fds (map snd items))" "set (accepted_fds (map snd items)) \<inter> set (rt_open r1) = {}"
    using Cons.prems(2,3) r1(4) by (auto simp: item accepted_fds_Cons split: if_splits)
  then obtain r2 c2 a2 where "handle_slots r1 items = Some (r2, c2, a2)" "router_inv r2" "list_all whole_uplink a2"
    using Cons.IH [OF r1(2)] by blast
  with r1 show ?case by (simp add: item)
qed

lemma close_client_spec:
  assumes "close_client eps fd = (eps', found)"
  shows "(found \<longrightarrow> mset (table_fds eps) = add_mset fd (mset (table_fds eps'))) \<and> (\<not> found \<longrightarrow> eps' = eps)
    \<and> (\<forall>f. (\<forall>ep \<in> set eps. framer_inv (ep_framer ep)) \<longrightarrow> (\<forall>ep \<in> set eps'. framer_inv (ep_framer ep)))"
  using assms
proof (induction eps arbitrary: eps')
  case Nil
  then show ?case by simp
next
  case (Cons ep eps)
  show ?case
  proof (cases "fd \<in> set (ep_clients ep)")
    case True
    then have "mset (ep_clients ep) = add_mset fd (mset (remove1 fd (ep_clients ep)))" by simp
    with True Cons.prems show ?thesis by (auto simp: table_fds_def endpoint_fds_def)
  next
    case False
    then obtain eps1 where "close_client eps fd = (eps1, found)" "eps' = ep # eps1"
      using Cons.prems by (auto split: prod.splits)
    with Cons.IH [of eps1] show ?thesis by (auto simp: table_fds_def)
  qed
qed

lemma close_one_inv:
  assumes "router_inv r" and "close_client (rt_endpoints r) fd = (eps, True)"
  shows "router_inv (r\<lparr>rt_endpoints := eps, rt_open := remove1 fd (rt_open r)\<rparr>)"
proof -
  have m: "mset (table_fds (rt_endpoints r)) = add_mset fd (mset (table_fds eps))"
    and f: "\<forall>ep \<in> set eps. framer_inv (ep_framer ep)"
    using close_client_spec [OF assms(2)] assms(1) by (auto simp: router_inv_def framers_inv_def)
  have old: "mset (rt_open r) = mset (held r)" "distinct (held r)"
    using assms(1) by (simp_all add: router_inv_def fds_inv_def)
  have "mset (held r) = mset (fd # table_fds eps @ pipe_fds r)" using m by (simp add: held_def)
  then have "distinct (fd # table_fds eps @ pipe_fds r)" using old(2) by (metis distinct_count_atmost_1 mset_eq_setD)
  then show ?thesis
    using assms(1) m old f by (simp add: router_inv_def framers_inv_def fds_inv_def held_def pipe_fds_def)
qed

lemma close_clients_inv:
  "router_inv r \<Longrightarrow> router_inv (fst (close_clients r fds)) \<and> list_all whole_uplink (snd (close_clients r fds))"
proof (induction fds arbitrary: r)
  case Nil
  then show ?case by simp
next
  case (Cons fd fds)
  obtain eps found where c: "close_client (rt_endpoints r) fd = (eps, found)" by force
  let ?r = "if found then r\<lparr>rt_endpoints := eps, rt_open := remove1 fd (rt_open r)\<rparr> else r"
  have "router_inv ?r" using close_one_inv [OF Cons.prems] c Cons.prems by auto
  from Cons.IH [OF this] c show ?case by (auto simp: Let_def split: prod.splits)
qed

subsection \<open>One iteration, and the end\<close>

lemma accepted_fds_append: "accepted_fds (xs @ ys) = accepted_fds xs @ accepted_fds ys"
  by (simp add: accepted_fds_def)

lemma poll_iteration_inv:
  assumes "router_inv r" and "fresh_sockets net r"
    and "\<And>events. result = Poll_events events \<Longrightarrow>
      distinct (accepted_fds events) \<and> set (accepted_fds events) \<inter> set (rt_open (fst (RebuildEndpoints net r))) = {}"
  shows "\<exists>r' acts more. poll_iteration net r result = Some (r', acts, more) \<and> router_inv r' \<and> list_all whole_uplink acts"
proof -
  obtain r1 shut where reb: "RebuildEndpoints net r = (r1, shut)" by force
  have r1: "router_inv r1" "list_all whole_uplink shut"
    using Rebuild_inv [OF assms(1,2) reb] by (auto simp: list_all_iff)
  show ?thesis
  proof (cases "\<exists>events. result = Poll_events events \<and> rt_running r1")
    case False
    with reb r1 show ?thesis by (cases result) (auto simp: poll_iteration_def Let_def)
  next
    case True
    then obtain events where ev: "result = Poll_events events" "rt_running r1" by blast
    let ?items = "zip (build_slots (rt_endpoints r1)) events"
    have "map snd ?items = take (length (build_slots (rt_endpoints r1))) events" by (simp add: map_snd_zip_take min_def)
    moreover have "events = take (length (build_slots (rt_endpoints r1))) events @ drop (length (build_slots (rt_endpoints r1))) events" by simp
    then have "accepted_fds events = accepted_fds (take (length (build_slots (rt_endpoints r1))) events)
        @ accepted_fds (drop (length (build_slots (rt_endpoints r1))) events)"
      using accepted_fds_append by metis
    ultimately have "distinct (accepted_fds (map snd ?items))" "set (accepted_fds (map snd ?items)) \<inter> set (rt_open r1) = {}"
      using assms(3) [OF ev(1)] reb by auto
    then obtain r2 fds acts where "handle_slots r1 ?items = Some (r2, fds, acts)" "router_inv r2" "list_all whole_uplink acts"
      using handle_slots_inv [OF r1(1)] by blast
    with ev reb r1 close_clients_inv [of r2 fds] show ?thesis
      by (auto simp: poll_iteration_def Let_def split: prod.splits)
  qed
qed

lemma Stop_releases:
  assumes "router_inv r" and "rt_running r"
  shows "\<exists>r' fds. router_Stop r = (r', map CloseFd fds) \<and> mset fds = mset (rt_open r) \<and> distinct fds
    \<and> rt_open r' = [] \<and> rt_endpoints r' = [] \<and> \<not> rt_running r'"
proof -
  have old: "mset (rt_open r) = mset (table_fds (rt_endpoints r) @ pipe_fds r)" "distinct (table_fds (rt_endpoints r) @ pipe_fds r)"
    using assms(1) by (simp_all add: router_inv_def fds_inv_def held_def)
  let ?rest = "filter (\<lambda>fd. fd \<notin> set (pipe_fds r)) (rt_open r)"
  have "mset ?rest = mset (table_fds (rt_endpoints r))" using old by (rule mset_filter_out)
  then have "set ?rest = set (table_fds (rt_endpoints r))" by (metis set_mset_mset)
  then have "filter (\<lambda>fd. fd \<notin> set (table_fds (rt_endpoints r))) ?rest = []"
    by (auto simp: filter_empty_conv)
  then show ?thesis
    using assms(2) old
    by (intro exI [of _ "fst (router_Stop r)"] exI [of _ "pipe_fds r @ table_fds (rt_endpoints r)"])
       (auto simp: router_Stop_def CloseEndpoints_def clear_endpoints_def pipe_fds_def Let_def)
qed

subsection \<open>Downlink and uplink\<close>

lemma consume_all_safe:
  "list_all message_wf ms \<Longrightarrow> armed_inv st \<Longrightarrow> \<exists>st'. consume_all st now ms = Some st' \<and> armed_inv st'"
proof (induction ms arbitrary: st)
  case (Cons m ms)
  then obtain st1 where "telemetry_Consume st now m = Some st1" "armed_inv st1"
    using telemetry_Consume_safe [of m st now] telemetry_Consume_armed_inv by (auto simp: message_wf_def)
  with Cons show ?case by auto
qed simp

text \<open>The operations of one endpoint on a sequence of received chunks.\<close>

definition endpoint_step :: "router \<times> endpoint \<Rightarrow> bytes \<Rightarrow> ((router \<times> endpoint) \<times> router_action list) option" where
  "endpoint_step re data = map_option (\<lambda>(r, ep, acts). ((r, ep), acts)) (HandleEndpointData (fst re) (snd re) data)"

lemma endpoint_run_framer:
  assumes "me_allow_uplink (ep_config ep)" and "rt_uplink r" and "fr_callback (ep_framer ep)"
    and "run_steps framer_Push (ep_framer ep) chunks = Some (fr, ms)"
  shows "run_steps endpoint_step (r, ep) chunks =
    Some ((r\<lparr>rt_uplink_bytes := rt_uplink_bytes r + sum_list (map (\<lambda>m. of_nat (mm_size m)) ms)\<rparr>, ep\<lparr>ep_framer := fr\<rparr>),
          map (\<lambda>m. Uplink (mm_data m)) ms)"
  using assms
proof (induction chunks arbitrary: r ep ms)
  case Nil
  then show ?case by simp
next
  case (Cons c cs)
  from Cons.prems(4) obtain f1 m1 m2 where p: "framer_Push (ep_framer ep) c = Some (f1, m1)"
      "run_steps framer_Push f1 cs = Some (fr, m2)" "ms = m1 @ m2"
    by (auto split: Option.bind_splits)
  let ?r = "r\<lparr>rt_uplink_bytes := rt_uplink_bytes r + sum_list (map (\<lambda>m. of_nat (mm_size m)) m1)\<rparr>"
  have "framer_set_callback (ep_framer ep) = ep_framer ep" using Cons.prems(3) by (simp add: framer_set_callback_def)
  with p(1) Cons.prems(1,2) have "endpoint_step (r, ep) c = Some ((?r, ep\<lparr>ep_framer := f1\<rparr>), map (\<lambda>m. Uplink (mm_data m)) m1)"
    by (simp add: endpoint_step_def HandleEndpointData_def)
  moreover have "fr_callback f1" using framer_Push_callback [OF p(1)] Cons.prems(3) by simp
  ultimately show ?case
    using Cons.IH [of "ep\<lparr>ep_framer := f1\<rparr>" ?r m2] Cons.prems(1,2) p(2,3) by (simp add: add.assoc)
qed

subsection \<open>Reachable states\<close>

text \<open>
  The states of a router under any interleaving of the calls of its owner with the iterations of its poll thread.
  The premises on new descriptors are what \<open>pipe\<close>, \<open>socket\<close> and \<open>accept\<close> guarantee.
\<close>

definition fresh_pipe :: "router \<Rightarrow> (int \<times> int) option \<Rightarrow> bool" where
  "fresh_pipe r pipe \<longleftrightarrow>
     (case pipe of None \<Rightarrow> True | Some (a, b) \<Rightarrow> 0 \<le> a \<and> 0 \<le> b \<and> a \<noteq> b \<and> a \<notin> set (rt_open r) \<and> b \<notin> set (rt_open r))"

definition fresh_accepts :: "network \<Rightarrow> router \<Rightarrow> poll_result \<Rightarrow> bool" where
  "fresh_accepts net r result \<longleftrightarrow>
     (case result of
        Poll_events events \<Rightarrow> distinct (accepted_fds events)
          \<and> set (accepted_fds events) \<inter> set (rt_open (fst (RebuildEndpoints net r))) = {}
      | _ \<Rightarrow> True)"

inductive router_reach :: "router \<Rightarrow> bool" where
  reach_init: "router_reach router_init"
| reach_callback: "router_reach r \<Longrightarrow> router_reach (set_uplink_callback r)"
| reach_SetEndpoints: "router_reach r \<Longrightarrow> router_reach (router_SetEndpoints r endpoints)"
| reach_Start: "router_reach r \<Longrightarrow> fresh_pipe r pipe \<Longrightarrow> router_reach (fst (router_Start r pipe))"
| reach_FeedDownlink: "router_reach r \<Longrightarrow> FeedDownlink r now data = Some (r', acts) \<Longrightarrow> router_reach r'"
| reach_poll: "router_reach r \<Longrightarrow> rt_running r \<Longrightarrow> fresh_sockets net r \<Longrightarrow> fresh_accepts net r result \<Longrightarrow>
    poll_iteration net r result = Some (r', acts, continues) \<Longrightarrow> router_reach r'"
| reach_Stop: "router_reach r \<Longrightarrow> router_reach (fst (router_Stop r))"

text \<open>A router whose thread does not run has no endpoint and no wake pipe.\<close>

definition idle_inv :: "router \<Rightarrow> bool" where
  "idle_inv r \<longleftrightarrow> \<not> rt_running r \<longrightarrow> rt_endpoints r = [] \<and> pipe_fds r = []"

definition reach_inv :: "router \<Rightarrow> bool" where
  "reach_inv r \<longleftrightarrow> router_inv r \<and> idle_inv r \<and> armed_inv (rt_telemetry r)"

lemma FeedDownlink_ok:
  assumes "router_inv r" and "armed_inv (rt_telemetry r)"
  shows "\<exists>r' acts. FeedDownlink r now data = Some (r', acts) \<and> router_inv r' \<and> armed_inv (rt_telemetry r')
    \<and> rt_endpoints r' = rt_endpoints r \<and> rt_running r' = rt_running r \<and> rt_wake_pipe r' = rt_wake_pipe r
    \<and> acts = (if data = [] then [] else concat (map (endpoint_sends data) (rt_endpoints r)))"
proof -
  obtain fr ms where push: "framer_Push (rt_downlink_framer r) data = Some (fr, ms)" "framer_inv fr"
    using mavlink.step_safe [of "rt_downlink_framer r" data] assms(1) by (auto simp: router_inv_def framers_inv_def)
  then have "list_all message_wf ms" using framer_Push_message_wf by blast
  then obtain t where "consume_all (rt_telemetry r) now ms = Some t" "armed_inv t"
    using consume_all_safe assms(2) by blast
  with push assms show ?thesis
    by (auto simp: FeedDownlink_def router_inv_def framers_inv_def fds_inv_def held_def pipe_fds_def)
qed

lemma Start_inv:
  assumes "reach_inv r" and "fresh_pipe r pipe"
  shows "reach_inv (fst (router_Start r pipe))"
proof (cases "rt_running r \<or> pipe = None")
  case True
  with assms(1) show ?thesis
    by (auto simp: router_Start_def reach_inv_def idle_inv_def router_inv_def framers_inv_def fds_inv_def
        held_def pipe_fds_def split: option.splits)
next
  case False
  then obtain a b where ab: "pipe = Some (a, b)" "\<not> rt_running r" by auto
  then have none: "rt_endpoints r = []" "pipe_fds r = []" using assms(1) by (simp_all add: reach_inv_def idle_inv_def)
  then have "rt_open r = []" using assms(1) by (simp add: reach_inv_def router_inv_def fds_inv_def held_def table_fds_def)
  with ab none assms show ?thesis
    by (simp add: fresh_pipe_def router_Start_def reach_inv_def idle_inv_def router_inv_def framers_inv_def
        fds_inv_def held_def pipe_fds_def table_fds_def)
qed

lemma Stop_frame:
  "framers_inv r \<Longrightarrow> rt_running r \<Longrightarrow> framers_inv (fst (router_Stop r)) \<and> pipe_fds (fst (router_Stop r)) = []
     \<and> rt_telemetry (fst (router_Stop r)) = rt_telemetry r"
  by (auto simp: router_Stop_def CloseEndpoints_def clear_endpoints_def framers_inv_def pipe_fds_def Let_def
      filter_empty_conv)

lemma Stop_inv:
  assumes "reach_inv r"
  shows "reach_inv (fst (router_Stop r))"
proof (cases "rt_running r")
  case False
  with assms show ?thesis by (simp add: router_Stop_def)
next
  case True
  then obtain r' fds where "router_Stop r = (r', map CloseFd fds)" "rt_open r' = []" "rt_endpoints r' = []"
    using Stop_releases [of r] assms by (auto simp: reach_inv_def)
  with Stop_frame [of r] True assms show ?thesis
    by (simp add: reach_inv_def router_inv_def idle_inv_def fds_inv_def held_def table_fds_def)
qed

text \<open>The poll thread leaves the telemetry and the running flag alone.\<close>

lemma HandleEndpointData_frame:
  "HandleEndpointData r ep data = Some (r', ep', acts) \<Longrightarrow> rt_telemetry r' = rt_telemetry r \<and> rt_running r' = rt_running r"
  by (auto simp: HandleEndpointData_def split: if_splits Option.bind_splits)

lemma handle_slot_data:
  assumes "do { (r1, ep1, acts) \<leftarrow> HandleEndpointData r ep data; Some (r1\<lparr>rt_endpoints := (rt_endpoints r1)[i := ep1]\<rparr>, [], acts) }
    = Some (r', fds, acts')"
  shows "rt_telemetry r' = rt_telemetry r \<and> rt_running r' = rt_running r"
proof -
  from assms obtain r1 ep1 where "HandleEndpointData r ep data = Some (r1, ep1, acts')"
      "r' = r1\<lparr>rt_endpoints := (rt_endpoints r1)[i := ep1]\<rparr>"
    by (auto simp: bind_eq_Some_conv)
  then show ?thesis using HandleEndpointData_frame [of r ep data r1 ep1 acts'] by simp
qed

lemma handle_slot_frame:
  assumes "handle_slot r sl ev = Some (r', fds, acts)"
  shows "rt_telemetry r' = rt_telemetry r \<and> rt_running r' = rt_running r"
proof (cases "\<exists>ep data. do { (r1, ep1, acts) \<leftarrow> HandleEndpointData r ep data;
    Some (r1\<lparr>rt_endpoints := (rt_endpoints r1)[sl_endpoint sl := ep1]\<rparr>, [], acts) } = Some (r', fds, acts)")
  case True
  then show ?thesis using handle_slot_data by blast
next
  case False
  have "\<exists>eps fds. r' = r\<lparr>rt_endpoints := eps, rt_open := fds\<rparr>"
  proof (rule ccontr)
    assume no: "\<not> ?thesis"
    have "r' \<noteq> r" proof
      assume "r' = r"
      then have "r' = r\<lparr>rt_endpoints := rt_endpoints r, rt_open := rt_open r\<rparr>" by simp
      with no show False by blast
    qed
    with no False assms show False
      unfolding handle_slot_def Let_def
      by (simp split: if_split_asm option.split_asm list.split_asm) (elim conjE, hypsubst, blast)
  qed
  then show ?thesis by auto
qed

lemma handle_slots_frame:
  "handle_slots r items = Some (r', fds, acts) \<Longrightarrow> rt_telemetry r' = rt_telemetry r \<and> rt_running r' = rt_running r"
proof (induction items arbitrary: r fds acts)
  case (Cons item items)
  obtain sl ev where item: "item = (sl, ev)" by force
  from Cons.prems obtain r1 c1 a1 c2 a2 where h: "handle_slot r sl ev = Some (r1, c1, a1)"
      "handle_slots r1 items = Some (r', c2, a2)"
    by (simp add: item bind_eq_Some_conv split_def) (metis prod.collapse)
  show ?case using handle_slot_frame [OF h(1)] Cons.IH [OF h(2)] by simp
qed simp

lemma close_clients_frame:
  "rt_telemetry (fst (close_clients r fds)) = rt_telemetry r \<and> rt_running (fst (close_clients r fds)) = rt_running r"
proof (induction fds arbitrary: r)
  case (Cons fd fds)
  obtain eps found where c: "close_client (rt_endpoints r) fd = (eps, found)" by force
  show ?case
    using Cons.IH [of "if found then r\<lparr>rt_endpoints := eps, rt_open := remove1 fd (rt_open r)\<rparr> else r"]
    by (cases found) (simp_all add: c Let_def split_def)
qed simp

lemma Rebuild_frame:
  "rt_telemetry (fst (RebuildEndpoints net r)) = rt_telemetry r \<and> rt_running (fst (RebuildEndpoints net r)) = rt_running r"
proof (cases "rt_dirty r")
  case True
  from Rebuild_kept [OF True, of net] show ?thesis by auto
qed (simp add: RebuildEndpoints_def)

lemma poll_iteration_frame:
  assumes "poll_iteration net r result = Some (r', acts, continues)"
  shows "rt_telemetry r' = rt_telemetry r \<and> rt_running r' = rt_running r"
proof -
  obtain r1 shut where reb: "RebuildEndpoints net r = (r1, shut)" by force
  note f1 = Rebuild_frame [of net r, unfolded reb fst_conv]
  show ?thesis
  proof (cases "\<exists>events. result = Poll_events events \<and> rt_running r1")
    case False
    with assms reb f1 show ?thesis by (cases result) (auto simp: poll_iteration_def Let_def split: if_splits)
  next
    case True
    then obtain events where "result = Poll_events events" "rt_running r1" by blast
    with assms reb obtain r2 fds acts2 where
      "handle_slots r1 (zip (build_slots (rt_endpoints r1)) events) = Some (r2, fds, acts2)" "r' = fst (close_clients r2 fds)"
      by (auto simp: poll_iteration_def Let_def split: Option.bind_splits prod.splits)
    then show ?thesis using handle_slots_frame close_clients_frame f1 by metis
  qed
qed

lemma poll_step_ok:
  assumes "router_inv r" and "fresh_sockets net r" and "fresh_accepts net r result"
  shows "\<exists>r' acts continues. poll_iteration net r result = Some (r', acts, continues) \<and> router_inv r'
    \<and> list_all whole_uplink acts"
proof (rule poll_iteration_inv [OF assms(1,2)])
  fix events
  assume "result = Poll_events events"
  then show "distinct (accepted_fds events) \<and> set (accepted_fds events) \<inter> set (rt_open (fst (RebuildEndpoints net r))) = {}"
    using assms(3) by (simp add: fresh_accepts_def)
qed

theorem reachable_inv: "router_reach r \<Longrightarrow> reach_inv r"
proof (induction rule: router_reach.induct)
  case reach_init
  then show ?case using router_inv_init by (simp add: reach_inv_def idle_inv_def router_init_def pipe_fds_def)
next
  case (reach_callback r)
  then show ?case
    by (simp add: set_uplink_callback_def reach_inv_def idle_inv_def router_inv_def framers_inv_def fds_inv_def held_def pipe_fds_def)
next
  case (reach_SetEndpoints r endpoints)
  then show ?case
    by (simp add: router_SetEndpoints_def reach_inv_def idle_inv_def router_inv_def framers_inv_def fds_inv_def held_def pipe_fds_def)
next
  case (reach_Start r pipe)
  then show ?case by (blast intro: Start_inv)
next
  case (reach_FeedDownlink r now data r' acts)
  then show ?case
    using FeedDownlink_ok [of r now data] by (auto simp: reach_inv_def idle_inv_def pipe_fds_def)
next
  case (reach_poll r net result r' acts continues)
  then show ?case
    using poll_step_ok [of r net result] poll_iteration_frame [of net r result r' acts continues]
    by (auto simp: reach_inv_def idle_inv_def)
next
  case (reach_Stop r)
  then show ?case by (blast intro: Stop_inv)
qed

subsection \<open>The endpoint table of a reachable router\<close>

text \<open>
  Two facts of every reachable router that the descriptor invariant does not say: no endpoint of the table is without a
  socket, and the downlink framer has its callback. The poll thread changes neither.
\<close>

definition table_inv :: "router \<Rightarrow> bool" where
  "table_inv r \<longleftrightarrow> list_all (\<lambda>fd. 0 \<le> fd) (map ep_fd (rt_endpoints r)) \<and> fr_callback (rt_downlink_framer r)"

definition same_table :: "router \<Rightarrow> router \<Rightarrow> bool" where
  "same_table r r' \<longleftrightarrow>
     map ep_fd (rt_endpoints r') = map ep_fd (rt_endpoints r) \<and> rt_downlink_framer r' = rt_downlink_framer r"

lemma same_table_refl [simp]: "same_table r r"
  by (simp add: same_table_def)

lemma same_table_inv: "same_table r r' \<Longrightarrow> table_inv r \<Longrightarrow> table_inv r'"
  by (simp add: same_table_def table_inv_def)

lemma map_fd_update:
  "i < length eps \<Longrightarrow> ep_fd ep = ep_fd (eps ! i) \<Longrightarrow> map ep_fd (eps[i := ep]) = map ep_fd eps"
  by (metis list_update_id map_update nth_map)

lemma HandleEndpointData_fd:
  "HandleEndpointData r ep data = Some (r', ep', acts) \<Longrightarrow>
     ep_fd ep' = ep_fd ep \<and> rt_endpoints r' = rt_endpoints r \<and> rt_downlink_framer r' = rt_downlink_framer r"
  by (auto simp: HandleEndpointData_def split: if_splits Option.bind_splits)

lemma data_same_table:
  assumes "do { (r1, ep1, acts) \<leftarrow> HandleEndpointData r ep data; Some (r1\<lparr>rt_endpoints := (rt_endpoints r1)[i := ep1]\<rparr>, [], acts) }
    = Some (r', fds, acts')"
    and "i < length (rt_endpoints r)" and "ep_fd ep = ep_fd (rt_endpoints r ! i)"
  shows "same_table r r'"
proof -
  from assms(1) obtain r1 ep1 where h: "HandleEndpointData r ep data = Some (r1, ep1, acts')"
      "r' = r1\<lparr>rt_endpoints := (rt_endpoints r1)[i := ep1]\<rparr>"
    by (auto simp: bind_eq_Some_conv)
  with HandleEndpointData_fd [OF h(1)] assms(2,3) show ?thesis by (simp add: same_table_def map_fd_update)
qed

lemma handle_slot_same_table:
  assumes "handle_slot r sl ev = Some (r', fds, acts)"
  shows "same_table r r'"
proof (cases "sl_endpoint sl < length (rt_endpoints r) \<and> r' \<noteq> r")
  case False
  with assms show ?thesis by (auto simp: handle_slot_def split: if_splits)
next
  case True
  let ?i = "sl_endpoint sl" and ?ep = "rt_endpoints r ! sl_endpoint sl"
  let ?upd = "if me_kind (ep_config ?ep) = kUdpServer then ?ep\<lparr>ep_peer := se_from ev, ep_have_peer := True\<rparr> else ?ep"
  consider (data) b bs ep where "se_received ev = Some (b # bs)" "ep = ?ep \<or> ep = ?upd"
      "do { (r1, ep1, acts) \<leftarrow> HandleEndpointData r ep (b # bs); Some (r1\<lparr>rt_endpoints := (rt_endpoints r1)[?i := ep1]\<rparr>, [], acts) }
        = Some (r', fds, acts)"
    | (accept) "r' = r\<lparr>rt_endpoints := (rt_endpoints r)[?i := ?ep\<lparr>ep_clients := ep_clients ?ep @ [se_accepted ev]\<rparr>],
        rt_open := rt_open r @ [se_accepted ev]\<rparr>"
    using assms True unfolding handle_slot_def Let_def
    by (simp only: split: if_split_asm option.split_asm list.split_asm) auto
  then show ?thesis
  proof cases
    case data
    from data(3) show ?thesis by (rule data_same_table) (use data(2) True in auto)
  next
    case accept
    with True show ?thesis by (simp add: same_table_def map_fd_update)
  qed
qed

lemma handle_slots_same_table: "handle_slots r items = Some (r', fds, acts) \<Longrightarrow> same_table r r'"
proof (induction items arbitrary: r fds acts)
  case (Cons item items)
  obtain sl ev where item: "item = (sl, ev)" by force
  from Cons.prems obtain r1 c1 a1 c2 a2 where h: "handle_slot r sl ev = Some (r1, c1, a1)"
      "handle_slots r1 items = Some (r', c2, a2)"
    by (simp add: item bind_eq_Some_conv split_def) (metis prod.collapse)
  show ?case using handle_slot_same_table [OF h(1)] Cons.IH [OF h(2)] by (simp add: same_table_def)
qed simp

lemma close_client_fds: "map ep_fd (fst (close_client eps fd)) = map ep_fd eps"
  by (induction eps) (simp_all add: split_def)

lemma close_clients_same_table: "same_table r (fst (close_clients r fds))"
proof (induction fds arbitrary: r)
  case (Cons fd fds)
  obtain eps found where c: "close_client (rt_endpoints r) fd = (eps, found)" by force
  let ?r = "if found then r\<lparr>rt_endpoints := eps, rt_open := remove1 fd (rt_open r)\<rparr> else r"
  have "same_table r ?r" using close_client_fds [of "rt_endpoints r" fd] by (simp add: c same_table_def)
  with Cons.IH [of ?r] show ?case by (cases found) (simp_all add: c Let_def split_def same_table_def)
qed simp

lemma Rebuild_table:
  assumes "table_inv r"
  shows "table_inv (fst (RebuildEndpoints net r))"
proof (cases "rt_dirty r")
  case True
  from Rebuild_kept [OF True, of net] kept_endpoints_fields [of net 0 "rt_configured r"] assms show ?thesis
    by (auto simp: table_inv_def list_all_iff)
qed (use assms in \<open>simp add: RebuildEndpoints_def\<close>)

lemma poll_iteration_table:
  assumes "table_inv r" and "poll_iteration net r result = Some (r', acts, continues)"
  shows "table_inv r'"
proof -
  obtain r1 shut where reb: "RebuildEndpoints net r = (r1, shut)" by force
  have r1: "table_inv r1" using Rebuild_table [OF assms(1), of net] reb by simp
  show ?thesis
  proof (cases "\<exists>events. result = Poll_events events \<and> rt_running r1")
    case False
    with assms(2) reb r1 show ?thesis by (cases result) (auto simp: poll_iteration_def Let_def split: if_splits)
  next
    case True
    then obtain events where "result = Poll_events events" "rt_running r1" by blast
    with assms(2) reb obtain r2 fds acts2 where
      "handle_slots r1 (zip (build_slots (rt_endpoints r1)) events) = Some (r2, fds, acts2)" "r' = fst (close_clients r2 fds)"
      by (auto simp: poll_iteration_def Let_def split: Option.bind_splits prod.splits)
    then show ?thesis using handle_slots_same_table close_clients_same_table same_table_inv r1 by metis
  qed
qed

lemma reachable_table: "router_reach r \<Longrightarrow> table_inv r"
proof (induction rule: router_reach.induct)
  case (reach_FeedDownlink r now data r' acts)
  then show ?case
    using framer_Push_callback [of "rt_downlink_framer r" data]
    by (auto simp: FeedDownlink_def table_inv_def split: if_splits Option.bind_splits)
next
  case (reach_poll r net result r' acts continues)
  then show ?case by (blast intro: poll_iteration_table)
next
  case (reach_Start r pipe)
  then show ?case by (auto simp: table_inv_def router_Start_def split: option.splits)
qed (auto simp: table_inv_def router_init_def framer_set_callback_def set_uplink_callback_def router_SetEndpoints_def
      router_Stop_def CloseEndpoints_def clear_endpoints_def Let_def)

subsection \<open>Properties\<close>

text \<open>
  C11: in every state the router can reach, under any interleaving of its owner's calls with its poll thread, the
  descriptors open are exactly those of the endpoint table and the wake pipe, none of them twice; feeding downlink
  bytes and one poll iteration return (no framer or telemetry read leaves its buffer); whatever goes up is no larger
  than a MAVLink frame; and a router that does not run holds no descriptor at all.
\<close>

theorem router_reachable_safe:
  assumes "router_reach r"
  shows "mset (rt_open r) = mset (table_fds (rt_endpoints r) @ pipe_fds r) \<and> distinct (rt_open r)
    \<and> (\<not> rt_running r \<longrightarrow> rt_open r = [])
    \<and> (\<exists>r' acts. FeedDownlink r now data = Some (r', acts))
    \<and> (fresh_sockets net r \<longrightarrow> fresh_accepts net r result \<longrightarrow>
        (\<exists>r' acts continues. poll_iteration net r result = Some (r', acts, continues) \<and> list_all whole_uplink acts))"
proof -
  from reachable_inv [OF assms] have inv: "router_inv r" "idle_inv r" "armed_inv (rt_telemetry r)"
    by (simp_all add: reach_inv_def)
  then have m: "mset (rt_open r) = mset (held r)" "distinct (held r)" by (simp_all add: router_inv_def fds_inv_def)
  then have "distinct (rt_open r)" by (metis distinct_count_atmost_1 mset_eq_setD)
  moreover have "\<not> rt_running r \<longrightarrow> rt_open r = []" using m inv(2) by (auto simp: idle_inv_def held_def table_fds_def)
  ultimately show ?thesis
    using m FeedDownlink_ok [OF inv(1,3), of now data] poll_step_ok [OF inv(1), of net result] by (auto simp: held_def)
qed

definition quiet_network :: network where
  "quiet_network = \<lparr>nt_pton = (\<lambda>_. None), nt_socket = (\<lambda>i. 10 + int i), nt_bind = (\<lambda>_ _. True), nt_listen = (\<lambda>_. True)\<rparr>"

lemma example_reach: "router_reach (fst (router_Start (router_SetEndpoints router_init [mavlink_endpoint_default]) (Some (3, 4))))"
  by (intro router_reach.intros) (simp add: fresh_pipe_def router_init_def router_SetEndpoints_def)

theorem router_reachable_safe_witness:
  "\<exists>r' acts continues. poll_iteration quiet_network
     (fst (router_Start (router_SetEndpoints router_init [mavlink_endpoint_default]) (Some (3, 4)))) Poll_timeout
       = Some (r', acts, continues) \<and> list_all whole_uplink acts"
  using router_reachable_safe [OF example_reach, of 0 "[]" quiet_network Poll_timeout]
  by (auto simp: fresh_accepts_def fresh_sockets_def quiet_network_def router_Start_def router_SetEndpoints_def
      router_init_def pipe_fds_def kept_endpoint_def configure_endpoint_def new_endpoint_def mavlink_endpoint_default_def Let_def
      split: option.splits endpoint_kind.splits)

text \<open>
  From an endpoint allowed to send up, the uplink receives exactly the complete MAVLink frames the endpoint's bytes
  contain, in order and unchanged, however the network cut the bytes and whatever noise was between the frames. An
  endpoint that is not allowed sends nothing up, and its bytes are not even framed.
\<close>

lemma endpoint_uplink_frames:
  assumes "rt_uplink r" and "ep_framer ep = framer_init"
    and "\<forall>(g, f) \<in> set items. noise g \<and> whole_frame f"
    and "chunks \<noteq> []" and "concat chunks = concat (map (\<lambda>(g, f). g @ f) items)"
  shows "map_option snd (run_steps endpoint_step (r, ep) chunks) =
    Some (if me_allow_uplink (ep_config ep) then map (\<lambda>(g, f). Uplink f) items else [])"
proof (cases "me_allow_uplink (ep_config ep)")
  case False
  then have "endpoint_step (r, ep) data = Some ((r, ep), [])" for data
    by (simp add: endpoint_step_def HandleEndpointData_def)
  then have "run_steps endpoint_step (r, ep) chunks = Some ((r, ep), [])" by (induction chunks) simp_all
  with False show ?thesis by simp
next
  case True
  let ?ep = "ep\<lparr>ep_framer := framer_set_callback framer_init\<rparr>"
  obtain fr where "run_steps framer_Push (ep_framer ?ep) chunks = Some (fr, map (\<lambda>(g, f). head_message f) items)"
    using run_frames [of "ep_framer ?ep" items chunks] assms(3,5)
    by (auto simp: framer_set_callback_def framer_init_def)
  then have e1: "map_option snd (run_steps endpoint_step (r, ?ep) chunks) =
      Some (map (\<lambda>m. Uplink (mm_data m)) (map (\<lambda>(g, f). head_message f) items))"
    using endpoint_run_framer [of ?ep r chunks fr] True assms(1) by (simp add: framer_set_callback_def)
  have "endpoint_step (r, ?ep) data = endpoint_step (r, ep) data" for data
    using True assms(1,2) by (simp add: endpoint_step_def HandleEndpointData_def framer_set_callback_def)
  then have e2: "run_steps endpoint_step (r, ?ep) chunks = run_steps endpoint_step (r, ep) chunks"
    using assms(4) by (cases chunks) simp_all
  have e3: "map (\<lambda>m. Uplink (mm_data m)) (map (\<lambda>(g, f). head_message f) items) = map (\<lambda>(g, f). Uplink f) items"
    using assms(3) head_message_data by fastforce
  show ?thesis by (simp only: e1 e3 e2 [symmetric] True if_True)
qed

subsection \<open>Rounds in which one client sends\<close>

definition received :: "bytes \<Rightarrow> slot_event" where
  "received data =
     \<lparr>se_pollin = True, se_hangup = False, se_other = False, se_received = Some data, se_from = (0, 0), se_accepted = - 1\<rparr>"

definition silent :: slot_event where
  "silent =
     \<lparr>se_pollin = False, se_hangup = False, se_other = False, se_received = None, se_from = (0, 0), se_accepted = - 1\<rparr>"

definition client_slot :: "nat \<Rightarrow> int \<Rightarrow> slot" where
  "client_slot i client = \<lparr>sl_endpoint = i, sl_fd = client, sl_is_client = True\<rparr>"

text \<open>A wait after which one client of the router's table has sent some bytes and nothing else has happened.\<close>

definition client_sends :: "router \<Rightarrow> nat \<Rightarrow> int \<Rightarrow> bytes \<Rightarrow> poll_result" where
  "client_sends r i client data =
     Poll_events (map (\<lambda>sl. if sl = client_slot i client then received data else silent) (build_slots (rt_endpoints r)))"

lemma build_slots_Nil [simp]: "build_slots [] = []"
  by (simp add: build_slots_def)

lemma build_slots_snoc: "build_slots (eps @ [ep]) = build_slots eps @ endpoint_slots (length eps) ep"
proof -
  have "concat (map (\<lambda>i. endpoint_slots i ((eps @ [ep]) ! i)) [0..<length eps]) = build_slots eps"
    unfolding build_slots_def by (rule arg_cong [of _ _ concat], rule map_cong) (auto simp: nth_append)
  then show ?thesis unfolding build_slots_def [of "eps @ [ep]"] by simp
qed

lemma build_slots_fds: "set (map sl_fd (build_slots eps)) \<subseteq> set (table_fds eps)"
  by (induction eps rule: rev_induct) (auto simp: build_slots_snoc endpoint_slots_def table_fds_def endpoint_fds_def)

lemma build_slots_distinct: "distinct (table_fds eps) \<Longrightarrow> distinct (map sl_fd (build_slots eps))"
proof (induction eps rule: rev_induct)
  case (snoc ep eps)
  have "set (map sl_fd (endpoint_slots (length eps) ep)) \<subseteq> set (endpoint_fds ep)"
    by (auto simp: endpoint_slots_def endpoint_fds_def)
  moreover have "distinct (map sl_fd (endpoint_slots (length eps) ep))"
    using snoc.prems by (auto simp: endpoint_slots_def endpoint_fds_def table_fds_def o_def)
  moreover have "distinct (table_fds eps)" "set (table_fds eps) \<inter> set (endpoint_fds ep) = {}"
    using snoc.prems by (simp_all add: table_fds_def)
  ultimately show ?case
    using snoc.IH build_slots_fds [of eps] by (simp add: build_slots_snoc) blast
qed simp

lemma build_slots_client:
  assumes "i < length eps" and "0 \<le> ep_fd (eps ! i)" and "c \<in> set (ep_clients (eps ! i))"
  shows "client_slot i c \<in> set (build_slots eps)"
  using assms by (auto simp: build_slots_def endpoint_slots_def client_slot_def)

lemma handle_slots_append:
  "handle_slots r (xs @ ys) = do {
     (r1, c1, a1) \<leftarrow> handle_slots r xs;
     (r2, c2, a2) \<leftarrow> handle_slots r1 ys;
     Some (r2, c1 @ c2, a1 @ a2)
   }"
  by (induction xs arbitrary: r) (auto simp: split_def intro!: Option.bind_cong)

lemma handle_slots_silent: "\<forall>sl \<in> set slots. f sl = silent \<Longrightarrow> handle_slots r (zip slots (map f slots)) = Some (r, [], [])"
  by (induction slots) (simp_all add: handle_slot_def silent_def)

lemma handle_slots_one:
  assumes "distinct slots" and "sl \<in> set slots"
  shows "handle_slots r (zip slots (map (\<lambda>s. if s = sl then ev else silent) slots)) = handle_slots r [(sl, ev)]"
proof -
  let ?f = "\<lambda>s. if s = sl then ev else silent"
  from assms(2) obtain xs ys where slots: "slots = xs @ sl # ys" by (meson split_list)
  then have "\<forall>s \<in> set xs. ?f s = silent" "\<forall>s \<in> set ys. ?f s = silent" using assms(1) by auto
  note quiet = handle_slots_silent [OF this(1)] handle_slots_silent [OF this(2)]
  have "zip slots (map ?f slots) = zip xs (map ?f xs) @ (sl, ev) # zip ys (map ?f ys)" by (simp add: slots)
  then show ?thesis by (auto simp: handle_slots_append quiet split_def intro!: Option.bind_cong)
qed

lemma client_round:
  assumes "distinct (table_fds (rt_endpoints r))" and "0 \<le> ep_fd (rt_endpoints r ! i)"
    and "rt_running r" and "\<not> rt_dirty r" and "i < length (rt_endpoints r)"
    and "c \<in> set (ep_clients (rt_endpoints r ! i))" and "data \<noteq> []"
    and "HandleEndpointData r (rt_endpoints r ! i) data = Some (r1, ep1, acts)"
  shows "poll_iteration net r (client_sends r i c data) = Some (r1\<lparr>rt_endpoints := (rt_endpoints r1)[i := ep1]\<rparr>, acts, True)"
proof -
  let ?slots = "build_slots (rt_endpoints r)"
  have "distinct ?slots" using build_slots_distinct [OF assms(1)] by (simp add: distinct_map)
  moreover have "client_slot i c \<in> set ?slots" using build_slots_client assms(2,5,6) by blast
  ultimately have "handle_slots r (zip ?slots (map (\<lambda>sl. if sl = client_slot i c then received data else silent) ?slots)) =
      handle_slots r [(client_slot i c, received data)]" by (rule handle_slots_one)
  also have "\<dots> = Some (r1\<lparr>rt_endpoints := (rt_endpoints r1)[i := ep1]\<rparr>, [], acts)"
    using assms(5,7,8) by (cases data) (simp_all add: handle_slot_def client_slot_def received_def)
  finally show ?thesis
    using assms(3,4) by (simp add: poll_iteration_def RebuildEndpoints_def client_sends_def)
qed

lemma parse_partial_frame:
  assumes "whole_frame (a @ b)" and "a \<noteq> []" and "b \<noteq> []"
  shows "parse a = ([], 0, a)"
proof -
  have "magic_byte (a ! 0)" "length (a @ b) = wire_len (a @ b)" using assms(1,2) by (auto simp: whole_frame_def nth_append)
  moreover have "wire_len (a @ b) = wire_len a" if "\<not> length a < header_len a" using that by (simp add: wire_len_append)
  ultimately have "scan a = NeedMore" using assms(3)
    by (cases "length a < header_len a") (simp_all add: scan_def flip: length_greater_0_conv)
  with assms(2) show ?thesis by (simp add: parse.simps [of a])
qed

text \<open>A router with a TCP server on socket 10 and two clients, reached by a start and two rounds that accept.\<close>

definition accepted :: "int \<Rightarrow> slot_event" where
  "accepted client = silent\<lparr>se_pollin := True, se_accepted := client\<rparr>"

definition tcp_router :: router where
  "tcp_router = fst (router_Start (set_uplink_callback (router_SetEndpoints router_init
     [mavlink_endpoint_default\<lparr>me_kind := kTcpServer, me_host := ''0.0.0.0''\<rparr>])) (Some (3, 4)))"

definition tcp_clients :: router where
  "tcp_clients = tcp_router\<lparr>rt_dirty := False, rt_endpoints :=
     [(new_endpoint (mavlink_endpoint_default\<lparr>me_kind := kTcpServer, me_host := ''0.0.0.0''\<rparr>) 10)\<lparr>ep_clients := [11, 12]\<rparr>],
     rt_open := [3, 4, 10, 11, 12]\<rparr>"

definition tcp_one :: router where
  "tcp_one = tcp_clients\<lparr>rt_endpoints := map (\<lambda>ep. ep\<lparr>ep_clients := [11]\<rparr>) (rt_endpoints tcp_clients), rt_open := [3, 4, 10, 11]\<rparr>"

lemma tcp_reach: "router_reach tcp_clients"
proof (rule reach_poll)
  show "router_reach tcp_one"
  proof (rule reach_poll)
    show "router_reach tcp_router"
      unfolding tcp_router_def
      by (intro router_reach.intros) (simp add: fresh_pipe_def router_init_def router_SetEndpoints_def set_uplink_callback_def)
    show "rt_running tcp_router" by code_simp
    show "fresh_sockets quiet_network tcp_router" by code_simp
    show "fresh_accepts quiet_network tcp_router (Poll_events [accepted 11])" by code_simp
    show "poll_iteration quiet_network tcp_router (Poll_events [accepted 11]) = Some (tcp_one, [], True)" by code_simp
  qed
  show "rt_running tcp_one" by code_simp
  show "fresh_sockets quiet_network tcp_one" by code_simp
  show "fresh_accepts quiet_network tcp_one (Poll_events [accepted 12, silent])" by code_simp
  show "poll_iteration quiet_network tcp_one (Poll_events [accepted 12, silent]) = Some (tcp_clients, [], True)" by code_simp
qed

subsection \<open>What a recipient of the downlink is sent\<close>

text \<open>
  The bytes handed to a TCP client over a run, and the datagrams handed to a UDP socket with their destinations. That the
  kernel may take less than it is given is not visible to the router, which ignores the result of both calls.
\<close>

definition client_stream :: "int \<Rightarrow> router_action list \<Rightarrow> bytes" where
  "client_stream client acts = concat (map (\<lambda>a. case a of SendClient fd data \<Rightarrow> if fd = client then data else [] | _ \<Rightarrow> []) acts)"

definition datagrams :: "int \<Rightarrow> router_action list \<Rightarrow> (sockaddr \<times> bytes) list" where
  "datagrams fd acts = concat (map (\<lambda>a. case a of SendTo s peer data \<Rightarrow> if s = fd then [(peer, data)] else [] | _ \<Rightarrow> []) acts)"

definition downlink_recipient :: "endpoint list \<Rightarrow> router_action \<Rightarrow> bool" where
  "downlink_recipient eps a \<longleftrightarrow>
     (case a of
        SendClient fd data \<Rightarrow> \<exists>ep \<in> set eps. me_kind (ep_config ep) = kTcpServer \<and> fd \<in> set (ep_clients ep)
      | SendTo fd peer data \<Rightarrow>
          \<exists>ep \<in> set eps. me_kind (ep_config ep) \<noteq> kTcpServer \<and> ep_have_peer ep \<and> fd = ep_fd ep \<and> peer = ep_peer ep
      | _ \<Rightarrow> False)"

lemma sent_append [simp]:
  "client_stream c (xs @ ys) = client_stream c xs @ client_stream c ys"
  "datagrams fd (xs @ ys) = datagrams fd xs @ datagrams fd ys"
  by (simp_all add: client_stream_def datagrams_def)

lemma sent_Nil [simp]: "client_stream c [] = []" "datagrams fd [] = []"
  by (simp_all add: client_stream_def datagrams_def)

lemma client_stream_clients:
  "distinct cs \<Longrightarrow> client_stream c (map (\<lambda>client. SendClient client data) cs) = (if c \<in> set cs then data else [])"
  by (induction cs) (auto simp: client_stream_def)

lemma endpoint_client_stream:
  assumes "distinct (ep_clients ep)"
  shows "client_stream c (endpoint_sends data ep) =
    (if 0 \<le> ep_fd ep \<and> me_kind (ep_config ep) = kTcpServer \<and> c \<in> set (ep_clients ep) then data else [])"
  using client_stream_clients [OF assms] by (auto simp: endpoint_sends_def) (simp add: client_stream_def)

lemma datagrams_clients: "datagrams fd (map (\<lambda>client. SendClient client data) cs) = []"
  by (induction cs) (simp_all add: datagrams_def)

lemma endpoint_datagrams:
  "datagrams fd (endpoint_sends data ep) =
    (if 0 \<le> ep_fd ep \<and> me_kind (ep_config ep) \<noteq> kTcpServer \<and> ep_have_peer ep \<and> fd = ep_fd ep then [(ep_peer ep, data)] else [])"
  using datagrams_clients by (auto simp: endpoint_sends_def datagrams_def)

text \<open>One fan-out serves each client and each socket of a table without repeated descriptors once.\<close>

lemma fanout_unknown:
  "distinct (table_fds eps) \<Longrightarrow> fd \<notin> set (table_fds eps) \<Longrightarrow>
     client_stream fd (concat (map (endpoint_sends data) eps)) = [] \<and> datagrams fd (concat (map (endpoint_sends data) eps)) = []"
  by (induction eps) (auto simp: table_fds_def endpoint_fds_def endpoint_client_stream endpoint_datagrams)

lemma fanout_known:
  assumes "distinct (table_fds eps)" and "list_all (\<lambda>fd. 0 \<le> fd) (map ep_fd eps)" and "ep \<in> set eps"
  shows "me_kind (ep_config ep) = kTcpServer \<Longrightarrow> c \<in> set (ep_clients ep) \<Longrightarrow>
      client_stream c (concat (map (endpoint_sends data) eps)) = data"
    and "me_kind (ep_config ep) \<noteq> kTcpServer \<Longrightarrow>
      datagrams (ep_fd ep) (concat (map (endpoint_sends data) eps)) = (if ep_have_peer ep then [(ep_peer ep, data)] else [])"
proof -
  from assms(3) obtain xs ys where eps: "eps = xs @ ep # ys" by (meson split_list)
  have d: "distinct (table_fds xs)" "distinct (table_fds ys)" "distinct (ep_clients ep)"
    using assms(1) by (simp_all add: eps table_fds_def endpoint_fds_def)
  have fd: "0 \<le> ep_fd ep" using assms(2) by (simp add: eps)
  have out: "c \<notin> set (table_fds xs)" "c \<notin> set (table_fds ys)" if "c \<in> set (endpoint_fds ep)" for c
    using assms(1) that by (auto simp: eps table_fds_def)
  show "client_stream c (concat (map (endpoint_sends data) eps)) = data"
    if "me_kind (ep_config ep) = kTcpServer" "c \<in> set (ep_clients ep)"
    using fanout_unknown [OF d(1) out(1)] fanout_unknown [OF d(2) out(2)] that fd
    by (simp add: eps endpoint_client_stream [OF d(3)] endpoint_fds_def)
  show "datagrams (ep_fd ep) (concat (map (endpoint_sends data) eps)) = (if ep_have_peer ep then [(ep_peer ep, data)] else [])"
    if "me_kind (ep_config ep) \<noteq> kTcpServer"
    using fanout_unknown [OF d(1) out(1)] fanout_unknown [OF d(2) out(2)] that fd
    by (simp add: eps endpoint_datagrams endpoint_fds_def)
qed

lemma fanout_recipients: "list_all (downlink_recipient eps) (concat (map (endpoint_sends data) eps))"
  by (auto simp: list_all_iff endpoint_sends_def downlink_recipient_def split: if_splits)

text \<open>A sequence of arrivals from the radio, each at its own time.\<close>

definition feed :: "router \<Rightarrow> u64 \<times> bytes \<Rightarrow> (router \<times> router_action list) option" where
  "feed r arrival = FeedDownlink r (fst arrival) (snd arrival)"

lemma feed_reach: "router_reach r \<Longrightarrow> \<exists>r' acts. feed r a = Some (r', acts) \<and> router_reach r' \<and> rt_endpoints r' = rt_endpoints r
    \<and> acts = (if snd a = [] then [] else concat (map (endpoint_sends (snd a)) (rt_endpoints r)))"
  using FeedDownlink_ok [of r "fst a" "snd a"] reachable_inv [of r] reach_FeedDownlink [of r "fst a" "snd a"]
  by (auto simp: feed_def reach_inv_def)

lemma feed_fanout:
  assumes "router_reach r"
  shows "\<exists>r'. run_steps feed r arrivals = Some (r',
      concat (map (\<lambda>data. concat (map (endpoint_sends data) (rt_endpoints r))) (filter (\<lambda>data. data \<noteq> []) (map snd arrivals))))
    \<and> router_reach r' \<and> rt_endpoints r' = rt_endpoints r"
  using assms
proof (induction arrivals arbitrary: r)
  case (Cons a arrivals)
  from feed_reach [OF Cons.prems, of a] obtain r1 where
    "feed r a = Some (r1, if snd a = [] then [] else concat (map (endpoint_sends (snd a)) (rt_endpoints r)))"
    "router_reach r1" "rt_endpoints r1 = rt_endpoints r" by blast
  with Cons.IH [of r1] show ?case by auto
qed simp

lemma stream_of_parts:
  "(\<And>data. client_stream c (f data) = data) \<Longrightarrow> client_stream c (concat (map f xs)) = concat xs"
  "(\<And>data. datagrams fd (f data) = g data) \<Longrightarrow> datagrams fd (concat (map f xs)) = concat (map g xs)"
  by (induction xs) simp_all

text \<open>
  C25: what the aircraft sends reaches every recipient of the downlink complete and unchanged. Of any reachable router fed
  any sequence of arrivals, each TCP client of each endpoint is sent exactly the bytes that arrived, in order; each UDP
  endpoint whose peer is known sends that peer one datagram per non-empty arrival, with its bytes; a UDP endpoint without
  a peer sends nothing; and there is no other send.
\<close>

theorem router_downlink_fanout:
  assumes "router_reach r"
  shows "\<exists>r' acts. run_steps feed r arrivals = Some (r', acts) \<and> rt_endpoints r' = rt_endpoints r
    \<and> (\<forall>ep \<in> set (rt_endpoints r).
        if me_kind (ep_config ep) = kTcpServer
        then \<forall>c \<in> set (ep_clients ep). client_stream c acts = concat (map snd arrivals)
        else datagrams (ep_fd ep) acts =
          (if ep_have_peer ep then map (\<lambda>data. (ep_peer ep, data)) (filter (\<lambda>data. data \<noteq> []) (map snd arrivals)) else []))
    \<and> list_all (downlink_recipient (rt_endpoints r)) acts"
proof -
  let ?data = "filter (\<lambda>data. data \<noteq> []) (map snd arrivals)"
  let ?acts = "concat (map (\<lambda>data. concat (map (endpoint_sends data) (rt_endpoints r))) ?data)"
  from feed_fanout [OF assms, of arrivals] obtain r' where run: "run_steps feed r arrivals = Some (r', ?acts)"
    "rt_endpoints r' = rt_endpoints r" by blast
  have d: "distinct (table_fds (rt_endpoints r))"
    using reachable_inv [OF assms] by (simp add: reach_inv_def router_inv_def fds_inv_def held_def)
  have fds: "list_all (\<lambda>fd. 0 \<le> fd) (map ep_fd (rt_endpoints r))" using reachable_table [OF assms] by (simp add: table_inv_def)
  have all: "concat ?data = concat (map snd arrivals)" by (induction arrivals) auto
  have one: "concat (map (\<lambda>data. if b then [(p, data)] else []) xs) = (if b then map (\<lambda>data. (p, data)) xs else [])" for b p and xs :: "bytes list"
    by (induction xs) simp_all
  have "if me_kind (ep_config ep) = kTcpServer
      then \<forall>c \<in> set (ep_clients ep). client_stream c ?acts = concat (map snd arrivals)
      else datagrams (ep_fd ep) ?acts = (if ep_have_peer ep then map (\<lambda>data. (ep_peer ep, data)) ?data else [])"
    if ep: "ep \<in> set (rt_endpoints r)" for ep
  proof (cases "me_kind (ep_config ep) = kTcpServer")
    case True
    then show ?thesis using stream_of_parts(1) [OF fanout_known(1) [OF d fds ep True]] all by simp
  next
    case False
    then show ?thesis using stream_of_parts(2) [OF fanout_known(2) [OF d fds ep False], where xs = ?data] one by simp
  qed
  moreover have "list_all (downlink_recipient (rt_endpoints r)) ?acts"
    using fanout_recipients by (auto simp: list_all_iff)
  ultimately show ?thesis using run by blast
qed

theorem router_downlink_fanout_witness:
  "\<exists>r' acts. run_steps feed tcp_clients [(5, [1, 2]), (6, []), (7, [3])] = Some (r', acts)
    \<and> client_stream 11 acts = [1, 2, 3] \<and> client_stream 12 acts = [1, 2, 3]"
proof -
  have eps: "rt_endpoints tcp_clients = [rt_endpoints tcp_clients ! 0]" "ep_clients (rt_endpoints tcp_clients ! 0) = [11, 12]"
      "me_kind (ep_config (rt_endpoints tcp_clients ! 0)) = kTcpServer" by code_simp+
  have "rt_endpoints tcp_clients ! 0 \<in> set (rt_endpoints tcp_clients)" by (subst eps(1)) simp
  with router_downlink_fanout [OF tcp_reach, of "[(5, [1, 2]), (6, []), (7, [3])]"] eps(2,3) show ?thesis by fastforce
qed

subsection \<open>What the telemetry keeps of a stream\<close>

















text \<open>
  A UDP server endpoint sends to whoever sent last: every datagram, not only the first, makes its sender the peer
  that the next downlink bytes go to.
\<close>

theorem router_udp_server_peer:
  assumes "router_reach r" and "i < length (rt_endpoints r)" and "me_kind (ep_config (rt_endpoints r ! i)) = kUdpServer"
    and "0 \<le> ep_fd (rt_endpoints r ! i)" and "se_pollin ev" and "se_received ev = Some (b # bs)"
  shows "\<exists>r' acts. handle_slot r \<lparr>sl_endpoint = i, sl_fd = ep_fd (rt_endpoints r ! i), sl_is_client = False\<rparr> ev = Some (r', [], acts)
    \<and> endpoint_sends data (rt_endpoints r' ! i) = [SendTo (ep_fd (rt_endpoints r ! i)) (se_from ev) data]"
proof -
  let ?ep = "(rt_endpoints r ! i)\<lparr>ep_peer := se_from ev, ep_have_peer := True\<rparr>"
  have "framer_inv (ep_framer ?ep)"
    using reachable_inv [OF assms(1)] assms(2) by (auto simp: reach_inv_def router_inv_def framers_inv_def)
  from HandleEndpointData_ok [OF this, of r "b # bs"] obtain n ep' acts where
    h: "HandleEndpointData r ?ep (b # bs) = Some (r\<lparr>rt_uplink_bytes := n\<rparr>, ep', acts)" "ep' = ?ep\<lparr>ep_framer := ep_framer ep'\<rparr>"
    by blast
  have "endpoint_sends data ep' = [SendTo (ep_fd (rt_endpoints r ! i)) (se_from ev) data]"
    using assms(3,4) arg_cong [OF h(2), of ep_fd] arg_cong [OF h(2), of ep_config] arg_cong [OF h(2), of ep_peer]
      arg_cong [OF h(2), of ep_have_peer]
    by (simp add: endpoint_sends_def)
  with h(1) assms show ?thesis by (simp add: handle_slot_def Let_def)
qed

definition udp_config :: mavlink_endpoint where
  "udp_config = mavlink_endpoint_default\<lparr>me_kind := kUdpServer, me_host := ''0.0.0.0''\<rparr>"

definition udp_router :: router where
  "udp_router = fst (router_Start (router_SetEndpoints router_init [udp_config]) (Some (3, 4)))"

definition udp_polled :: router where
  "udp_polled = udp_router\<lparr>rt_dirty := False, rt_endpoints := [new_endpoint udp_config 10], rt_open := [3, 4, 10]\<rparr>"

lemma udp_reach: "router_reach udp_polled"
proof (rule reach_poll)
  show "router_reach udp_router"
    unfolding udp_router_def
    by (intro router_reach.intros) (simp add: fresh_pipe_def router_init_def router_SetEndpoints_def)
  show "rt_running udp_router" by (simp add: udp_router_def router_Start_def router_SetEndpoints_def router_init_def)
  have made: "kept_endpoints quiet_network 0 [udp_config] = [new_endpoint udp_config 10]"
    by (simp add: kept_endpoint_def configure_endpoint_def ResolveIpv4_def quiet_network_def udp_config_def mavlink_endpoint_default_def Let_def
        new_endpoint_def)
  then show "fresh_sockets quiet_network udp_router" "fresh_accepts quiet_network udp_router Poll_timeout"
    by (simp_all add: fresh_sockets_def fresh_accepts_def pipe_fds_def udp_router_def router_Start_def
        router_SetEndpoints_def router_init_def new_endpoint_def)
  show "poll_iteration quiet_network udp_router Poll_timeout = Some (udp_polled, [], True)" by code_simp
qed

theorem router_udp_server_peer_witness:
  "\<exists>r' acts. handle_slot udp_polled \<lparr>sl_endpoint = 0, sl_fd = 10, sl_is_client = False\<rparr> ((received [1])\<lparr>se_from := (7, 8)\<rparr>)
      = Some (r', [], acts)
    \<and> endpoint_sends [5] (rt_endpoints r' ! 0) = [SendTo 10 (7, 8) [5]]"
  using router_udp_server_peer [OF udp_reach, of 0 "(received [1])\<lparr>se_from := (7, 8)\<rparr>" 1 "[]" "[5]"]
  by (simp add: udp_polled_def udp_router_def new_endpoint_def received_def udp_config_def)

text \<open>
  C38: the clients of a TCP endpoint share its framer. From any reachable running router, when one client of an endpoint
  that may send up has sent the beginning \<open>a\<close> of a frame, the bytes \<open>b\<close> that another client sends next complete that frame,
  whatever follows them: the router sends up \<open>a @ b\<close>, which neither client sent. So a client that stops in the middle of a
  frame takes the beginning of the next frame of another client.
\<close>

theorem router_clients_share_framer:
  assumes "router_reach r" and "rt_running r" and "\<not> rt_dirty r" and "rt_uplink r" and "i < length (rt_endpoints r)"
    and "me_allow_uplink (ep_config (rt_endpoints r ! i))" and "fr_buffer (ep_framer (rt_endpoints r ! i)) = []"
    and "c1 \<in> set (ep_clients (rt_endpoints r ! i))" and "c2 \<in> set (ep_clients (rt_endpoints r ! i))" and "c1 \<noteq> c2"
    and "whole_frame (a @ b)" and "a \<noteq> []" and "b \<noteq> []"
  shows "\<exists>r1 r2 acts. poll_iteration net r (client_sends r i c1 a) = Some (r1, [], True)
    \<and> poll_iteration net r1 (client_sends r1 i c2 (b @ rest)) = Some (r2, Uplink (a @ b) # acts, True)"
proof -
  let ?ep = "rt_endpoints r ! i"
  let ?fr = "(count_frames (framer_set_callback (ep_framer ?ep)) 0 0)\<lparr>fr_buffer := a\<rparr>"
  let ?r1 = "r\<lparr>rt_endpoints := (rt_endpoints r)[i := ?ep\<lparr>ep_framer := ?fr\<rparr>]\<rparr>"
  have d: "distinct (table_fds (rt_endpoints r))"
    using reachable_inv [OF assms(1)] by (simp add: reach_inv_def router_inv_def fds_inv_def held_def)
  have fd: "0 \<le> ep_fd ?ep"
    using reachable_table [OF assms(1)] assms(5) by (simp add: table_inv_def list_all_length)
  have "framer_Push (framer_set_callback (ep_framer ?ep)) a = Some (?fr, [])"
    using framer_Push_parse [of "framer_set_callback (ep_framer ?ep)" a "[]" 0 a] parse_partial_frame [OF assms(11-13)] assms(7)
    by (simp add: framer_set_callback_def)
  then have "HandleEndpointData r ?ep a = Some (r, ?ep\<lparr>ep_framer := ?fr\<rparr>, [])"
    using assms(4,6) by (simp add: HandleEndpointData_def)
  from client_round [OF d fd assms(2,3,5,8,12) this] have one: "poll_iteration net r (client_sends r i c1 a) = Some (?r1, [], True)" .
  obtain ms n q where "parse rest = (ms, n, q)" by (metis prod_cases3)
  from parse_whole_frame [OF assms(11) this] have "\<exists>fr ms. framer_Push (framer_set_callback ?fr) (b @ rest) = Some (fr, head_message (a @ b) # ms)"
    using framer_Push_parse [of "framer_set_callback ?fr" "b @ rest"] by (simp add: framer_set_callback_def)
  then obtain r2 ep2 acts where two: "HandleEndpointData ?r1 (rt_endpoints ?r1 ! i) (b @ rest) = Some (r2, ep2, Uplink (a @ b) # acts)"
    using assms(4-6) head_message_data [OF assms(11)] by (auto simp: HandleEndpointData_def)
  have "endpoint_fds (?ep\<lparr>ep_framer := ?fr\<rparr>) = endpoint_fds ?ep" by (simp add: endpoint_fds_def)
  then have "distinct (table_fds (rt_endpoints ?r1))"
    using d table_fds_update [OF assms(5)] by simp
  from client_round [OF this _ _ _ _ _ _ two, of c2 net] fd assms(2,3,5,9,13) one show ?thesis by auto
qed

theorem router_clients_share_framer_witness:
  "\<exists>r1 r2 acts. poll_iteration quiet_network tcp_clients (client_sends tcp_clients 0 11 [0xfe, 0]) = Some (r1, [], True)
    \<and> poll_iteration quiet_network r1 (client_sends r1 0 12 [0xfe, 0, 7, 1, 1, 5, 9, 9])
      = Some (r2, Uplink [0xfe, 0, 0xfe, 0, 7, 1, 1, 5] # acts, True)"
proof -
  have "rt_running tcp_clients" "\<not> rt_dirty tcp_clients" "rt_uplink tcp_clients" "0 < length (rt_endpoints tcp_clients)"
      "me_allow_uplink (ep_config (rt_endpoints tcp_clients ! 0))" "fr_buffer (ep_framer (rt_endpoints tcp_clients ! 0)) = []"
      "11 \<in> set (ep_clients (rt_endpoints tcp_clients ! 0))" "12 \<in> set (ep_clients (rt_endpoints tcp_clients ! 0))"
      "(11 :: int) \<noteq> 12" "whole_frame ([0xfe, 0] @ [0xfe, 0, 7, 1, 1, 5])" by code_simp+
  from router_clients_share_framer [OF tcp_reach this, of quiet_network "[9, 9]"] show ?thesis by simp
qed

end
