(* ===== verification/Link_Stats.thy ===== *)
theory Link_Stats
  imports Config
begin

section \<open>Link statistics\<close>

text \<open>
  Model of \<open>core/include/openipc/link_stats.h\<close> and \<open>core/src/wfb/link_stats.cpp\<close>: the per-antenna record, the
  snapshot of one reporting interval and the holder \<open>LinkStats\<close>. The mutex of the holder makes \<open>Publish\<close> and
  \<open>Get\<close> atomic, so a run of the threads is a sequence of these two operations. \<open>gettimeofday\<close> is an
  argument of \<open>NowMs\<close>.
\<close>

record antenna_stat =
  as_antenna_id :: int
  as_count :: int
  as_rssi_min :: i8
  as_rssi_avg :: i8
  as_rssi_max :: i8
  as_snr_min :: i8
  as_snr_avg :: i8
  as_snr_max :: i8

record link_snapshot =
  ls_packets_all :: u32
  ls_packets_data :: u32
  ls_packets_session :: u32
  ls_packets_lost :: u32
  ls_packets_fec_recovered :: u32
  ls_packets_bad :: u32
  ls_packets_decrypt_err :: u32
  ls_bytes_all :: u32
  ls_fec_k :: int
  ls_fec_n :: int
  ls_antennas :: "antenna_stat list"
  ls_best_rssi :: int
  ls_best_snr :: int
  ls_num_antennas :: int
  ls_session_established :: bool
  ls_timestamp_ms :: u64

definition link_snapshot_default :: link_snapshot where
  "link_snapshot_default =
     \<lparr>ls_packets_all = 0, ls_packets_data = 0, ls_packets_session = 0, ls_packets_lost = 0,
      ls_packets_fec_recovered = 0, ls_packets_bad = 0, ls_packets_decrypt_err = 0, ls_bytes_all = 0,
      ls_fec_k = - 1, ls_fec_n = - 1, ls_antennas = [], ls_best_rssi = - 105, ls_best_snr = 0, ls_num_antennas = 0,
      ls_session_established = False, ls_timestamp_ms = 0\<rparr>"

record link_stats =
  st_current :: link_snapshot

definition link_stats_init :: link_stats where
  "link_stats_init = \<lparr>st_current = link_snapshot_default\<rparr>"

definition stats_Publish :: "link_stats \<Rightarrow> link_snapshot \<Rightarrow> link_stats" where
  "stats_Publish st snapshot = st\<lparr>st_current := snapshot\<rparr>"

definition stats_Get :: "link_stats \<Rightarrow> link_snapshot" where
  "stats_Get st = st_current st"

text \<open>\<open>NowMs\<close> on a \<open>timeval\<close>; the members are 64-bit and the arithmetic is unsigned.\<close>

definition NowMs :: "u64 \<Rightarrow> u64 \<Rightarrow> u64" where
  "NowMs tv_sec tv_usec = tv_sec * 1000 + tv_usec div 1000"

lemma stats_Get_Publish [simp]: "stats_Get (stats_Publish st snapshot) = snapshot"
  by (simp add: stats_Get_def stats_Publish_def)

lemma NowMs_exact:
  assumes "unat tv_sec < 2 ^ 53" and "unat tv_usec < 1000000"
  shows "unat (NowMs tv_sec tv_usec) = unat tv_sec * 1000 + unat tv_usec div 1000"
proof -
  have "unat tv_usec div 1000 < 1000" using assms(2) by simp
  with assms show ?thesis
    unfolding NowMs_def
    by (simp add: unat_word_ariths unat_div_distrib)
qed

end
