(* ===== verification/Wfb_Receiver.thy ===== *)
theory Wfb_Receiver
  imports Link_Stats
begin

section \<open>The wfb-ng receive path\<close>

text \<open>
  Model of \<open>core/src/wfb/wfb_receiver.cpp\<close> and \<open>core/include/openipc/wfb_receiver.h\<close>: classification of raw 802.11
  frames, the signal accounting per RF path, the dispatch of a frame to the sink of its radio port and the snapshot
  of an interval.

  wfb-ng's \<open>Aggregator\<close> (decryption, error correction, block reassembly) is not part of the sources. It is a value
  \<open>aggregator_ops\<close>, an argument of every operation that reaches it: construction (which fails when the key file
  is unreadable), \<open>process_packet\<close> (which hands decoded payloads to \<open>send_to_socket\<close>), its public counters and
  \<open>clear_stats\<close>. \<open>RX_ANT_MAX\<close>, wfb-ng's constant, is a field of it too.

  An \<open>int32_t\<close> sum that leaves its range and an index outside a fixed array are faults (\<open>None\<close>).
\<close>

subsection \<open>Data\<close>

definition kIeee80211HeaderSize :: nat where "kIeee80211HeaderSize = 24"
definition kFcsSize :: nat where "kFcsSize = 4"
definition kWfbMacByte0 :: u8 where "kWfbMacByte0 = 0x57"
definition kWfbMacByte1 :: u8 where "kWfbMacByte1 = 0x42"
definition kSrcMacOffset :: nat where "kSrcMacOffset = 10"
definition kDstMacOffset :: nat where "kDstMacOffset = 16"

lemmas wfb_layout_defs = kIeee80211HeaderSize_def kFcsSize_def kWfbMacByte0_def kWfbMacByte1_def
  kSrcMacOffset_def kDstMacOffset_def

record frame_meta =
  fm_rssi :: "i8 list"
  fm_snr :: "i8 list"
  fm_paths :: int
  fm_freq_mhz :: u16
  fm_mcs_index :: u8
  fm_bandwidth :: u8
  fm_wlan_idx :: u8

text \<open>The two arrays of \<open>FrameMeta\<close> have four slots.\<close>

definition meta_wf :: "frame_meta \<Rightarrow> bool" where
  "meta_wf m \<longleftrightarrow> length (fm_rssi m) = 4 \<and> length (fm_snr m) = 4"

record path_accumulator =
  pa_count :: int
  pa_rssi_sum :: int
  pa_snr_sum :: int
  pa_rssi_min :: i8
  pa_rssi_max :: i8
  pa_snr_min :: i8
  pa_snr_max :: i8

definition path_accumulator_init :: path_accumulator where
  "path_accumulator_init =
     \<lparr>pa_count = 0, pa_rssi_sum = 0, pa_snr_sum = 0, pa_rssi_min = 0, pa_rssi_max = 0, pa_snr_min = 0, pa_snr_max = 0\<rparr>"

text \<open>The public counters of an \<open>Aggregator\<close> and the arguments of \<open>process_packet\<close>.\<close>

record aggregator_counters =
  cn_p_all :: u32
  cn_b_all :: u32
  cn_p_data :: u32
  cn_p_session :: u32
  cn_p_lost :: u32
  cn_p_fec_recovered :: u32
  cn_p_bad :: u32
  cn_p_dec_err :: u32

record rx_packet =
  rx_payload :: bytes
  rx_wlan_idx :: u8
  rx_antenna :: bytes
  rx_rssi :: "i8 list"
  rx_noise :: "i8 list"
  rx_freq :: u16
  rx_mcs_index :: u8
  rx_bandwidth :: u8

record 'a aggregator_ops =
  ag_new :: "string \<Rightarrow> u64 \<Rightarrow> u32 \<Rightarrow> 'a option"
  ag_process :: "'a \<Rightarrow> rx_packet \<Rightarrow> 'a \<times> bytes list"
  ag_counters :: "'a \<Rightarrow> aggregator_counters"
  ag_clear_stats :: "'a \<Rightarrow> 'a"
  ag_RX_ANT_MAX :: nat

record 'a sink =
  sk_aggregator :: 'a
  sk_callback :: bool
  sk_session_seen :: bool

record 'a wfb_receiver =
  wr_radio :: radio_config
  wr_sinks :: "u8 \<Rightarrow> 'a sink option"
  wr_primary_port :: u8
  wr_paths :: "path_accumulator list"

subsection \<open>Sinks\<close>

definition sink_new :: "'a aggregator_ops \<Rightarrow> string \<Rightarrow> u64 \<Rightarrow> u32 \<Rightarrow> 'a sink option" where
  "sink_new ops keypair epoch channel_id =
     map_option (\<lambda>a. \<lparr>sk_aggregator = a, sk_callback = True, sk_session_seen = False\<rparr>) (ag_new ops keypair epoch channel_id)"

definition sink_session_established :: "'a aggregator_ops \<Rightarrow> 'a sink \<Rightarrow> bool" where
  "sink_session_established ops sk \<longleftrightarrow> cn_p_session (ag_counters ops (sk_aggregator sk)) > 0 \<or> sk_session_seen sk"

definition sink_send_to_socket :: "'a sink \<Rightarrow> bytes \<Rightarrow> 'a sink \<times> bytes list" where
  "sink_send_to_socket sk payload = (sk\<lparr>sk_session_seen := True\<rparr>, if sk_callback sk then [payload] else [])"

text \<open>\<open>process_packet\<close> of the base class, which calls \<open>send_to_socket\<close> for every payload it completes.\<close>

fun sink_deliver :: "'a sink \<Rightarrow> bytes list \<Rightarrow> 'a sink \<times> bytes list" where
  "sink_deliver sk [] = (sk, [])"
| "sink_deliver sk (p # ps) =
     (case sink_send_to_socket sk p of (sk1, o1) \<Rightarrow> case sink_deliver sk1 ps of (sk2, o2) \<Rightarrow> (sk2, o1 @ o2))"

definition sink_process_packet :: "'a aggregator_ops \<Rightarrow> 'a sink \<Rightarrow> rx_packet \<Rightarrow> 'a sink \<times> bytes list" where
  "sink_process_packet ops sk pkt =
     (case ag_process ops (sk_aggregator sk) pkt of (a, payloads) \<Rightarrow> sink_deliver (sk\<lparr>sk_aggregator := a\<rparr>) payloads)"

subsection \<open>Operations\<close>

definition ResetSignal :: "'a wfb_receiver \<Rightarrow> 'a wfb_receiver" where
  "ResetSignal r = r\<lparr>wr_paths := map (\<lambda>_. path_accumulator_init) (wr_paths r)\<rparr>"

definition wfb_receiver_init :: "radio_config \<Rightarrow> 'a wfb_receiver" where
  "wfb_receiver_init radio =
     ResetSignal \<lparr>wr_radio = radio, wr_sinks = Map.empty, wr_primary_port = kPortVideo,
       wr_paths = replicate 4 path_accumulator_init\<rparr>"

text \<open>\<open>AddStream\<close>: \<open>None\<close> is the exception of the \<open>Aggregator\<close> constructor; the map is then unchanged.\<close>

definition AddStream :: "'a aggregator_ops \<Rightarrow> 'a wfb_receiver \<Rightarrow> u8 \<Rightarrow> 'a wfb_receiver option" where
  "AddStream ops r radio_port = do {
     let channel_id = ChannelId (rc_link_id (wr_radio r)) radio_port;
     sk \<leftarrow> sink_new ops (rc_key_path (wr_radio r)) 0 channel_id;
     Some (r\<lparr>wr_sinks := (wr_sinks r)(radio_port \<mapsto> sk)\<rparr>)
   }"

definition ClassifyFrame :: "'a wfb_receiver \<Rightarrow> bytes \<Rightarrow> int option" where
  "ClassifyFrame r frame =
     (if length frame < kIeee80211HeaderSize + kFcsSize then Some (- 1)
      else do {
        f0 \<leftarrow> read8 frame 0;
        f1 \<leftarrow> read8 frame 1;
        s0 \<leftarrow> read8 frame kSrcMacOffset;
        s1 \<leftarrow> read8 frame (kSrcMacOffset + 1);
        d0 \<leftarrow> read8 frame kDstMacOffset;
        d1 \<leftarrow> read8 frame (kDstMacOffset + 1);
        src_id \<leftarrow> read_span frame (kSrcMacOffset + 2) 4;
        dst_id \<leftarrow> read_span frame (kDstMacOffset + 2) 4;
        if f0 \<noteq> 0x08 \<or> f1 \<noteq> 0x01 then Some (- 1)
        else if s0 \<noteq> kWfbMacByte0 \<or> s1 \<noteq> kWfbMacByte1 \<or> d0 \<noteq> kWfbMacByte0 \<or> d1 \<noteq> kWfbMacByte1 then Some (- 1)
        else if src_id \<noteq> dst_id then Some (- 1)
        else do {
          b2 \<leftarrow> read8 frame (kSrcMacOffset + 2);
          b3 \<leftarrow> read8 frame (kSrcMacOffset + 3);
          b4 \<leftarrow> read8 frame (kSrcMacOffset + 4);
          b5 \<leftarrow> read8 frame (kSrcMacOffset + 5);
          let channel_id = be32 b2 b3 b4 b5;
          if drop_bit 8 channel_id \<noteq> rc_link_id (wr_radio r) then Some (- 1)
          else Some (uint (channel_id AND 0xff))
        }
      })"

text \<open>\<open>std::min\<close> and \<open>std::max\<close> on \<open>int8_t\<close>, and the checked \<open>int32_t\<close> sum.\<close>

definition i8_min :: "i8 \<Rightarrow> i8 \<Rightarrow> i8" where
  "i8_min a b = (if sint b < sint a then b else a)"

definition i8_max :: "i8 \<Rightarrow> i8 \<Rightarrow> i8" where
  "i8_max a b = (if sint a < sint b then b else a)"

definition i32_add :: "int \<Rightarrow> int \<Rightarrow> int option" where
  "i32_add a b = (if fits_int32 (a + b) then Some (a + b) else None)"

definition accumulate_path :: "path_accumulator \<Rightarrow> i8 \<Rightarrow> i8 \<Rightarrow> path_accumulator option" where
  "accumulate_path acc rssi snr = do {
     let acc1 =
       (if pa_count acc = 0 then
          acc\<lparr>pa_rssi_min := rssi, pa_rssi_max := rssi, pa_snr_min := snr, pa_snr_max := snr\<rparr>
        else
          acc\<lparr>pa_rssi_min := i8_min (pa_rssi_min acc) rssi, pa_rssi_max := i8_max (pa_rssi_max acc) rssi,
              pa_snr_min := i8_min (pa_snr_min acc) snr, pa_snr_max := i8_max (pa_snr_max acc) snr\<rparr>);
     rssi_sum \<leftarrow> i32_add (pa_rssi_sum acc1) (sint rssi);
     snr_sum \<leftarrow> i32_add (pa_snr_sum acc1) (sint snr);
     count \<leftarrow> i32_add (pa_count acc1) 1;
     Some (acc1\<lparr>pa_rssi_sum := rssi_sum, pa_snr_sum := snr_sum, pa_count := count\<rparr>)
   }"

text \<open>The loop over the populated paths, from path \<open>i\<close>.\<close>

function accumulate_loop :: "path_accumulator list \<Rightarrow> frame_meta \<Rightarrow> nat \<Rightarrow> nat \<Rightarrow> path_accumulator list option" where
  "accumulate_loop accs meta paths i =
     (if i < paths then do {
        acc \<leftarrow> (if i < length accs then Some (accs ! i) else None);
        rssi \<leftarrow> read8 (fm_rssi meta) i;
        snr \<leftarrow> read8 (fm_snr meta) i;
        acc' \<leftarrow> accumulate_path acc rssi snr;
        accumulate_loop (accs[i := acc']) meta paths (i + 1)
      } else Some accs)"
  by auto
termination by (relation "measure (\<lambda>(_, _, paths, i). paths - i)") auto

declare accumulate_loop.simps [simp del]

definition AccumulateSignal :: "'a wfb_receiver \<Rightarrow> frame_meta \<Rightarrow> 'a wfb_receiver option" where
  "AccumulateSignal r meta = do {
     let paths = min (fm_paths meta) 4;
     accs \<leftarrow> accumulate_loop (wr_paths r) meta (nat paths) 0;
     Some (r\<lparr>wr_paths := accs\<rparr>)
   }"

text \<open>One slot of the three arrays handed to \<open>process_packet\<close>.\<close>

definition rx_slot :: "frame_meta \<Rightarrow> int \<Rightarrow> nat \<Rightarrow> (u8 \<times> i8 \<times> i8) option" where
  "rx_slot meta paths i =
     (if int i < paths then do {
        rssi \<leftarrow> read8 (fm_rssi meta) i;
        snr \<leftarrow> read8 (fm_snr meta) i;
        Some (of_nat i, rssi, rssi - snr)
      } else Some (0xff, 0, 127))"

definition ProcessFrame ::
  "'a aggregator_ops \<Rightarrow> 'a wfb_receiver \<Rightarrow> bytes \<times> frame_meta \<Rightarrow> ('a wfb_receiver \<times> (u8 \<times> bytes) list) option" where
  "ProcessFrame ops r input = (case input of (frame, meta) \<Rightarrow> do {
     radio_port \<leftarrow> ClassifyFrame r frame;
     if radio_port < 0 then Some (r, [])
     else let port = (word_of_int radio_port :: u8) in
       case wr_sinks r port of
         None \<Rightarrow> Some (r, [])
       | Some sk \<Rightarrow> do {
           r1 \<leftarrow> (if port = wr_primary_port r then AccumulateSignal r meta else Some r);
           payload \<leftarrow> read_span frame kIeee80211HeaderSize (length frame - kIeee80211HeaderSize - kFcsSize);
           let paths = max 1 (min (fm_paths meta) (int (ag_RX_ANT_MAX ops)));
           slots \<leftarrow> those (map (rx_slot meta paths) [0..<ag_RX_ANT_MAX ops]);
           let (sk', payloads) = sink_process_packet ops sk
             \<lparr>rx_payload = payload, rx_wlan_idx = fm_wlan_idx meta, rx_antenna = map fst slots,
              rx_rssi = map (fst \<circ> snd) slots, rx_noise = map (snd \<circ> snd) slots, rx_freq = fm_freq_mhz meta,
              rx_mcs_index = fm_mcs_index meta, rx_bandwidth = fm_bandwidth meta\<rparr>;
           Some (r1\<lparr>wr_sinks := (wr_sinks r1)(port \<mapsto> sk')\<rparr>, map (Pair port) payloads)
         }
   })"

text \<open>C++ integer division truncates; the divisor here is a positive count.\<close>

definition cdiv :: "int \<Rightarrow> int \<Rightarrow> int" where
  "cdiv a b = (if a \<ge> 0 then a div b else - ((- a) div b))"

definition antenna_of :: "int \<Rightarrow> path_accumulator \<Rightarrow> antenna_stat" where
  "antenna_of active acc =
     \<lparr>as_antenna_id = active, as_count = pa_count acc,
      as_rssi_min = pa_rssi_min acc, as_rssi_avg = word_of_int (cdiv (pa_rssi_sum acc) (pa_count acc)),
      as_rssi_max = pa_rssi_max acc,
      as_snr_min = pa_snr_min acc, as_snr_avg = word_of_int (cdiv (pa_snr_sum acc) (pa_count acc)),
      as_snr_max = pa_snr_max acc\<rparr>"

text \<open>The loop of \<open>TakeSnapshot\<close> over the accumulators: antennas so far, best RSSI and SNR, number of active paths.\<close>

fun snapshot_loop ::
  "path_accumulator list \<Rightarrow> antenna_stat list \<times> int \<times> int \<times> int \<Rightarrow> antenna_stat list \<times> int \<times> int \<times> int" where
  "snapshot_loop [] result = result"
| "snapshot_loop (acc # accs) (antennas, best_rssi, best_snr, active) =
     (if pa_count acc = 0 then snapshot_loop accs (antennas, best_rssi, best_snr, active)
      else let stat = antenna_of active acc in
        snapshot_loop accs (antennas @ [stat], max best_rssi (sint (as_rssi_avg stat)),
          max best_snr (sint (as_snr_avg stat)), active + 1))"

definition TakeSnapshot :: "'a aggregator_ops \<Rightarrow> 'a wfb_receiver \<Rightarrow> u64 \<Rightarrow> 'a wfb_receiver \<times> link_snapshot" where
  "TakeSnapshot ops r now_ms =
     (let snapshot0 = link_snapshot_default\<lparr>ls_timestamp_ms := now_ms\<rparr>;
          (r1, snapshot1) =
            (case wr_sinks r (wr_primary_port r) of
               None \<Rightarrow> (r, snapshot0)
             | Some sk \<Rightarrow>
                 (let cn = ag_counters ops (sk_aggregator sk) in
                  (r\<lparr>wr_sinks := (wr_sinks r)(wr_primary_port r \<mapsto>
                       sk\<lparr>sk_aggregator := ag_clear_stats ops (sk_aggregator sk)\<rparr>)\<rparr>,
                   snapshot0\<lparr>ls_packets_all := cn_p_all cn, ls_bytes_all := cn_b_all cn, ls_packets_data := cn_p_data cn,
                     ls_packets_session := cn_p_session cn, ls_packets_lost := cn_p_lost cn,
                     ls_packets_fec_recovered := cn_p_fec_recovered cn, ls_packets_bad := cn_p_bad cn,
                     ls_packets_decrypt_err := cn_p_dec_err cn,
                     ls_session_established := sink_session_established ops sk\<rparr>)));
          (antennas, best_rssi, best_snr, active) = snapshot_loop (wr_paths r1) ([], - 105, 0, 0)
      in (ResetSignal r1,
          snapshot1\<lparr>ls_antennas := antennas, ls_best_rssi := best_rssi, ls_best_snr := best_snr,
            ls_num_antennas := active\<rparr>))"

definition session_established :: "'a aggregator_ops \<Rightarrow> 'a wfb_receiver \<Rightarrow> bool" where
  "session_established ops r =
     (case wr_sinks r (wr_primary_port r) of None \<Rightarrow> False | Some sk \<Rightarrow> sink_session_established ops sk)"

subsection \<open>Classification\<close>

text \<open>A data frame whose two addresses carry the wfb marker and the channel id.\<close>

definition carries :: "u32 \<Rightarrow> bytes \<Rightarrow> bool" where
  "carries channel_id frame \<longleftrightarrow>
     28 \<le> length frame \<and> take 2 frame = [0x08, 0x01]
     \<and> take 6 (drop 10 frame) = [0x57, 0x42] @ be32_bytes channel_id
     \<and> take 6 (drop 16 frame) = [0x57, 0x42] @ be32_bytes channel_id"

lemma take_nth6:
  "k + 6 \<le> length xs \<Longrightarrow>
     take 6 (drop k xs) = [xs ! k, xs ! (k + 1), xs ! (k + 2), xs ! (k + 3), xs ! (k + 4), xs ! (k + 5)]"
  by (rule nth_equalityI) (auto simp: less_Suc_eq numeral_eq_Suc)

lemma take_nth4:
  "k + 4 \<le> length xs \<Longrightarrow> take 4 (drop k xs) = [xs ! k, xs ! (k + 1), xs ! (k + 2), xs ! (k + 3)]"
  by (rule nth_equalityI) (auto simp: less_Suc_eq numeral_eq_Suc)

lemma take_nth2: "2 \<le> length xs \<Longrightarrow> take 2 xs = [xs ! 0, xs ! 1]"
  by (rule nth_equalityI) (auto simp: less_Suc_eq numeral_eq_Suc)

lemma ClassifyFrame_eq:
  assumes "28 \<le> length frame"
  shows "ClassifyFrame r frame =
    Some (if take 2 frame = [0x08, 0x01] \<and> take 6 (drop 10 frame) = [0x57, 0x42] @ take 4 (drop 12 frame)
             \<and> take 6 (drop 16 frame) = [0x57, 0x42] @ take 4 (drop 12 frame)
             \<and> drop_bit 8 (be32 (frame ! 12) (frame ! 13) (frame ! 14) (frame ! 15)) = rc_link_id (wr_radio r)
          then uint (be32 (frame ! 12) (frame ! 13) (frame ! 14) (frame ! 15) AND 0xff) else - 1)"
proof -
  have "frame \<noteq> []" using assms by auto
  with assms show ?thesis
    by (simp add: ClassifyFrame_def wfb_layout_defs take_nth2 take_nth4 take_nth6 Let_def)
qed

lemma ClassifyFrame_short: "length frame < 28 \<Longrightarrow> ClassifyFrame r frame = Some (- 1)"
  by (simp add: ClassifyFrame_def wfb_layout_defs)

lemma low_byte: "uint ((w :: u32) AND 0xff) = uint (ucast w :: u8)"
  by (simp add: ff_mask unsigned_take_bit_eq unsigned_ucast_eq flip: take_bit_eq_mask)

lemma carries_iff:
  "carries ch frame \<longleftrightarrow> 28 \<le> length frame \<and> take 2 frame = [0x08, 0x01]
     \<and> take 6 (drop 10 frame) = [0x57, 0x42] @ take 4 (drop 12 frame)
     \<and> take 6 (drop 16 frame) = [0x57, 0x42] @ take 4 (drop 12 frame)
     \<and> be32 (frame ! 12) (frame ! 13) (frame ! 14) (frame ! 15) = ch"
  by (auto simp: carries_def take_nth4 take_nth6 simp flip: be32_bytes_eq_iff)

lemma ChannelId_split: "drop_bit 8 ch = l \<Longrightarrow> ChannelId l (ucast ch) = ch"
proof (rule bit_word_eqI)
  fix n :: nat
  assume "drop_bit 8 ch = l" and "n < LENGTH(32)"
  then show "bit (ChannelId l (ucast ch)) n = bit ch n"
    by (auto simp: bit_ChannelId bit_simps)
qed

lemma ClassifyFrame_carries:
  assumes "rc_link_id (wr_radio r) < 2 ^ 24"
  shows "ClassifyFrame r frame = Some (uint p) \<longleftrightarrow> carries (ChannelId (rc_link_id (wr_radio r)) p) frame"
proof (cases "28 \<le> length frame")
  case True
  let ?ch = "be32 (frame ! 12) (frame ! 13) (frame ! 14) (frame ! 15)"
  have "(drop_bit 8 ?ch = rc_link_id (wr_radio r) \<and> uint (?ch AND 0xff) = uint p) \<longleftrightarrow>
      ?ch = ChannelId (rc_link_id (wr_radio r)) p"
    using ChannelId_split [of ?ch] ChannelId_link [OF assms, of p] ChannelId_port [of "rc_link_id (wr_radio r)" p]
    unfolding low_byte by (metis word_uint_eq_iff)
  moreover have "- 1 \<noteq> uint p" using uint_ge_0 [of p] by linarith
  ultimately show ?thesis
    using True unfolding ClassifyFrame_eq [OF True] carries_iff by auto
next
  case False
  moreover have "- 1 \<noteq> uint p" using uint_ge_0 [of p] by linarith
  ultimately show ?thesis by (simp add: ClassifyFrame_short carries_def)
qed

lemma ClassifyFrame_total: "\<exists>v. ClassifyFrame r frame = Some v \<and> (v = - 1 \<or> (\<exists>p :: u8. v = uint p))"
proof (cases "28 \<le> length frame")
  case True
  then show ?thesis unfolding ClassifyFrame_eq [OF True] low_byte by auto
qed (simp add: ClassifyFrame_short)

subsection \<open>Signal accounting\<close>

text \<open>
  The specification of an accumulator: the list of samples it has seen. \<open>summarise\<close> is the accumulator of a
  list of samples (RSSI and SNR of one frame on one path).
\<close>

definition fold1 :: "('a \<Rightarrow> 'a \<Rightarrow> 'a) \<Rightarrow> 'a \<Rightarrow> 'a list \<Rightarrow> 'a" where
  "fold1 f d xs = (case xs of [] \<Rightarrow> d | y # ys \<Rightarrow> foldl f y ys)"

definition summarise :: "(i8 \<times> i8) list \<Rightarrow> path_accumulator" where
  "summarise xs =
     \<lparr>pa_count = int (length xs),
      pa_rssi_sum = sum_list (map (sint \<circ> fst) xs), pa_snr_sum = sum_list (map (sint \<circ> snd) xs),
      pa_rssi_min = fold1 i8_min 0 (map fst xs), pa_rssi_max = fold1 i8_max 0 (map fst xs),
      pa_snr_min = fold1 i8_min 0 (map snd xs), pa_snr_max = fold1 i8_max 0 (map snd xs)\<rparr>"

lemma fold1_snoc: "fold1 f d (xs @ [x]) = (if xs = [] then x else f (fold1 f d xs) x)"
  by (cases xs) (simp_all add: fold1_def)

lemma sint_i8: "- 128 \<le> sint (w :: i8)" "sint (w :: i8) \<le> 127"
  using sint_greater_eq [of w] sint_less [of w] by simp_all

lemma sum_sint_bound:
  "- 128 * int (length xs) \<le> sum_list (map (\<lambda>x. sint (g x :: i8)) xs)"
  "sum_list (map (\<lambda>x. sint (g x :: i8)) xs) \<le> 127 * int (length xs)"
proof -
  show "- 128 * int (length xs) \<le> sum_list (map (\<lambda>x. sint (g x :: i8)) xs)"
  proof (induction xs)
    case (Cons x xs)
    then show ?case using sint_i8(1) [of "g x"] by simp
  qed simp
  show "sum_list (map (\<lambda>x. sint (g x :: i8)) xs) \<le> 127 * int (length xs)"
  proof (induction xs)
    case (Cons x xs)
    then show ?case using sint_i8(2) [of "g x"] by simp
  qed simp
qed

lemma sum_fits:
  assumes "length xs \<le> 2 ^ 24"
  shows "fits_int32 (sum_list (map (sint \<circ> fst) (xs :: (i8 \<times> i8) list)))"
    and "fits_int32 (sum_list (map (sint \<circ> snd) (xs :: (i8 \<times> i8) list)))"
  using assms sum_sint_bound [where g = fst and xs = xs] sum_sint_bound [where g = snd and xs = xs] by (auto simp: fits_int32_def o_def)

lemma accumulate_path_summarise:
  assumes "length xs < 2 ^ 24"
  shows "accumulate_path (summarise xs) rssi snr = Some (summarise (xs @ [(rssi, snr)]))"
proof -
  have "length (xs @ [(rssi, snr)]) \<le> 2 ^ 24" using assms by simp
  from sum_fits [OF this] assms show ?thesis
    by (cases "xs = []")
       (simp_all add: accumulate_path_def summarise_def i32_add_def fold1_snoc fold1_snoc [where xs = "[]", simplified]
          Let_def fits_int32_def)
qed

lemma summarise_Nil: "summarise [] = path_accumulator_init"
  by (simp add: summarise_def path_accumulator_init_def fold1_def)

text \<open>The samples of path \<open>i\<close> in a sequence of frames.\<close>

definition path_samples :: "nat \<Rightarrow> frame_meta list \<Rightarrow> (i8 \<times> i8) list" where
  "path_samples i metas = [(fm_rssi m ! i, fm_snr m ! i). m \<leftarrow> metas, int i < fm_paths m]"

definition accounts :: "'a wfb_receiver \<Rightarrow> frame_meta list \<Rightarrow> bool" where
  "accounts r metas \<longleftrightarrow> wr_paths r = map (\<lambda>i. summarise (path_samples i metas)) [0..<4]"

lemma accounts_nth: "accounts r metas \<Longrightarrow> j < 4 \<Longrightarrow> wr_paths r ! j = summarise (path_samples j metas)"
  by (simp only: accounts_def nth_map nth_upt length_upt) simp

lemma length_path_samples: "length (path_samples i metas) \<le> length metas"
  by (induction metas) (auto simp: path_samples_def)

lemma accumulate_loop_map:
  assumes "meta_wf meta" and "n \<le> 4" and "i \<le> n" and "length accs = 4"
    and "\<And>j. i \<le> j \<Longrightarrow> j < n \<Longrightarrow> accumulate_path (accs ! j) (fm_rssi meta ! j) (fm_snr meta ! j) = Some (g j)"
  shows "accumulate_loop accs meta n i = Some (map (\<lambda>j. if i \<le> j \<and> j < n then g j else accs ! j) [0..<4])"
  using assms(3-)
proof (induction "n - i" arbitrary: i accs)
  case 0
  then show ?case by (subst accumulate_loop.simps) (auto intro!: nth_equalityI)
next
  case (Suc k)
  then have i: "i < n" by simp
  have step: "accumulate_loop accs meta n i = accumulate_loop (accs[i := g i]) meta n (i + 1)"
    using i Suc.prems assms(1,2) by (subst accumulate_loop.simps) (simp add: meta_wf_def)
  have "accumulate_loop (accs[i := g i]) meta n (i + 1) =
      Some (map (\<lambda>j. if i + 1 \<le> j \<and> j < n then g j else accs[i := g i] ! j) [0..<4])"
    using Suc i by (intro Suc.hyps(1)) auto
  also have "\<dots> = Some (map (\<lambda>j. if i \<le> j \<and> j < n then g j else accs ! j) [0..<4])"
    using i assms(2) Suc.prems(2) by (auto simp: nth_list_update)
  finally show ?case by (simp add: step)
qed

lemma AccumulateSignal_accounts:
  assumes "accounts r metas" and "meta_wf m" and "length metas < 2 ^ 24"
  shows "\<exists>r'. AccumulateSignal r m = Some r' \<and> accounts r' (metas @ [m])
    \<and> r' = r\<lparr>wr_paths := wr_paths r'\<rparr>"
proof -
  let ?n = "nat (min (fm_paths m) 4)"
  let ?g = "\<lambda>j. summarise (path_samples j (metas @ [m]))"
  have snoc: "path_samples j (metas @ [m]) =
      path_samples j metas @ (if int j < fm_paths m then [(fm_rssi m ! j, fm_snr m ! j)] else [])" for j
    by (simp add: path_samples_def)
  have "accumulate_path (wr_paths r ! j) (fm_rssi m ! j) (fm_snr m ! j) = Some (?g j)" if "j < ?n" for j
    using that accounts_nth [OF assms(1), of j]
      accumulate_path_summarise [OF le_less_trans [OF length_path_samples assms(3)], of j]
    by (simp add: snoc)
  then have "accumulate_loop (wr_paths r) m ?n 0 = Some (map (\<lambda>j. if 0 \<le> j \<and> j < ?n then ?g j else wr_paths r ! j) [0..<4])"
    using assms by (intro accumulate_loop_map) (auto simp: accounts_def)
  moreover have "map (\<lambda>j. if 0 \<le> j \<and> j < ?n then ?g j else wr_paths r ! j) [0..<4] = map ?g [0..<4]"
    using accounts_nth [OF assms(1)] by (intro map_cong) (auto simp: snoc simp del: upt.simps)
  ultimately show ?thesis by (simp add: AccumulateSignal_def accounts_def)
qed

subsection \<open>Frames of an interval\<close>

lemma those_map_Some: "(\<And>x. x \<in> set xs \<Longrightarrow> \<exists>y. f x = Some y) \<Longrightarrow> \<exists>ys. those (map f xs) = Some ys"
  by (induction xs) fastforce+

lemma rx_slots_Some:
  assumes "meta_wf m" and "n \<le> 4"
  shows "\<exists>slots. those (map (rx_slot m paths) [0..<n]) = Some slots"
  using assms by (intro those_map_Some) (auto simp: rx_slot_def meta_wf_def)

lemma those_map_nth:
  "those (map f xs) = Some ys \<Longrightarrow> length ys = length xs \<and> (\<forall>i < length xs. f (xs ! i) = Some (ys ! i))"
proof (induction xs arbitrary: ys)
  case (Cons x xs)
  then obtain y zs where "f x = Some y" "those (map f xs) = Some zs" "ys = y # zs"
    by (auto split: option.splits)
  with Cons.IH [of zs] show ?case by (auto simp: nth_Cons split: nat.splits)
qed simp

lemma sink_deliver_eq:
  "sk_callback sk \<Longrightarrow> sink_deliver sk ps = (if ps = [] then sk else sk\<lparr>sk_session_seen := True\<rparr>, ps)"
  by (induction ps arbitrary: sk) (simp_all add: sink_send_to_socket_def)

definition on_primary :: "'a wfb_receiver \<Rightarrow> bytes \<Rightarrow> bool" where
  "on_primary r frame \<longleftrightarrow> ClassifyFrame r frame = Some (uint (wr_primary_port r))"

definition primary_metas :: "'a wfb_receiver \<Rightarrow> (bytes \<times> frame_meta) list \<Rightarrow> frame_meta list" where
  "primary_metas r inputs = map snd (filter (\<lambda>(frame, meta). on_primary r frame) inputs)"

text \<open>What frame processing never changes: the configuration and the set of subscribed ports.\<close>

definition same_setup :: "'a wfb_receiver \<Rightarrow> 'a wfb_receiver \<Rightarrow> bool" where
  "same_setup r r' \<longleftrightarrow> wr_radio r' = wr_radio r \<and> wr_primary_port r' = wr_primary_port r \<and> dom (wr_sinks r') = dom (wr_sinks r)"

lemma same_setup_classify: "same_setup r r' \<Longrightarrow> ClassifyFrame r' frame = ClassifyFrame r frame"
  unfolding ClassifyFrame_def same_setup_def by (elim conjE) (simp only:)

lemma ClassifyFrame_length: "ClassifyFrame r frame = Some (uint (p :: u8)) \<Longrightarrow> 28 \<le> length frame"
  using ClassifyFrame_short [of frame r] uint_ge_0 [of p] by (cases "length frame < 28") auto

lemma ProcessFrame_accounts:
  assumes "accounts r metas" and "meta_wf m" and "length metas < 2 ^ 24" and "ag_RX_ANT_MAX ops \<le> 4"
    and "wr_sinks r (wr_primary_port r) \<noteq> None"
  shows "\<exists>r' out. ProcessFrame ops r (frame, m) = Some (r', out) \<and> same_setup r r'
    \<and> accounts r' (metas @ (if on_primary r frame then [m] else []))"
proof -
  obtain v where v: "ClassifyFrame r frame = Some v" "v = - 1 \<or> (\<exists>p :: u8. v = uint p)"
    using ClassifyFrame_total by blast
  show ?thesis
  proof (cases "v = - 1")
    case True
    have "uint (wr_primary_port r) \<noteq> - 1" using uint_ge_0 [of "wr_primary_port r"] by linarith
    with True v assms(1) show ?thesis by (auto simp: ProcessFrame_def same_setup_def on_primary_def)
  next
    case False
    with v obtain p :: u8 where p: "ClassifyFrame r frame = Some (uint p)" by auto
    then have prim: "on_primary r frame \<longleftrightarrow> p = wr_primary_port r"
      by (simp add: on_primary_def word_uint_eq_iff)
    obtain slots where slots: "those (map (rx_slot m (max 1 (min (fm_paths m) (int (ag_RX_ANT_MAX ops))))) [0..<ag_RX_ANT_MAX ops]) = Some slots"
      using rx_slots_Some [OF assms(2,4)] by blast
    note len = ClassifyFrame_length [OF p]
    obtain r1 where r1: "(if p = wr_primary_port r then AccumulateSignal r m else Some r) = Some r1"
        "accounts r1 (metas @ (if on_primary r frame then [m] else []))" "r1 = r\<lparr>wr_paths := wr_paths r1\<rparr>"
      using AccumulateSignal_accounts [OF assms(1-3)] assms(1) prim by (cases "p = wr_primary_port r") auto
    have r1_fields: "wr_radio r1 = wr_radio r" "wr_sinks r1 = wr_sinks r" "wr_primary_port r1 = wr_primary_port r"
      using arg_cong [OF r1(3), of wr_radio] arg_cong [OF r1(3), of wr_sinks] arg_cong [OF r1(3), of wr_primary_port] by simp_all
    show ?thesis
    proof (cases "wr_sinks r p")
      case None
      with assms(5) have "p \<noteq> wr_primary_port r" by auto
      with None p prim assms(1) show ?thesis by (simp add: ProcessFrame_def same_setup_def)
    next
      case (Some sk)
      with p slots len r1 r1_fields show ?thesis
        by (auto simp: ProcessFrame_def same_setup_def accounts_def wfb_layout_defs Let_def split: prod.splits)
    qed
  qed
qed

lemma frames_run:
  assumes "accounts r metas" and "\<forall>(frame, meta) \<in> set inputs. meta_wf meta"
    and "length metas + length inputs \<le> 2 ^ 24" and "ag_RX_ANT_MAX ops \<le> 4" and "wr_sinks r (wr_primary_port r) \<noteq> None"
  shows "\<exists>r' out. run_steps (ProcessFrame ops) r inputs = Some (r', out) \<and> same_setup r r'
    \<and> accounts r' (metas @ primary_metas r inputs)"
  using assms
proof (induction inputs arbitrary: r metas)
  case Nil
  then show ?case by (simp add: primary_metas_def same_setup_def)
next
  case (Cons input inputs)
  obtain frame m where input: "input = (frame, m)" by force
  have "meta_wf m" "length metas < 2 ^ 24" using Cons.prems(2,3) input by auto
  then obtain r1 o1 where r1: "ProcessFrame ops r (frame, m) = Some (r1, o1)" "same_setup r r1"
      "accounts r1 (metas @ (if on_primary r frame then [m] else []))"
    using ProcessFrame_accounts Cons.prems(1,4,5) by blast
  let ?metas = "metas @ (if on_primary r frame then [m] else [])"
  have "length ?metas + length inputs \<le> 2 ^ 24" "wr_sinks r1 (wr_primary_port r1) \<noteq> None"
    using Cons.prems(3,5) r1(2) by (auto simp: same_setup_def dom_def)
  then obtain r2 o2 where r2: "run_steps (ProcessFrame ops) r1 inputs = Some (r2, o2)" "same_setup r1 r2"
      "accounts r2 (?metas @ primary_metas r1 inputs)"
    using Cons.IH [OF r1(3)] Cons.prems(2,4) by auto
  have "primary_metas r1 inputs = primary_metas r inputs"
    using r1(2) by (simp add: primary_metas_def on_primary_def same_setup_classify) (simp add: same_setup_def)
  then have "?metas @ primary_metas r1 inputs = metas @ primary_metas r (input # inputs)"
    by (simp add: primary_metas_def input)
  with r1 r2 show ?case by (auto simp: input same_setup_def)
qed

subsection \<open>Snapshots\<close>

text \<open>The minimum, average and maximum of one quantity over the samples of an interval.\<close>

definition field_summary :: "i8 list \<Rightarrow> i8 \<Rightarrow> i8 \<Rightarrow> i8 \<Rightarrow> bool" where
  "field_summary ys mn av mx \<longleftrightarrow>
     sint mn = Min (sint ` set ys) \<and> sint mx = Max (sint ` set ys)
     \<and> sint av = cdiv (sum_list (map sint ys)) (int (length ys)) \<and> sint mn \<le> sint av \<and> sint av \<le> sint mx"

definition antenna_summarises :: "antenna_stat \<Rightarrow> (i8 \<times> i8) list \<Rightarrow> bool" where
  "antenna_summarises st xs \<longleftrightarrow> xs \<noteq> [] \<and> as_count st = int (length xs)
     \<and> field_summary (map fst xs) (as_rssi_min st) (as_rssi_avg st) (as_rssi_max st)
     \<and> field_summary (map snd xs) (as_snr_min st) (as_snr_avg st) (as_snr_max st)"

lemma sint_i8_min: "sint (i8_min a b) = min (sint a) (sint b)"
  by (simp add: i8_min_def)

lemma sint_i8_max: "sint (i8_max a b) = max (sint a) (sint b)"
  by (simp add: i8_max_def)

lemma fold1_min: "ys \<noteq> [] \<Longrightarrow> sint (fold1 i8_min d ys) = Min (sint ` set ys)"
proof (induction ys rule: rev_induct)
  case (snoc y ys)
  then show ?case by (cases "ys = []") (simp_all add: fold1_snoc fold1_snoc [where xs = "[]", simplified] sint_i8_min min.commute)
qed simp

lemma fold1_max: "ys \<noteq> [] \<Longrightarrow> sint (fold1 i8_max d ys) = Max (sint ` set ys)"
proof (induction ys rule: rev_induct)
  case (snoc y ys)
  then show ?case by (cases "ys = []") (simp_all add: fold1_snoc fold1_snoc [where xs = "[]", simplified] sint_i8_max max.commute)
qed simp

lemma cdiv_between:
  assumes "0 < n" and "n * lo \<le> a" and "a \<le> n * hi"
  shows "lo \<le> cdiv a n" and "cdiv a n \<le> hi"
proof -
  have up: "b div n \<le> h" if "b \<le> n * h" for b h
    using zdiv_mono1 [OF that assms(1)] assms(1) by simp
  have down: "l \<le> b div n" if "n * l \<le> b" for b l
    using zdiv_mono1 [OF that assms(1)] assms(1) by simp
  show "lo \<le> cdiv a n" using down [OF assms(2)] up [of "- a" "- lo"] assms(2) by (simp add: cdiv_def)
  show "cdiv a n \<le> hi" using up [OF assms(3)] down [of "- hi" "- a"] assms(3) by (simp add: cdiv_def)
qed

lemma sum_list_between:
  assumes "\<And>y. y \<in> set ys \<Longrightarrow> lo \<le> y" and "\<And>y. y \<in> set ys \<Longrightarrow> y \<le> (hi :: int)"
  shows "int (length ys) * lo \<le> sum_list ys" and "sum_list ys \<le> int (length ys) * hi"
proof -
  show "int (length ys) * lo \<le> sum_list ys"
    using assms(1) by (induction ys) (simp_all add: distrib_right add_mono)
  show "sum_list ys \<le> int (length ys) * hi"
    using assms(2) by (induction ys) (simp_all add: distrib_right add_mono)
qed

lemma sint_word_of_int8: "- 128 \<le> x \<Longrightarrow> x \<le> 127 \<Longrightarrow> sint (word_of_int x :: i8) = x"
  by (simp add: sint_sbintrunc' signed_take_bit_int_eq_self)

lemma field_summary_fold:
  assumes "ys \<noteq> []"
  shows "field_summary ys (fold1 i8_min 0 ys) (word_of_int (cdiv (sum_list (map sint ys)) (int (length ys)))) (fold1 i8_max 0 ys)"
proof -
  let ?lo = "Min (sint ` set ys)" and ?hi = "Max (sint ` set ys)"
  have "int (length ys) * ?lo \<le> sum_list (map sint ys)" "sum_list (map sint ys) \<le> int (length ys) * ?hi"
    using sum_list_between [of "map sint ys" ?lo ?hi] by simp_all
  then have bounds: "?lo \<le> cdiv (sum_list (map sint ys)) (int (length ys))"
      "cdiv (sum_list (map sint ys)) (int (length ys)) \<le> ?hi"
    using cdiv_between [of "int (length ys)"] assms by simp_all
  have "- 128 \<le> ?lo" "?hi \<le> 127" using assms sint_i8 by auto
  with bounds have "sint (word_of_int (cdiv (sum_list (map sint ys)) (int (length ys))) :: i8) =
      cdiv (sum_list (map sint ys)) (int (length ys))"
    by (intro sint_word_of_int8) linarith+
  with bounds show ?thesis
    using assms by (simp add: field_summary_def fold1_min fold1_max)
qed

lemma antenna_of_summarise: "xs \<noteq> [] \<Longrightarrow> antenna_summarises (antenna_of k (summarise xs)) xs"
  using field_summary_fold [of "map fst xs"] field_summary_fold [of "map snd xs"]
  by (simp add: antenna_summarises_def antenna_of_def summarise_def)

text \<open>The antennas of a snapshot, numbered from \<open>k\<close>; paths without a sample are skipped.\<close>

fun antennas_from :: "int \<Rightarrow> (i8 \<times> i8) list list \<Rightarrow> antenna_stat list" where
  "antennas_from k [] = []"
| "antennas_from k (xs # xss) =
     (if xs = [] then antennas_from k xss else antenna_of k (summarise xs) # antennas_from (k + 1) xss)"

lemma antennas_from_summarise: "list_all2 antenna_summarises (antennas_from k xss) (filter (\<lambda>xs. xs \<noteq> []) xss)"
  by (induction xss arbitrary: k) (simp_all add: antenna_of_summarise)

lemma snapshot_loop_eq:
  "snapshot_loop (map summarise xss) (antennas, br, bs, k) =
     (antennas @ antennas_from k xss,
      fold max (map (\<lambda>st. sint (as_rssi_avg st)) (antennas_from k xss)) br,
      fold max (map (\<lambda>st. sint (as_snr_avg st)) (antennas_from k xss)) bs,
      k + int (length (antennas_from k xss)))"
proof (induction xss arbitrary: antennas br bs k)
  case (Cons xs xss)
  have "(pa_count (summarise xs) = 0) = (xs = [])" by (simp add: summarise_def)
  with Cons show ?case by (simp add: Let_def max.commute)
qed simp

lemma fold_max_Max: "fold max ys (b :: int) = Max (insert b (set ys))"
  using Max.set_eq_fold [of b ys] by simp

lemma TakeSnapshot_antennas:
  assumes "accounts r metas" and "snap = snd (TakeSnapshot ops r now)"
  shows "ls_antennas snap = antennas_from 0 (map (\<lambda>i. path_samples i metas) [0..<4])"
    and "ls_best_rssi snap = Max (insert (- 105) ((\<lambda>st. sint (as_rssi_avg st)) ` set (ls_antennas snap)))"
    and "ls_best_snr snap = Max (insert 0 ((\<lambda>st. sint (as_snr_avg st)) ` set (ls_antennas snap)))"
    and "ls_num_antennas snap = int (length (ls_antennas snap))"
proof -
  let ?as = "antennas_from 0 (map (\<lambda>i. path_samples i metas) [0..<4])"
  have "wr_paths r = map summarise (map (\<lambda>i. path_samples i metas) [0..<4])"
    using assms by (simp add: accounts_def)
  note loop = snapshot_loop_eq [of "map (\<lambda>i. path_samples i metas) [0..<4]" "[]" "- 105" 0 0, folded this]
  have fields: "ls_antennas snap = ?as"
    "ls_best_rssi snap = Max (insert (- 105) ((\<lambda>st. sint (as_rssi_avg st)) ` set ?as))"
    "ls_best_snr snap = Max (insert 0 ((\<lambda>st. sint (as_snr_avg st)) ` set ?as))"
    "ls_num_antennas snap = int (length ?as)"
    using loop unfolding assms(2)
    by (simp_all add: TakeSnapshot_def Let_def fold_max_Max image_image split: option.splits del: upt.simps)
  show "ls_antennas snap = ?as" by (fact fields(1))
  show "ls_best_rssi snap = Max (insert (- 105) ((\<lambda>st. sint (as_rssi_avg st)) ` set (ls_antennas snap)))"
    "ls_best_snr snap = Max (insert 0 ((\<lambda>st. sint (as_snr_avg st)) ` set (ls_antennas snap)))"
    "ls_num_antennas snap = int (length (ls_antennas snap))"
    unfolding fields by (rule refl)+
qed

lemma TakeSnapshot_resets: "length (wr_paths r) = 4 \<Longrightarrow> accounts (fst (TakeSnapshot ops r now)) []"
  by (auto simp: TakeSnapshot_def ResetSignal_def accounts_def path_samples_def summarise_Nil Let_def map_replicate_const
      split: option.splits prod.splits)

text \<open>
  The simplest instance of the \<open>Aggregator\<close> parameter: no encryption and no error correction, every packet is a
  payload. It is used where a statement about all aggregators is applied to a concrete one.
\<close>

definition plain_aggregator :: "nat aggregator_ops" where
  "plain_aggregator =
     \<lparr>ag_new = (\<lambda>keypair epoch channel_id. Some 0),
      ag_process = (\<lambda>n pkt. (n + 1, [rx_payload pkt])),
      ag_counters = (\<lambda>n. \<lparr>cn_p_all = of_nat n, cn_b_all = 0, cn_p_data = of_nat n, cn_p_session = of_nat n, cn_p_lost = 0,
        cn_p_fec_recovered = 0, cn_p_bad = 0, cn_p_dec_err = 0\<rparr>),
      ag_clear_stats = (\<lambda>n. 0),
      ag_RX_ANT_MAX = 4\<rparr>"

definition sample_meta :: frame_meta where
  "sample_meta = \<lparr>fm_rssi = [0xce, 0xc4, 0, 0], fm_snr = [30, 22, 0, 0], fm_paths = 2, fm_freq_mhz = 5825,
     fm_mcs_index = 1, fm_bandwidth = 20, fm_wlan_idx = 0\<rparr>"

text \<open>The values of a snapshot stay within the ranges of 8-bit signal values and of four antennas.\<close>

lemma snapshot_loop_bounds:
  "snapshot_loop accs (ants, rssi, snr, n) = (ants', rssi', snr', n') \<Longrightarrow>
     rssi \<le> rssi' \<and> rssi' \<le> max rssi 127 \<and> snr \<le> snr' \<and> snr' \<le> max snr 127 \<and> n \<le> n' \<and> n' \<le> n + int (length accs)"
proof (induction accs arbitrary: ants rssi snr n)
  case (Cons acc accs)
  have le: "sint (w :: i8) \<le> 127" for w using sint_lt [of w] by simp
  show ?case
  proof (cases "pa_count acc = 0")
    case True
    with Cons show ?thesis by fastforce
  next
    case False
    let ?st = "antenna_of n acc"
    have "snapshot_loop accs (ants @ [?st], max rssi (sint (as_rssi_avg ?st)), max snr (sint (as_snr_avg ?st)), n + 1)
        = (ants', rssi', snr', n')"
      using Cons.prems False by (simp add: Let_def)
    from Cons.IH [OF this] le [of "as_rssi_avg ?st"] le [of "as_snr_avg ?st"] show ?thesis by auto
  qed
qed simp

text \<open>The frame an air unit on a channel puts on the air.\<close>

definition air_frame :: "u32 \<Rightarrow> bytes \<Rightarrow> bytes \<Rightarrow> bytes" where
  "air_frame channel_id payload fcs =
     [0x08, 0x01, 0, 0, 0xff, 0xff, 0xff, 0xff, 0xff, 0xff] @ [0x57, 0x42] @ be32_bytes channel_id
     @ [0x57, 0x42] @ be32_bytes channel_id @ [0, 0] @ payload @ fcs"

lemma air_frame_carries: "4 \<le> length fcs \<Longrightarrow> carries channel_id (air_frame channel_id payload fcs)"
  by (simp add: carries_def air_frame_def be32_bytes_def)

subsection \<open>Properties\<close>

text \<open>A link id of more than 24 bits matches no channel id, which keeps only the low 24 bits of one.\<close>

lemma ClassifyFrame_wide:
  assumes "2 ^ 24 \<le> rc_link_id (wr_radio r)"
  shows "ClassifyFrame r frame = Some (- 1)"
proof (cases "28 \<le> length frame")
  case True
  have "drop_bit 8 ch < 2 ^ 24" for ch :: u32
  proof -
    have "unat ch < 2 ^ 32" using unsigned_less [of ch] by simp
    moreover have "unat (drop_bit 8 ch) = unat ch div 2 ^ 8" unfolding unat_drop_bit_eq by (rule drop_bit_eq_div)
    ultimately show ?thesis unfolding word_less_nat_alt by simp
  qed
  then have "drop_bit 8 ch \<noteq> rc_link_id (wr_radio r)" for ch
    using assms by (metis linorder_not_less)
  then show ?thesis unfolding ClassifyFrame_eq [OF True] by simp
qed (simp add: ClassifyFrame_short)

text \<open>
  C14: for every configured link id and every frame, a frame is accepted for a radio port exactly when the link id has at
  most 24 bits and the frame is a data frame both of whose addresses carry the wfb marker and the channel id of this
  link and that port; every other frame, however short or malformed, is rejected without reading outside it. With a
  wider link id nothing is accepted.
\<close>

theorem wfb_ClassifyFrame_exact:
  "\<exists>v. ClassifyFrame r frame = Some v
    \<and> (\<forall>p. v = uint p \<longleftrightarrow> rc_link_id (wr_radio r) < 2 ^ 24 \<and> carries (ChannelId (rc_link_id (wr_radio r)) p) frame)
    \<and> (v = - 1 \<longleftrightarrow> (\<nexists>p. rc_link_id (wr_radio r) < 2 ^ 24 \<and> carries (ChannelId (rc_link_id (wr_radio r)) p) frame))"
proof (cases "rc_link_id (wr_radio r) < 2 ^ 24")
  case True
  obtain v where v: "ClassifyFrame r frame = Some v" "v = - 1 \<or> (\<exists>p :: u8. v = uint p)"
    using ClassifyFrame_total by blast
  have "v = uint p \<longleftrightarrow> carries (ChannelId (rc_link_id (wr_radio r)) p) frame" for p
    using ClassifyFrame_carries [OF True, of frame p] v(1) by simp
  moreover have "uint p \<noteq> - 1" for p :: u8 using uint_ge_0 [of p] by linarith
  ultimately show ?thesis using v True by metis
next
  case False
  then have "ClassifyFrame r frame = Some (- 1)" by (intro ClassifyFrame_wide) (simp add: not_less)
  moreover have "- 1 \<noteq> uint p" for p :: u8 using uint_ge_0 [of p] by linarith
  ultimately show ?thesis using False by blast
qed

theorem wfb_ClassifyFrame_exact_witness:
  "ClassifyFrame (wfb_receiver_init radio_config_default :: nat wfb_receiver)
     (air_frame (ChannelId 7669206 kPortMavlinkRx) [1, 2, 3] [0, 0, 0, 0]) = Some (uint kPortMavlinkRx)"
proof -
  let ?r = "wfb_receiver_init radio_config_default :: nat wfb_receiver"
  have link: "rc_link_id (wr_radio ?r) = 7669206"
    by (simp add: wfb_receiver_init_def ResetSignal_def radio_config_default_def)
  with wfb_ClassifyFrame_exact [of ?r "air_frame (ChannelId 7669206 kPortMavlinkRx) [1, 2, 3] [0, 0, 0, 0]"]
    air_frame_carries [of "[0, 0, 0, 0]"]
  show ?thesis by auto
qed

text \<open>
  A configured link id of 24 bits or more can never receive anything: every frame is rejected, because the
  channel id keeps only its low 24 bits.
\<close>

theorem wfb_wide_link_id_rejects_all:
  assumes "2 ^ 24 \<le> rc_link_id (wr_radio r)"
  shows "ProcessFrame ops r (frame, meta) = Some (r, [])"
  using ClassifyFrame_wide [OF assms] by (simp add: ProcessFrame_def)

theorem wfb_wide_link_id_rejects_all_witness:
  "ProcessFrame plain_aggregator (wfb_receiver_init (radio_config_default\<lparr>rc_link_id := 0x1000000\<rparr>))
     (air_frame (ChannelId 0x1000000 kPortVideo) [1] [0, 0, 0, 0], sample_meta) =
   Some (wfb_receiver_init (radio_config_default\<lparr>rc_link_id := 0x1000000\<rparr>), [])"
  by (rule wfb_wide_link_id_rejects_all) (simp add: wfb_receiver_init_def ResetSignal_def)

text \<open>
  C8: the statistics of a snapshot are those of the frames received since the last one. For every RF path that
  saw a frame of the video port: the number of frames and the minimum, truncated average and maximum of RSSI and SNR,
  with minimum \<le> average \<le> maximum; the best values are the maxima over the antennas; taking the snapshot starts a
  new interval. Up to \<open>2^24\<close> frames per interval no 32-bit sum overflows.
\<close>

theorem wfb_snapshot_statistics:
  assumes "accounts r []" and "\<forall>(frame, meta) \<in> set inputs. meta_wf meta" and "length inputs \<le> 2 ^ 24"
    and "ag_RX_ANT_MAX ops \<le> 4" and "wr_sinks r (wr_primary_port r) \<noteq> None"
  shows "\<exists>r' out r'' snap. run_steps (ProcessFrame ops) r inputs = Some (r', out)
    \<and> TakeSnapshot ops r' now = (r'', snap)
    \<and> list_all2 antenna_summarises (ls_antennas snap)
        (filter (\<lambda>xs. xs \<noteq> []) (map (\<lambda>i. path_samples i (primary_metas r inputs)) [0..<4]))
    \<and> ls_num_antennas snap = int (length (ls_antennas snap))
    \<and> ls_best_rssi snap = Max (insert (- 105) ((\<lambda>st. sint (as_rssi_avg st)) ` set (ls_antennas snap)))
    \<and> ls_best_snr snap = Max (insert 0 ((\<lambda>st. sint (as_snr_avg st)) ` set (ls_antennas snap)))
    \<and> accounts r'' []"
proof -
  obtain r' out where r': "run_steps (ProcessFrame ops) r inputs = Some (r', out)" "accounts r' (primary_metas r inputs)"
    using frames_run [of r "[]" inputs ops] assms by auto
  obtain r'' snap where snap: "TakeSnapshot ops r' now = (r'', snap)" by force
  then have "snap = snd (TakeSnapshot ops r' now)" by simp
  note fields = TakeSnapshot_antennas [OF r'(2) this]
  have "length (wr_paths r') = 4" using r'(2) by (simp add: accounts_def)
  with TakeSnapshot_resets [of r' ops now] snap have "accounts r'' []" by simp
  moreover have "list_all2 antenna_summarises (ls_antennas snap)
        (filter (\<lambda>xs. xs \<noteq> []) (map (\<lambda>i. path_samples i (primary_metas r inputs)) [0..<4]))"
    unfolding fields(1) by (rule antennas_from_summarise)
  ultimately show ?thesis using r'(1) snap fields(2-4) by blast
qed

definition video_receiver :: "nat wfb_receiver" where
  "video_receiver = the (AddStream plain_aggregator (wfb_receiver_init radio_config_default) kPortVideo)"

lemma video_receiver_simps [simp]:
  "accounts video_receiver []" "wr_primary_port video_receiver = 0" "rc_link_id (wr_radio video_receiver) = 7669206"
  "wr_sinks video_receiver 0 = Some \<lparr>sk_aggregator = 0, sk_callback = True, sk_session_seen = False\<rparr>"
  by (simp_all add: video_receiver_def AddStream_def sink_new_def plain_aggregator_def wfb_receiver_init_def
      ResetSignal_def radio_config_default_def accounts_def path_samples_def summarise_Nil kPortVideo_def Let_def
      upt_rec numeral_eq_Suc)

lemma video_receiver_classify:
  "ClassifyFrame video_receiver (air_frame (ChannelId 7669206 p) payload [0, 0, 0, 0]) = Some (uint p)"
  using ClassifyFrame_carries [of video_receiver _ p] air_frame_carries [of "[0, 0, 0, 0]"] by simp

theorem wfb_snapshot_statistics_witness:
  "\<exists>r' out r'' snap. run_steps (ProcessFrame plain_aggregator) video_receiver
      [(air_frame (ChannelId 7669206 0) [1, 2, 3] [0, 0, 0, 0], sample_meta)] = Some (r', out)
    \<and> TakeSnapshot plain_aggregator r' 1000 = (r'', snap)
    \<and> ls_num_antennas snap = 2 \<and> ls_best_rssi snap = - 50 \<and> ls_best_snr snap = 30"
proof -
  let ?in = "[(air_frame (ChannelId 7669206 0) [1, 2, 3] [0, 0, 0, 0], sample_meta)]"
  have metas: "primary_metas video_receiver ?in = [sample_meta]"
    using video_receiver_classify [of 0] by (simp add: primary_metas_def on_primary_def)
  have samples: "filter (\<lambda>xs. xs \<noteq> []) (map (\<lambda>i. path_samples i [sample_meta]) [0..<4]) = [[(0xce, 30)], [(0xc4, 22)]]"
    by (simp add: path_samples_def sample_meta_def upt_rec numeral_eq_Suc)
  have "\<forall>(frame, meta) \<in> set ?in. meta_wf meta" by (simp add: meta_wf_def sample_meta_def)
  moreover have "length ?in \<le> 2 ^ 24" "ag_RX_ANT_MAX plain_aggregator \<le> 4"
      "wr_sinks video_receiver (wr_primary_port video_receiver) \<noteq> None"
    by (simp_all add: plain_aggregator_def)
  ultimately obtain r' out r'' snap where
    run: "run_steps (ProcessFrame plain_aggregator) video_receiver ?in = Some (r', out)"
      "TakeSnapshot plain_aggregator r' 1000 = (r'', snap)"
    and sums: "list_all2 antenna_summarises (ls_antennas snap) [[(0xce, 30)], [(0xc4, 22)]]"
      "ls_num_antennas snap = int (length (ls_antennas snap))"
      "ls_best_rssi snap = Max (insert (- 105) ((\<lambda>st. sint (as_rssi_avg st)) ` set (ls_antennas snap)))"
      "ls_best_snr snap = Max (insert 0 ((\<lambda>st. sint (as_snr_avg st)) ` set (ls_antennas snap)))"
    using wfb_snapshot_statistics [OF video_receiver_simps(1), of ?in plain_aggregator 1000] unfolding metas samples
    by blast
  from sums(1) obtain a b where "ls_antennas snap = [a, b]" "sint (as_rssi_avg a) = - 50" "sint (as_rssi_avg b) = - 60"
      "sint (as_snr_avg a) = 30" "sint (as_snr_avg b) = 22"
    by (auto simp: list_all2_Cons2 antenna_summarises_def field_summary_def cdiv_def)
  with sums run show ?thesis by auto
qed

lemma routes_to_port:
  assumes "rc_link_id (wr_radio r) < 2 ^ 24" and "frame = header @ payload @ fcs" and "length header = 24" and "length fcs = 4"
    and "carries (ChannelId (rc_link_id (wr_radio r)) p) frame" and "wr_sinks r p = Some sk" and "sk_callback sk"
    and "accounts r metas" and "length metas < 2 ^ 24" and "meta_wf meta" and "ag_RX_ANT_MAX ops \<le> 4"
  shows "\<exists>r' pkt. ProcessFrame ops r (frame, meta) = Some (r', map (Pair p) (snd (ag_process ops (sk_aggregator sk) pkt)))
    \<and> rx_payload pkt = payload
    \<and> (\<forall>i < ag_RX_ANT_MAX ops. int i < fm_paths meta \<longrightarrow>
         rx_rssi pkt ! i = fm_rssi meta ! i \<and> rx_rssi pkt ! i - rx_noise pkt ! i = fm_snr meta ! i)
    \<and> (\<forall>q. q \<noteq> p \<longrightarrow> wr_sinks r' q = wr_sinks r q)"
proof -
  let ?n = "ag_RX_ANT_MAX ops"
  let ?paths = "max 1 (min (fm_paths meta) (int ?n))"
  obtain slots where slots: "those (map (rx_slot meta ?paths) [0..<?n]) = Some slots"
    using rx_slots_Some [OF assms(10,11)] by blast
  have cls: "ClassifyFrame r frame = Some (uint p)"
    using ClassifyFrame_carries [OF assms(1)] assms(5) by simp
  obtain r1 where r1: "(if p = wr_primary_port r then AccumulateSignal r meta else Some r) = Some r1" "r1 = r\<lparr>wr_paths := wr_paths r1\<rparr>"
    using AccumulateSignal_accounts [OF assms(8,10,9)] by (cases "p = wr_primary_port r") auto
  have r1_sinks: "wr_sinks r1 = wr_sinks r" using arg_cong [OF r1(2), of wr_sinks] by simp
  define pkt where "pkt = \<lparr>rx_payload = payload, rx_wlan_idx = fm_wlan_idx meta, rx_antenna = map fst slots,
      rx_rssi = map (fst \<circ> snd) slots, rx_noise = map (snd \<circ> snd) slots, rx_freq = fm_freq_mhz meta,
      rx_mcs_index = fm_mcs_index meta, rx_bandwidth = fm_bandwidth meta\<rparr>"
  obtain a ps where proc: "ag_process ops (sk_aggregator sk) pkt = (a, ps)" by force
  have span: "read_span frame 24 (length frame - 24 - 4) = Some payload"
    using assms(2-4) by simp
  have "ProcessFrame ops r (frame, meta) =
      Some (r1\<lparr>wr_sinks := (wr_sinks r1)(p \<mapsto> fst (sink_deliver (sk\<lparr>sk_aggregator := a\<rparr>) ps))\<rparr>, map (Pair p) ps)"
    using cls r1(1) span slots assms(6,7) proc [unfolded pkt_def]
    by (simp add: ProcessFrame_def sink_process_packet_def sink_deliver_eq wfb_layout_defs Let_def)
  moreover have "rx_rssi pkt ! i = fm_rssi meta ! i \<and> fm_rssi meta ! i - rx_noise pkt ! i = fm_snr meta ! i"
    if "i < ?n" "int i < fm_paths meta" for i
  proof -
    have "Some (slots ! i) = Some (of_nat i, fm_rssi meta ! i, fm_rssi meta ! i - fm_snr meta ! i)" "i < length slots"
      using those_map_nth [OF slots] that assms(10,11) by (auto simp: rx_slot_def meta_wf_def)
    then show ?thesis by (simp add: pkt_def)
  qed
  moreover have "rx_payload pkt = payload" by (simp add: pkt_def)
  ultimately show ?thesis
    using proc r1_sinks by (intro exI [of _ "r1\<lparr>wr_sinks := (wr_sinks r1)(p \<mapsto> fst (sink_deliver (sk\<lparr>sk_aggregator := a\<rparr>) ps))\<rparr>"] exI [of _ pkt]) simp
qed

text \<open>
  C18: a frame for a subscribed port reaches that port's aggregator and no other. The aggregator is given exactly the
  bytes between the 802.11 header and the frame check sequence, and the noise value of every populated path is the one
  from which it computes the driver's SNR back (RSSI minus noise, in 8-bit arithmetic); what the aggregator decodes is
  handed to the callback of that port, in order.
\<close>

theorem wfb_routes_to_port:
  assumes "rc_link_id (wr_radio r) < 2 ^ 24" and "frame = header @ payload @ fcs" and "length header = 24" and "length fcs = 4"
    and "carries (ChannelId (rc_link_id (wr_radio r)) p) frame" and "wr_sinks r p = Some sk" and "sk_callback sk"
    and "accounts r metas" and "length metas < 2 ^ 24" and "meta_wf meta" and "ag_RX_ANT_MAX ops \<le> 4"
  shows "\<exists>r' pkt. ProcessFrame ops r (frame, meta) = Some (r', map (Pair p) (snd (ag_process ops (sk_aggregator sk) pkt)))
    \<and> rx_payload pkt = payload
    \<and> (\<forall>i < ag_RX_ANT_MAX ops. int i < fm_paths meta \<longrightarrow>
         rx_rssi pkt ! i = fm_rssi meta ! i \<and> rx_rssi pkt ! i - rx_noise pkt ! i = fm_snr meta ! i)
    \<and> (\<forall>q. q \<noteq> p \<longrightarrow> wr_sinks r' q = wr_sinks r q)"
  using assms by (rule routes_to_port)

theorem wfb_routes_to_port_witness:
  "\<exists>r'. ProcessFrame plain_aggregator video_receiver
     (air_frame (ChannelId 7669206 0) [1, 2, 3] [0, 0, 0, 0], sample_meta) = Some (r', [(0, [1, 2, 3])])"
proof -
  let ?h = "take 24 (air_frame (ChannelId 7669206 0) [] [])"
  have "air_frame (ChannelId 7669206 0) [1, 2, 3] [0, 0, 0, 0] = ?h @ [1, 2, 3] @ [0, 0, 0, 0]" "length ?h = 24"
    by (simp_all add: air_frame_def be32_bytes_def)
  moreover have "carries (ChannelId 7669206 0) (air_frame (ChannelId 7669206 0) [1, 2, 3] [0, 0, 0, 0])"
    by (rule air_frame_carries) simp
  ultimately show ?thesis
    using wfb_routes_to_port [of video_receiver _ ?h "[1, 2, 3]" "[0, 0, 0, 0]" 0 _ "[]" sample_meta plain_aggregator]
    by (fastforce simp: meta_wf_def sample_meta_def plain_aggregator_def)
qed

text \<open>
  A snapshot also forgets an accepted session. \<open>session_established\<close> is documented as true once a session packet
  was decrypted, but until the first payload arrives it is derived from the session counter, which \<open>TakeSnapshot\<close>
  clears through the aggregator's \<open>clear_stats\<close>: the snapshot reports the session, the next query denies it.
\<close>

theorem wfb_snapshot_forgets_session:
  assumes "wr_sinks r (wr_primary_port r) = Some sk" and "\<not> sk_session_seen sk"
    and "cn_p_session (ag_counters ops (sk_aggregator sk)) > 0"
    and "\<And>a. cn_p_session (ag_counters ops (ag_clear_stats ops a)) = 0"
  shows "session_established ops r \<and> ls_session_established (snd (TakeSnapshot ops r now))
    \<and> \<not> session_established ops (fst (TakeSnapshot ops r now))"
  using assms
  by (auto simp: session_established_def sink_session_established_def TakeSnapshot_def ResetSignal_def Let_def split: prod.splits)

theorem wfb_snapshot_forgets_session_witness:
  "\<not> session_established plain_aggregator (fst (TakeSnapshot plain_aggregator
     (video_receiver\<lparr>wr_sinks := [0 \<mapsto> \<lparr>sk_aggregator = 1, sk_callback = True, sk_session_seen = False\<rparr>]\<rparr>) 1000))"
  using wfb_snapshot_forgets_session
    [of "video_receiver\<lparr>wr_sinks := [0 \<mapsto> \<lparr>sk_aggregator = 1, sk_callback = True, sk_session_seen = False\<rparr>]\<rparr>"
      "\<lparr>sk_aggregator = 1, sk_callback = True, sk_session_seen = False\<rparr>" plain_aggregator 1000]
  by (simp add: plain_aggregator_def)

end
