(* ===== verification/Decimal.thy ===== *)
theory Decimal
  imports Prelude
begin

section \<open>Decimal printing\<close>

text \<open>
  \<open>std::to_string\<close> and the \<open>%d\<close> and \<open>%llu\<close> conversions of \<open>snprintf\<close>: the decimal digits of a number, most
  significant first, with a minus sign for a negative one. \<open>read_nat\<close> and \<open>read_int\<close> read them back; the lemmas
  give the round trip, the length of the output and the characters it uses.
\<close>

definition digit_char :: "nat \<Rightarrow> char" where
  "digit_char d = char_of (48 + d)"

fun print_nat :: "nat \<Rightarrow> string" where
  "print_nat n = (if n < 10 then [digit_char n] else print_nat (n div 10) @ [digit_char (n mod 10)])"

declare print_nat.simps [simp del]

definition print_int :: "int \<Rightarrow> string" where
  "print_int i = (if i < 0 then CHR ''-'' # print_nat (nat (- i)) else print_nat (nat i))"

definition digit_value :: "char \<Rightarrow> nat" where
  "digit_value c = of_char c - 48"

definition read_nat :: "string \<Rightarrow> nat" where
  "read_nat s = foldl (\<lambda>n c. 10 * n + digit_value c) 0 s"

definition read_int :: "string \<Rightarrow> int" where
  "read_int s = (case s of [] \<Rightarrow> 0 | c # cs \<Rightarrow> if c = CHR ''-'' then - int (read_nat cs) else int (read_nat s))"

definition is_digit :: "char \<Rightarrow> bool" where
  "is_digit c \<longleftrightarrow> 48 \<le> (of_char c :: nat) \<and> (of_char c :: nat) \<le> 57"

lemma digit_value_char [simp]: "d < 10 \<Longrightarrow> digit_value (digit_char d) = d"
  by (simp add: digit_value_def digit_char_def)

lemma is_digit_char [simp]: "d < 10 \<Longrightarrow> is_digit (digit_char d)"
  by (simp add: is_digit_def digit_char_def)

lemma read_print_nat [simp]: "read_nat (print_nat n) = n"
proof (induction n rule: print_nat.induct)
  case (1 n)
  show ?case
  proof (cases "n < 10")
    case True
    then show ?thesis by (subst print_nat.simps) (simp add: read_nat_def)
  next
    case False
    with 1 have "foldl (\<lambda>n c. 10 * n + digit_value c) 0 (print_nat (n div 10)) = n div 10"
      by (simp add: read_nat_def)
    with False show ?thesis
      by (subst print_nat.simps) (simp add: read_nat_def)
  qed
qed

lemma print_nat_digits: "c \<in> set (print_nat n) \<Longrightarrow> is_digit c"
proof (induction n rule: print_nat.induct)
  case (1 n)
  then show ?case by (cases "n < 10") (auto simp: print_nat.simps [of n])
qed

lemma print_nat_nonempty [simp]: "print_nat n \<noteq> []"
  by (subst print_nat.simps) simp

lemma length_print_nat: "n < 10 ^ k \<Longrightarrow> 0 < k \<Longrightarrow> length (print_nat n) \<le> k"
proof (induction n arbitrary: k rule: print_nat.induct)
  case (1 n)
  show ?case
  proof (cases "n < 10")
    case True
    with 1 show ?thesis by (simp add: print_nat.simps [of n])
  next
    case False
    with 1(2,3) obtain j where k: "k = Suc j" "0 < j" by (cases k; cases "k - 1") auto
    with 1(2) have "n div 10 < 10 ^ j" by (simp add: div_less_iff_less_mult mult.commute)
    with 1(1) [OF False _ k(2)] False k show ?thesis by (simp add: print_nat.simps [of n])
  qed
qed

lemma minus_not_digit [simp]: "\<not> is_digit CHR ''-''" "\<not> is_digit CHR '':''"
  by (simp_all add: is_digit_def)

lemma read_print_int [simp]: "read_int (print_int i) = i"
proof (cases "i < 0")
  case True
  then show ?thesis by (simp add: print_int_def read_int_def)
next
  case False
  obtain c cs where pr: "print_nat (nat i) = c # cs" by (cases "print_nat (nat i)") auto
  then have "is_digit c" using print_nat_digits [of c "nat i"] by simp
  then have "c \<noteq> CHR ''-''" by auto
  with False pr read_print_nat [of "nat i"] show ?thesis by (simp add: print_int_def read_int_def)
qed

lemma print_int_chars: "c \<in> set (print_int i) \<Longrightarrow> is_digit c \<or> c = CHR ''-''"
  by (auto simp: print_int_def dest: print_nat_digits split: if_splits)

lemma print_no_colon [simp]: "CHR '':'' \<notin> set (print_nat n)" "CHR '':'' \<notin> set (print_int i)"
  using print_nat_digits print_int_chars by fastforce+

lemma length_print_int:
  assumes "- (10 ^ k) < i" and "i < 10 ^ k" and "0 < k"
  shows "length (print_int i) \<le> k + 1"
proof -
  have "nat (- i) < 10 ^ k" "nat i < 10 ^ k"
    using assms by (simp_all add: nat_less_iff)
  then show ?thesis
    using length_print_nat [OF _ assms(3)] by (fastforce simp: print_int_def intro: le_SucI)
qed

end
