(* ===== verification/Packet_Sources.thy ===== *)
theory Packet_Sources
  imports Mavlink_Router Wfb_Receiver Decimal
begin

section \<open>Packet sources\<close>

text \<open>
  Model of \<open>gslib/src/main/cpp/packet_source.h\<close>, \<open>udp_source.cpp\<close> and \<open>devourer_source.cpp\<close>: the two sources of
  frames, their start, stop, retuning and transmission, and the metadata a received packet is given.

  libusb and the devourer driver are not part of the repository. They are the record \<open>usb_ops\<close>, over a type \<open>'d\<close> of
  devices: what each call returns. The calls that acquire and release a resource of the adapter are recorded as a list
  of \<open>usb_call\<close>s. The sockets of the UDP source are decided by the record \<open>network\<close> of the router.
\<close>

subsection \<open>Channels\<close>

datatype channel_width = CHANNEL_WIDTH_5 | CHANNEL_WIDTH_10 | CHANNEL_WIDTH_20 | CHANNEL_WIDTH_40 | CHANNEL_WIDTH_80

record selected_channel =
  sc_Channel :: u8
  sc_ChannelOffset :: int
  sc_ChannelWidth :: channel_width

fun ToChannelWidth :: "bandwidth \<Rightarrow> channel_width" where
  "ToChannelWidth k5 = CHANNEL_WIDTH_5"
| "ToChannelWidth k10 = CHANNEL_WIDTH_10"
| "ToChannelWidth k40 = CHANNEL_WIDTH_40"
| "ToChannelWidth k80 = CHANNEL_WIDTH_80"
| "ToChannelWidth k20 = CHANNEL_WIDTH_20"

definition MakeChannel :: "int \<Rightarrow> bandwidth \<Rightarrow> selected_channel" where
  "MakeChannel channel bw =
     \<lparr>sc_Channel = word_of_int channel, sc_ChannelOffset = 0, sc_ChannelWidth = ToChannelWidth bw\<rparr>"

subsection \<open>The devourer source\<close>

record 'd usb_ops =
  ub_no_discovery :: bool
  ub_init :: int
  ub_wrap :: "int \<Rightarrow> int \<times> bool"
  ub_interface :: int
  ub_claim :: "int \<Rightarrow> int \<times> bool"
  ub_error_name :: "int \<Rightarrow> string"
  ub_ERROR_BUSY :: int
  ub_create :: "'d option"
  ub_InitWrite :: "'d \<Rightarrow> selected_channel \<Rightarrow> string + 'd"
  ub_SetMonitorChannel :: "'d \<Rightarrow> selected_channel \<Rightarrow> string + 'd"
  ub_send_packet :: "'d \<Rightarrow> bytes \<Rightarrow> 'd \<times> bool"

text \<open>
  Acquiring and releasing, in the order of \<open>Start\<close> and of \<open>Cleanup\<close>: the libusb context, the handle, the reference to
  the device lock that \<open>claim_interface_then_reset\<close> fills in, the driver object, the device object; and the request to
  leave the receive loop.
\<close>

datatype usb_call =
    UsbInit | UsbOpen | UsbLock | DriverNew | DeviceNew
  | StopRxLoop
  | DeviceDelete | DriverDelete | UsbUnlock | UsbClose | UsbExit

record 'd devourer_source =
  dv_radio :: radio_config
  dv_usb_fd :: int
  dv_context :: bool
  dv_handle :: bool
  dv_usb_lock :: bool
  dv_driver :: bool
  dv_device :: "'d option"
  dv_channel :: selected_channel
  dv_running :: bool
  dv_on_frame :: bool

definition MakeDevourerSource :: "radio_config \<Rightarrow> int \<Rightarrow> 'd devourer_source" where
  "MakeDevourerSource radio usb_fd =
     \<lparr>dv_radio = radio, dv_usb_fd = usb_fd, dv_context = False, dv_handle = False, dv_usb_lock = False,
      dv_driver = False, dv_device = None,
      dv_channel = \<lparr>sc_Channel = 0, sc_ChannelOffset = 0, sc_ChannelWidth = CHANNEL_WIDTH_20\<rparr>, dv_running = False,
      dv_on_frame = False\<rparr>"

definition devourer_Cleanup :: "'d devourer_source \<Rightarrow> 'd devourer_source \<times> usb_call list" where
  "devourer_Cleanup s =
     (s\<lparr>dv_device := None, dv_driver := False, dv_usb_lock := False, dv_handle := False, dv_context := False\<rparr>,
      (if dv_device s \<noteq> None then [DeviceDelete] else []) @ (if dv_driver s then [DriverDelete] else [])
      @ (if dv_usb_lock s then [UsbUnlock] else []) @ (if dv_handle s then [UsbClose] else []) @ (if dv_context s then [UsbExit] else []))"

text \<open>A failure of \<open>Start\<close> after \<open>libusb_init\<close>: the message, after \<open>Cleanup\<close>.\<close>

definition devourer_fail ::
  "'d devourer_source \<Rightarrow> usb_call list \<Rightarrow> string \<Rightarrow> 'd devourer_source \<times> usb_call list \<times> string option" where
  "devourer_fail s calls message = (case devourer_Cleanup s of (s', more_calls) \<Rightarrow> (s', calls @ more_calls, Some message))"

text \<open>\<open>Start\<close>: the third component is the error of a start that returned false.\<close>

definition devourer_Start ::
  "'d usb_ops \<Rightarrow> 'd devourer_source \<Rightarrow> 'd devourer_source \<times> usb_call list \<times> string option" where
  "devourer_Start ops s =
     (if \<not> ub_no_discovery ops then (s, [], Some ''libusb refused NO_DEVICE_DISCOVERY'')
      else if ub_init ops \<noteq> 0 then (s, [], Some (''libusb_init failed: '' @ ub_error_name ops (ub_init ops)))
      else
        let s1 = s\<lparr>dv_context := True\<rparr>; (rc, handle) = ub_wrap ops (dv_usb_fd s1);
            s2 = s1\<lparr>dv_handle := handle\<rparr>; opened = UsbInit # (if handle then [UsbOpen] else [])
        in
        if rc \<noteq> 0 \<or> \<not> handle then
          devourer_fail s2 opened (''could not adopt the USB descriptor: '' @ ub_error_name ops rc)
        else
          let (claimed, lock) = ub_claim ops (ub_interface ops);
              s3 = s2\<lparr>dv_usb_lock := lock\<rparr>; locked = opened @ (if lock then [UsbLock] else []) in
          if claimed \<noteq> 0 then
            devourer_fail s3 locked
              (if claimed = ub_ERROR_BUSY ops then ''the adapter is already in use by another app''
               else ''could not claim the adapter: '' @ ub_error_name ops claimed)
          else
            let s4 = s3\<lparr>dv_driver := True\<rparr>; driven = locked @ [DriverNew] in
            case ub_create ops of
              None \<Rightarrow> devourer_fail s4 driven ''unsupported Wi-Fi chip - devourer did not recognise it''
            | Some device \<Rightarrow>
                let s5 = s4\<lparr>dv_device := Some device,
                            dv_channel := MakeChannel (rc_channel (dv_radio s4)) (rc_bandwidth (dv_radio s4))\<rparr>;
                    created = driven @ [DeviceNew]
                in case ub_InitWrite ops device (dv_channel s5) of
                  Inl e \<Rightarrow> devourer_fail s5 created (''adapter bring-up failed: '' @ e)
                | Inr device' \<Rightarrow> (s5\<lparr>dv_device := Some device', dv_running := True\<rparr>, created, None))"

definition devourer_Stop :: "'d devourer_source \<Rightarrow> 'd devourer_source \<times> usb_call list" where
  "devourer_Stop s =
     (if \<not> dv_running s then devourer_Cleanup s
      else
        let s1 = s\<lparr>dv_running := False\<rparr>; stop = (if dv_device s1 \<noteq> None then [StopRxLoop] else [])
        in case devourer_Cleanup s1 of (s2, calls) \<Rightarrow> (s2, stop @ calls))"

definition devourer_SetChannel :: "'d usb_ops \<Rightarrow> 'd devourer_source \<Rightarrow> int \<Rightarrow> bandwidth \<Rightarrow> 'd devourer_source \<times> bool" where
  "devourer_SetChannel ops s channel bw =
     (case dv_device s of
        None \<Rightarrow> (s, False)
      | Some device \<Rightarrow>
          let s1 = s\<lparr>dv_channel := MakeChannel channel bw\<rparr> in
          case ub_SetMonitorChannel ops device (dv_channel s1) of
            Inl e \<Rightarrow> (s1, False)
          | Inr device' \<Rightarrow> (s1\<lparr>dv_device := Some device'\<rparr>, True))"

definition devourer_Transmit :: "'d usb_ops \<Rightarrow> 'd devourer_source \<Rightarrow> bytes \<Rightarrow> 'd devourer_source \<times> bool" where
  "devourer_Transmit ops s frame =
     (case dv_device s of
        None \<Rightarrow> (s, False)
      | Some device \<Rightarrow> (case ub_send_packet ops device frame of (device', ok) \<Rightarrow> (s\<lparr>dv_device := Some device'\<rparr>, ok)))"

text \<open>
  A packet of the driver, with the two entries of its attribute arrays that the code reads, and the callback of
  \<open>RxLoop\<close>: the frame and the metadata handed on, or nothing for an empty packet or without a frame callback. The other
  two slots of the metadata keep their initial zeros. \<open>RxLoop\<close> is the run of that callback over the packets the driver
  delivers until it leaves its loop or throws, which the code catches; without a device it is a null access.
\<close>

record rx_frame =
  pk_data :: bytes
  pk_rssi :: "int \<times> int"
  pk_snr :: "i8 \<times> i8"
  pk_data_rate :: int
  pk_bw :: u8

definition rx_meta_rssi :: "int \<Rightarrow> i8" where
  "rx_meta_rssi rssi = word_of_int (if rssi > 127 then - 128 else - rssi)"

definition rx_callback :: "bool \<Rightarrow> rx_frame \<Rightarrow> (bytes \<times> frame_meta) list" where
  "rx_callback on_frame packet =
     (if \<not> on_frame \<or> pk_data packet = [] then []
      else [(pk_data packet,
        \<lparr>fm_rssi = [rx_meta_rssi (fst (pk_rssi packet)), rx_meta_rssi (snd (pk_rssi packet)), 0, 0],
         fm_snr = [fst (pk_snr packet), snd (pk_snr packet), 0, 0], fm_paths = 2, fm_freq_mhz = 0,
         fm_mcs_index = word_of_int (pk_data_rate packet), fm_bandwidth = pk_bw packet, fm_wlan_idx = 0\<rparr>)])"

definition RxLoop :: "'d devourer_source \<Rightarrow> rx_frame list \<Rightarrow> (bytes \<times> frame_meta) list option" where
  "RxLoop s packets =
     (case dv_device s of None \<Rightarrow> None | Some device \<Rightarrow> Some (concat (map (rx_callback (dv_on_frame s)) packets)))"

subsection \<open>The UDP source\<close>

record udp_source =
  ud_config :: udp_source_config
  ud_fd :: int
  ud_running :: bool
  ud_on_datagram :: bool

definition MakeUdpSource :: "udp_source_config \<Rightarrow> udp_source" where
  "MakeUdpSource config = \<lparr>ud_config = config, ud_fd = - 1, ud_running = False, ud_on_datagram = False\<rparr>"

text \<open>\<open>Start\<close>, with the descriptors it closes; an address the source cannot parse fails before \<open>bind\<close>.\<close>

definition udp_Start :: "network \<Rightarrow> udp_source \<Rightarrow> udp_source \<times> int list \<times> string option" where
  "udp_Start net s =
     (let fd = nt_socket net 0; s1 = s\<lparr>ud_fd := fd\<rparr>; config = ud_config s1; closed_source = s1\<lparr>ud_fd := - 1\<rparr> in
      if fd < 0 then (s1, [], Some ''could not create the video socket'')
      else
        let port = (word_of_int (us_video_port config) :: u16);
            ip = (if us_bind_addr config = '''' \<or> us_bind_addr config = ''0.0.0.0'' then Some 0
                  else nt_pton net (us_bind_addr config))
        in case ip of
          None \<Rightarrow> (closed_source, [fd], Some (''invalid bind address: '' @ us_bind_addr config))
        | Some a \<Rightarrow>
            if \<not> nt_bind net fd (a, port)
            then (closed_source, [fd], Some (''could not bind UDP port '' @ print_int (us_video_port config)))
            else (s1\<lparr>ud_running := True\<rparr>, [], None))"

definition udp_Stop :: "udp_source \<Rightarrow> udp_source \<times> int list" where
  "udp_Stop s =
     (if \<not> ud_running s then (s, [])
      else let s1 = s\<lparr>ud_running := False\<rparr> in
        if ud_fd s1 \<ge> 0 then (s1\<lparr>ud_fd := - 1\<rparr>, [ud_fd s1]) else (s1, []))"

text \<open>
  One round of the receive loop: \<open>ready\<close> is the result of \<open>poll\<close>, \<open>received\<close> what \<open>recv\<close> gave (\<open>None\<close> an error). The
  result is the datagram for the callback. \<open>udp_Loop\<close> is the whole loop: each round starts with the value of \<open>running_\<close>
  it reads, which another thread may have cleared, and the second component of the result tells whether the loop
  returned.
\<close>

definition udp_loop_step :: "bool \<Rightarrow> int \<Rightarrow> bytes option \<Rightarrow> bytes list" where
  "udp_loop_step on_datagram ready received_data =
     (if ready \<le> 0 then []
      else case received_data of None \<Rightarrow> [] | Some [] \<Rightarrow> [] | Some data \<Rightarrow> (if on_datagram then [data] else []))"

fun udp_Loop :: "udp_source \<Rightarrow> (bool \<times> int \<times> bytes option) list \<Rightarrow> bytes list \<times> bool" where
  "udp_Loop s [] = ([], False)"
| "udp_Loop s ((running, ready, received_data) # rounds) =
     (if \<not> running then ([], True)
      else case udp_Loop s rounds of (out, returned) \<Rightarrow>
        (udp_loop_step (ud_on_datagram s) ready received_data @ out, returned))"

subsection \<open>The common interface\<close>

text \<open>\<open>PacketSource\<close>: the two implementations and the dispatch of its virtual functions.\<close>

datatype 'd packet_source = UdpSource udp_source | DevourerSource "'d devourer_source"

datatype source_call = Usb usb_call | CloseSocket int

fun source_Start :: "network \<Rightarrow> 'd usb_ops \<Rightarrow> 'd packet_source \<Rightarrow> 'd packet_source \<times> source_call list \<times> string option" where
  "source_Start net ops (UdpSource s) = (case udp_Start net s of (s', fds, err) \<Rightarrow> (UdpSource s', map CloseSocket fds, err))"
| "source_Start net ops (DevourerSource s) =
     (case devourer_Start ops s of (s', calls, err) \<Rightarrow> (DevourerSource s', map Usb calls, err))"

fun source_Stop :: "'d packet_source \<Rightarrow> 'd packet_source \<times> source_call list" where
  "source_Stop (UdpSource s) = (case udp_Stop s of (s', fds) \<Rightarrow> (UdpSource s', map CloseSocket fds))"
| "source_Stop (DevourerSource s) = (case devourer_Stop s of (s', calls) \<Rightarrow> (DevourerSource s', map Usb calls))"

text \<open>The callbacks of the base class; each source reads only its own.\<close>

fun set_frame_callback :: "'d packet_source \<Rightarrow> 'd packet_source" where
  "set_frame_callback (UdpSource s) = UdpSource s"
| "set_frame_callback (DevourerSource s) = DevourerSource (s\<lparr>dv_on_frame := True\<rparr>)"

fun set_datagram_callback :: "'d packet_source \<Rightarrow> 'd packet_source" where
  "set_datagram_callback (UdpSource s) = UdpSource (s\<lparr>ud_on_datagram := True\<rparr>)"
| "set_datagram_callback (DevourerSource s) = DevourerSource s"

fun source_SetChannel :: "'d usb_ops \<Rightarrow> 'd packet_source \<Rightarrow> int \<Rightarrow> bandwidth \<Rightarrow> 'd packet_source \<times> bool" where
  "source_SetChannel ops (UdpSource s) channel bw = (UdpSource s, False)"
| "source_SetChannel ops (DevourerSource s) channel bw =
     (case devourer_SetChannel ops s channel bw of (s', ok) \<Rightarrow> (DevourerSource s', ok))"

fun source_Transmit :: "'d usb_ops \<Rightarrow> 'd packet_source \<Rightarrow> bytes \<Rightarrow> 'd packet_source \<times> bool" where
  "source_Transmit ops (UdpSource s) frame = (UdpSource s, False)"
| "source_Transmit ops (DevourerSource s) frame = (case devourer_Transmit ops s frame of (s', ok) \<Rightarrow> (DevourerSource s', ok))"

subsection \<open>The contract of a source\<close>

text \<open>
  What the ground station relies on: \<open>holds\<close> tells whether a source holds a socket or a libusb resource. A start that fails gives back
  everything it took; stopping, from any state, gives back everything held. A client that starts, uses and stops a
  source then holds nothing.
\<close>

locale source_contract =
  fixes start :: "'s \<Rightarrow> 's \<times> string option"
    and stop :: "'s \<Rightarrow> 's"
    and holds :: "'s \<Rightarrow> bool"
    and inv :: "'s \<Rightarrow> bool"
  assumes start_inv: "inv s \<Longrightarrow> \<not> holds s \<Longrightarrow> inv (fst (start s))"
    and failed_start: "inv s \<Longrightarrow> \<not> holds s \<Longrightarrow> snd (start s) = Some e \<Longrightarrow> \<not> holds (fst (start s))"
    and stop_releases: "inv s \<Longrightarrow> \<not> holds (stop s)"
    and stop_inv: "inv s \<Longrightarrow> inv (stop s)"
begin

lemma session_releases:
  assumes "inv s" and "\<not> holds s"
  shows "\<not> holds (case start s of (s', None) \<Rightarrow> stop s' | (s', Some e) \<Rightarrow> s')"
  using start_inv [OF assms] failed_start [OF assms] stop_releases
  by (cases "start s"; cases "snd (start s)") auto

end

fun source_holds :: "'d packet_source \<Rightarrow> bool" where
  "source_holds (UdpSource s) \<longleftrightarrow> 0 \<le> ud_fd s"
| "source_holds (DevourerSource s) \<longleftrightarrow> dv_context s \<or> dv_handle s \<or> dv_usb_lock s \<or> dv_driver s \<or> dv_device s \<noteq> None"

fun source_inv :: "'d packet_source \<Rightarrow> bool" where
  "source_inv (UdpSource s) \<longleftrightarrow> (ud_running s \<longleftrightarrow> 0 \<le> ud_fd s)"
| "source_inv (DevourerSource s) \<longleftrightarrow>
     (dv_running s \<longleftrightarrow> dv_device s \<noteq> None) \<and> (dv_device s \<noteq> None \<longrightarrow> dv_driver s)
     \<and> (dv_driver s \<or> dv_usb_lock s \<longrightarrow> dv_handle s) \<and> (dv_handle s \<longrightarrow> dv_context s)"

text \<open>The call that gives back what a call acquired.\<close>

fun released_by :: "usb_call \<Rightarrow> usb_call" where
  "released_by UsbInit = UsbExit"
| "released_by UsbOpen = UsbClose"
| "released_by UsbLock = UsbUnlock"
| "released_by DriverNew = DriverDelete"
| "released_by DeviceNew = DeviceDelete"
| "released_by c = c"

definition acquired :: "usb_call list \<Rightarrow> usb_call list" where
  "acquired calls = filter (\<lambda>c. c \<in> {UsbInit, UsbOpen, UsbLock, DriverNew, DeviceNew}) calls"

text \<open>What a source holds, as the calls that acquired it.\<close>

definition held_calls :: "'d devourer_source \<Rightarrow> usb_call list" where
  "held_calls s = (if dv_context s then [UsbInit] else []) @ (if dv_handle s then [UsbOpen] else [])
     @ (if dv_usb_lock s then [UsbLock] else []) @ (if dv_driver s then [DriverNew] else [])
     @ (if dv_device s \<noteq> None then [DeviceNew] else [])"

lemma acquired_held [simp]:
  "acquired (held_calls s) = held_calls s" "acquired (map released_by (rev (held_calls s))) = []"
  by (simp_all add: acquired_def held_calls_def)

lemma acquired_append [simp]: "acquired (xs @ ys) = acquired xs @ acquired ys"
  by (simp add: acquired_def)

lemma Cleanup_releases:
  "snd (devourer_Cleanup s) = map released_by (rev (held_calls s))"
  "\<not> source_holds (DevourerSource (fst (devourer_Cleanup s)))" "dv_running (fst (devourer_Cleanup s)) = dv_running s"
  by (auto simp: devourer_Cleanup_def held_calls_def)

lemma Stop_releases_source:
  "\<not> source_holds (DevourerSource (fst (devourer_Stop s)))" "\<not> dv_running (fst (devourer_Stop s))"
  "dv_running s \<Longrightarrow> dv_device s \<noteq> None \<Longrightarrow> snd (devourer_Stop s) = StopRxLoop # map released_by (rev (held_calls s))"
  "\<not> dv_running s \<Longrightarrow> \<not> source_holds (DevourerSource s) \<Longrightarrow> snd (devourer_Stop s) = []"
  by (auto simp: devourer_Stop_def devourer_Cleanup_def held_calls_def)

text \<open>What a start may end in: everything acquired and the loop running, or everything given back.\<close>

definition start_outcome :: "'d devourer_source \<Rightarrow> 'd devourer_source \<times> usb_call list \<times> string option \<Rightarrow> bool" where
  "start_outcome s outcome \<longleftrightarrow> (case outcome of (s', calls, err) \<Rightarrow>
     if err = None
     then dv_running s' \<and> source_inv (DevourerSource s') \<and> calls = held_calls s' \<and> dv_on_frame s' = dv_on_frame s
       \<and> dv_channel s' = MakeChannel (rc_channel (dv_radio s)) (rc_bandwidth (dv_radio s))
     else \<not> dv_running s' \<and> \<not> source_holds (DevourerSource s') \<and> calls = acquired calls @ map released_by (rev (acquired calls)))"

lemma fail_outcome: "\<not> dv_running s \<Longrightarrow> calls = held_calls s \<Longrightarrow> start_outcome s0 (devourer_fail s calls message)"
  using Cleanup_releases [of s] by (auto simp: start_outcome_def devourer_fail_def split: prod.split)

lemma devourer_Start_spec:
  assumes "\<not> source_holds (DevourerSource s)" and "\<not> dv_running s"
  shows "start_outcome s (devourer_Start ops s)"
proof -
  obtain rc handle claimed lock where w: "ub_wrap ops (dv_usb_fd s) = (rc, handle)" "ub_claim ops (ub_interface ops) = (claimed, lock)"
    by force
  have early: "start_outcome s (s, [], Some e)" for e
    using assms by (simp add: start_outcome_def acquired_def)
  consider "\<not> ub_no_discovery ops" | "ub_no_discovery ops" "ub_init ops \<noteq> 0"
    | "ub_no_discovery ops" "ub_init ops = 0" "rc \<noteq> 0 \<or> \<not> handle"
    | "ub_no_discovery ops" "ub_init ops = 0" "rc = 0" "handle" "claimed \<noteq> 0"
    | "ub_no_discovery ops" "ub_init ops = 0" "rc = 0" "handle" "claimed = 0" by blast
  then show ?thesis
  proof cases
    case 3
    then show ?thesis using assms
      by (cases handle) (simp_all add: devourer_Start_def w Let_def, (rule fail_outcome; simp add: held_calls_def)+)
  next
    case 4
    then show ?thesis using assms
      by (cases lock; cases "claimed = ub_ERROR_BUSY ops")
         (simp_all add: devourer_Start_def w Let_def, (rule fail_outcome; simp add: held_calls_def)+)
  next
    case 5
    show ?thesis
    proof (cases "ub_create ops")
      case None
      with 5 assms show ?thesis
        by (cases lock) (simp_all add: devourer_Start_def w Let_def, (rule fail_outcome; simp add: held_calls_def)+)
    next
      case (Some device)
      show ?thesis
      proof (cases "ub_InitWrite ops device (MakeChannel (rc_channel (dv_radio s)) (rc_bandwidth (dv_radio s)))")
        case (Inl e)
        with 5 Some assms show ?thesis
        by (cases lock) (simp_all add: devourer_Start_def w Let_def, (rule fail_outcome; simp add: held_calls_def)+)
      next
        case (Inr device')
        with 5 Some assms show ?thesis by (simp add: devourer_Start_def w Let_def start_outcome_def held_calls_def)
      qed
    qed
  qed (simp_all add: devourer_Start_def early)
qed

interpretation source: source_contract
  "\<lambda>s. case source_Start net ops s of (s', calls, err) \<Rightarrow> (s', err)" "\<lambda>s. fst (source_Stop s)" source_holds source_inv
  for net ops
proof (unfold_locales, goal_cases)
  case (1 s)
  then show ?case
  proof (cases s)
    case (DevourerSource d)
    with 1 devourer_Start_spec [of d ops] show ?thesis
      by (auto simp: start_outcome_def split: prod.splits if_splits)
  qed (auto simp: udp_Start_def Let_def split: option.split)
next
  case (2 s e)
  then show ?case
  proof (cases s)
    case (DevourerSource d)
    with 2 devourer_Start_spec [of d ops] show ?thesis
      by (auto simp: start_outcome_def split: prod.splits if_splits)
  qed (auto simp: udp_Start_def Let_def split: option.splits if_splits)
next
  case (3 s)
  then show ?case
    using Stop_releases_source(1) by (cases s) (auto simp: udp_Stop_def Let_def split_def)
next
  case (4 s)
  then show ?case
    using Stop_releases_source(1,2) by (cases s) (auto simp: udp_Stop_def Let_def split_def)
qed

subsection \<open>Properties\<close>

text \<open>
  C33: a new devourer source that is started and stopped releases everything it acquired (libusb context, handle, device
  lock, driver, device), once and in the reverse order. At whichever step a start fails, it has by then released what it
  had acquired, and stopping the source adds nothing. A start that reports success has the adapter tuned to the
  configured channel, and stopping it leaves the receive loop before anything is released.
\<close>

theorem source_session_balanced:
  assumes "devourer_Start ops (MakeDevourerSource radio usb_fd) = (s, opened, err)" and "devourer_Stop s = (s', shut)"
  shows "(case err of
        None \<Rightarrow> opened = acquired opened \<and> shut = StopRxLoop # map released_by (rev opened)
          \<and> dv_running s \<and> dv_channel s = MakeChannel (rc_channel radio) (rc_bandwidth radio)
      | Some e \<Rightarrow> opened = acquired opened @ map released_by (rev (acquired opened)) \<and> shut = []
          \<and> \<not> source_holds (DevourerSource s))
    \<and> \<not> source_holds (DevourerSource s')"
proof -
  have "start_outcome (MakeDevourerSource radio usb_fd) (s, opened, err)"
    using devourer_Start_spec [of "MakeDevourerSource radio usb_fd" ops] assms(1) by (simp add: MakeDevourerSource_def)
  then show ?thesis
    using assms(2) Stop_releases_source [of s] by (auto simp: start_outcome_def MakeDevourerSource_def split: option.split)
qed

definition working_usb :: "nat usb_ops" where
  "working_usb =
     \<lparr>ub_no_discovery = True, ub_init = 0, ub_wrap = (\<lambda>fd. (0, True)), ub_interface = 0, ub_claim = (\<lambda>i. (0, True)),
      ub_error_name = (\<lambda>rc. []), ub_ERROR_BUSY = - 6, ub_create = Some 0, ub_InitWrite = (\<lambda>d ch. Inr d),
      ub_SetMonitorChannel = (\<lambda>d ch. Inr d), ub_send_packet = (\<lambda>d f. (Suc d, True))\<rparr>"

lemma working_start:
  "devourer_Start working_usb (MakeDevourerSource radio fd) =
     ((MakeDevourerSource radio fd)\<lparr>dv_context := True, dv_handle := True, dv_usb_lock := True, dv_driver := True,
        dv_device := Some 0, dv_channel := MakeChannel (rc_channel radio) (rc_bandwidth radio), dv_running := True\<rparr>,
      [UsbInit, UsbOpen, UsbLock, DriverNew, DeviceNew], None)"
  by (simp add: devourer_Start_def working_usb_def MakeDevourerSource_def Let_def)

lemma working_start_framed:
  "devourer_Start working_usb ((MakeDevourerSource radio fd)\<lparr>dv_on_frame := True\<rparr>) =
     ((MakeDevourerSource radio fd)\<lparr>dv_context := True, dv_handle := True, dv_usb_lock := True, dv_driver := True,
        dv_device := Some 0, dv_channel := MakeChannel (rc_channel radio) (rc_bandwidth radio), dv_running := True,
        dv_on_frame := True\<rparr>,
      [UsbInit, UsbOpen, UsbLock, DriverNew, DeviceNew], None)"
  by (simp add: devourer_Start_def working_usb_def MakeDevourerSource_def Let_def)

theorem source_session_balanced_witness:
  "snd (devourer_Stop (fst (devourer_Start working_usb (MakeDevourerSource radio_config_default 7))))
     = [StopRxLoop, DeviceDelete, DriverDelete, UsbUnlock, UsbClose, UsbExit]"
  using source_session_balanced [OF working_start surjective_pairing, of radio_config_default 7]
  by (simp add: working_start)

text \<open>
  The signal strength a received frame is given is the negated dBm magnitude of the driver, saturated at the
  lowest 8-bit value instead of wrapping around to a positive one.
\<close>

theorem source_rssi_saturates:
  assumes "0 \<le> rssi"
  shows "sint (rx_meta_rssi rssi) = - min rssi 128"
  using assms sint_word_of_int8 [of "- rssi"] sint_word_of_int8 [of "- 128"] by (simp add: rx_meta_rssi_def)

theorem source_rssi_saturates_witness: "sint (rx_meta_rssi 200) = - 128"
  using source_rssi_saturates [of 200] by simp

end
