(* ===== verification/Rtp.thy ===== *)
theory Rtp
  imports Prelude
begin

section \<open>RTP depacketiser\<close>

text \<open>
  \<^verbatim>\<open>core/src/rtp/depacketizer.cpp\<close>: RTP packets that carry H.264 (RFC 6184) or H.265 (RFC 7798) become
  Annex-B NAL units. \<open>depacketizer\<close> is the state of class \<open>RtpDepacketizer\<close>, \<open>rtp_Push\<close> its \<open>Push\<close>, which
  returns the new state, the NAL units given to the callback and the result of the call. \<open>ParseRtp\<close> and
  \<open>DetectCodec\<close> return \<open>None\<close> for a fault and \<open>Some\<close> of the result otherwise. The scratch buffer
  \<open>out_\<close>, which only holds the NAL unit during the callback, is the \<open>nu_data\<close> of the unit.

  Shown: no packet makes the depacketiser read outside it; a fragmented NAL unit is rebuilt exactly from an
  unbroken sequence and never from a broken one; aggregation packets are split into the units they hold; CSRC
  list, header extension and padding are stripped; and what \<open>DetectCodec\<close> decides.
\<close>

subsection \<open>Data\<close>

definition kRtpHeaderSize :: nat where [simp]: "kRtpHeaderSize = 12"
definition kStartCode :: bytes where "kStartCode = [0x00, 0x00, 0x00, 0x01]"

datatype video_codec = kUnknown | kH264 | kH265

record nal_unit =
  nu_data :: bytes
  nu_rtp_timestamp :: u32
  nu_marker :: bool

record rtp_header =
  rh_payload_type :: u8
  rh_sequence :: u16
  rh_timestamp :: u32
  rh_marker :: bool
  rh_payload_offset :: nat

record depacketizer =
  dp_codec :: video_codec
  dp_callback :: bool
  dp_fragment :: bytes
  dp_in_fragment :: bool
  dp_expected_seq :: u16
  dp_packets :: u64
  dp_nals :: u64
  dp_dropped :: u64
  dp_broken_fragments :: u64

definition depacketizer_init :: "video_codec \<Rightarrow> depacketizer" where
  "depacketizer_init codec =
     \<lparr>dp_codec = codec, dp_callback = False, dp_fragment = [], dp_in_fragment = False, dp_expected_seq = 0,
      dp_packets = 0, dp_nals = 0, dp_dropped = 0, dp_broken_fragments = 0\<rparr>"

definition depacketizer_set_callback :: "depacketizer \<Rightarrow> depacketizer" where
  "depacketizer_set_callback s = s\<lparr>dp_callback := True\<rparr>"

definition depacketizer_set_codec :: "depacketizer \<Rightarrow> video_codec \<Rightarrow> depacketizer" where
  "depacketizer_set_codec s codec = s\<lparr>dp_codec := codec\<rparr>"

subsection \<open>Parsing the packet\<close>

definition skip_extension :: "bytes \<Rightarrow> nat \<Rightarrow> bool \<Rightarrow> nat option option" where
  "skip_extension data offset extension =
     (if extension then
        (if offset + 4 > length data then Some None
         else do {
           e2 \<leftarrow> read8 data (offset + 2);
           e3 \<leftarrow> read8 data (offset + 3);
           let ext_words = unat (be16 e2 e3);
           let offset' = offset + (4 + ext_words * 4);
           Some (if offset' > length data then None else Some offset')
         })
      else Some (Some offset))"

definition padding_ok :: "bytes \<Rightarrow> nat \<Rightarrow> bool \<Rightarrow> bool option" where
  "padding_ok data offset padding =
     (if padding then
        (if length data = 0 then Some False
         else do {
           pad \<leftarrow> read8 data (length data - 1);
           Some (\<not> (pad = 0 \<or> offset + unat pad > length data))
         })
      else Some True)"

definition ParseRtp :: "bytes \<Rightarrow> rtp_header option option" where
  "ParseRtp data =
     (if length data < kRtpHeaderSize then Some None
      else do {
        d0 \<leftarrow> read8 data 0;
        if drop_bit 6 d0 AND 0x03 \<noteq> 2 then Some None
        else do {
          let padding = (d0 AND 0x20 \<noteq> 0);
          let extension = (d0 AND 0x10 \<noteq> 0);
          let csrc_count = d0 AND 0x0f;
          d1 \<leftarrow> read8 data 1;
          d2 \<leftarrow> read8 data 2;
          d3 \<leftarrow> read8 data 3;
          d4 \<leftarrow> read8 data 4;
          d5 \<leftarrow> read8 data 5;
          d6 \<leftarrow> read8 data 6;
          d7 \<leftarrow> read8 data 7;
          let offset = kRtpHeaderSize + unat csrc_count * 4;
          if offset > length data then Some None
          else do {
            ext \<leftarrow> skip_extension data offset extension;
            (case ext of
               None \<Rightarrow> Some None
             | Some offset' \<Rightarrow> do {
                 ok \<leftarrow> padding_ok data offset' padding;
                 Some (if ok
                   then Some \<lparr>rh_payload_type = d1 AND 0x7f, rh_sequence = be16 d2 d3,
                              rh_timestamp = be32 d4 d5 d6 d7, rh_marker = (d1 AND 0x80 \<noteq> 0),
                              rh_payload_offset = offset'\<rparr>
                   else None)
               })
          }
        }
      })"

definition PayloadSize :: "bytes \<Rightarrow> nat \<Rightarrow> nat option" where
  "PayloadSize data offset = do {
     d0 \<leftarrow> read8 data 0;
     end_pos \<leftarrow> (if d0 AND 0x20 \<noteq> 0 \<and> length data > 0 then do {
         pad \<leftarrow> read8 data (length data - 1);
         Some (if unat pad > 0 \<and> offset + unat pad \<le> length data then length data - unat pad else length data)
       } else Some (length data));
     Some (if end_pos > offset then end_pos - offset else 0)
   }"

definition DetectCodec :: "bytes \<Rightarrow> video_codec option" where
  "DetectCodec data = do {
     header \<leftarrow> ParseRtp data;
     (case header of
        None \<Rightarrow> Some kUnknown
      | Some h \<Rightarrow> do {
          payload_size \<leftarrow> PayloadSize data (rh_payload_offset h);
          if payload_size < 2 then Some kUnknown
          else do {
            p0 \<leftarrow> read8 data (rh_payload_offset h);
            p1 \<leftarrow> read8 data (rh_payload_offset h + 1);
            let h265_type = drop_bit 1 p0 AND 0x3f;
            let h265_tid = p1 AND 0x07;
            let h264_type = p0 AND 0x1f;
            Some (if p0 AND 0x80 = 0 \<and> h265_tid \<noteq> 0
                     \<and> (h265_type \<le> 40 \<or> h265_type = 48 \<or> h265_type = 49) then kH265
                  else if p0 AND 0x80 = 0 \<and> h264_type \<noteq> 0
                     \<and> (h264_type \<le> 23 \<or> h264_type = 24 \<or> h264_type = 28) then kH264
                  else kUnknown)
          }
        })
   }"

subsection \<open>Emitting and reassembling\<close>

definition ResetFragment :: "depacketizer \<Rightarrow> depacketizer" where
  "ResetFragment s = s\<lparr>dp_fragment := [], dp_in_fragment := False\<rparr>"

definition EmitNal :: "depacketizer \<Rightarrow> bytes \<Rightarrow> u32 \<Rightarrow> bool \<Rightarrow> depacketizer \<times> nal_unit list" where
  "EmitNal s payload timestamp marker =
     (if payload = [] \<or> \<not> dp_callback s then (s, [])
      else (s\<lparr>dp_nals := dp_nals s + 1\<rparr>,
            [\<lparr>nu_data = kStartCode @ payload, nu_rtp_timestamp = timestamp, nu_marker = marker\<rparr>]))"

text \<open>The loop over \<open>[size][nal]\<close> pairs of a STAP-A (H.264) or AP (H.265) packet.\<close>

function aggregation_loop ::
  "depacketizer \<Rightarrow> bytes \<Rightarrow> nat \<Rightarrow> u32 \<Rightarrow> bool \<Rightarrow> (depacketizer \<times> nal_unit list \<times> bool) option" where
  "aggregation_loop s payload offset timestamp marker =
     (if offset + 2 \<le> length payload then
        (case (read8 payload offset, read8 payload (offset + 1)) of
           (Some hi, Some lo) \<Rightarrow>
             (let nal_size = unat (be16 hi lo); offset1 = offset + 2 in
              if nal_size = 0 \<or> offset1 + nal_size > length payload
              then Some (s\<lparr>dp_dropped := dp_dropped s + 1\<rparr>, [], False)
              else (case read_span payload offset1 nal_size of
                      None \<Rightarrow> None
                    | Some nal \<Rightarrow>
                        (case EmitNal s nal timestamp marker of (s1, out1) \<Rightarrow>
                           (case aggregation_loop s1 payload (offset1 + nal_size) timestamp marker of
                              None \<Rightarrow> None
                            | Some (s2, out2, ok) \<Rightarrow> Some (s2, out1 @ out2, ok)))))
         | _ \<Rightarrow> None)
      else Some (s, [], True))"
  by pat_completeness auto
termination
  by (relation "measure (\<lambda>(s, payload, offset, timestamp, marker). length payload - offset)") auto

declare aggregation_loop.simps [simp del]

text \<open>
  The tail of the FU-A and FU branches: append the fragment's bytes and, on the end bit, emit the
  reassembled unit and reset.
\<close>

definition append_fragment ::
  "depacketizer \<Rightarrow> bytes \<Rightarrow> bool \<Rightarrow> u32 \<Rightarrow> bool \<Rightarrow> depacketizer \<times> nal_unit list \<times> bool" where
  "append_fragment s body end_bit timestamp marker =
     (let s1 = s\<lparr>dp_fragment := dp_fragment s @ body\<rparr> in
      if end_bit then
        (case EmitNal s1 (dp_fragment s1) timestamp marker of (s2, out) \<Rightarrow> (ResetFragment s2, out, True))
      else (s1, [], True))"

definition HandleH264 ::
  "depacketizer \<Rightarrow> bytes \<Rightarrow> u32 \<Rightarrow> bool \<Rightarrow> (depacketizer \<times> nal_unit list \<times> bool) option" where
  "HandleH264 s payload timestamp marker =
     (if length payload < 1 then Some (s, [], False)
      else do {
        p0 \<leftarrow> read8 payload 0;
        let nal_type = p0 AND 0x1f;
        if nal_type \<ge> 1 \<and> nal_type \<le> 23 then
          Some (case EmitNal s payload timestamp marker of (s1, out) \<Rightarrow> (s1, out, True))
        else if nal_type = 24 then aggregation_loop s payload 1 timestamp marker
        else if nal_type = 28 then
          (if length payload < 2 then Some (s, [], False)
           else do {
             fu_header \<leftarrow> read8 payload 1;
             let start = (fu_header AND 0x80 \<noteq> 0);
             let end_bit = (fu_header AND 0x40 \<noteq> 0);
             let real_type = fu_header AND 0x1f;
             body \<leftarrow> read_span payload 2 (length payload - 2);
             if start then
               Some (append_fragment
                 (s\<lparr>dp_fragment := [(p0 AND 0xe0) OR real_type], dp_in_fragment := True\<rparr>)
                 body end_bit timestamp marker)
             else if \<not> dp_in_fragment s then
               Some (s\<lparr>dp_broken_fragments := dp_broken_fragments s + 1\<rparr>, [], False)
             else Some (append_fragment s body end_bit timestamp marker)
           })
        else Some (s\<lparr>dp_dropped := dp_dropped s + 1\<rparr>, [], False)
      })"

definition HandleH265 ::
  "depacketizer \<Rightarrow> bytes \<Rightarrow> u32 \<Rightarrow> bool \<Rightarrow> (depacketizer \<times> nal_unit list \<times> bool) option" where
  "HandleH265 s payload timestamp marker =
     (if length payload < 2 then Some (s, [], False)
      else do {
        p0 \<leftarrow> read8 payload 0;
        let nal_type = drop_bit 1 p0 AND 0x3f;
        if nal_type \<le> 47 then
          Some (case EmitNal s payload timestamp marker of (s1, out) \<Rightarrow> (s1, out, True))
        else if nal_type = 48 then aggregation_loop s payload 2 timestamp marker
        else if nal_type = 49 then
          (if length payload < 3 then Some (s, [], False)
           else do {
             fu_header \<leftarrow> read8 payload 2;
             let start = (fu_header AND 0x80 \<noteq> 0);
             let end_bit = (fu_header AND 0x40 \<noteq> 0);
             let real_type = fu_header AND 0x3f;
             p1 \<leftarrow> read8 payload 1;
             body \<leftarrow> read_span payload 3 (length payload - 3);
             if start then
               Some (append_fragment
                 (s\<lparr>dp_fragment := [(p0 AND 0x81) OR push_bit 1 real_type, p1], dp_in_fragment := True\<rparr>)
                 body end_bit timestamp marker)
             else if \<not> dp_in_fragment s then
               Some (s\<lparr>dp_broken_fragments := dp_broken_fragments s + 1\<rparr>, [], False)
             else Some (append_fragment s body end_bit timestamp marker)
           })
        else Some (s\<lparr>dp_dropped := dp_dropped s + 1\<rparr>, [], False)
      })"

subsection \<open>Push\<close>

text \<open>A gap in the RTP sequence while a fragmented unit is in flight abandons the unit.\<close>

definition check_sequence :: "depacketizer \<Rightarrow> u16 \<Rightarrow> depacketizer" where
  "check_sequence s sequence =
     (let s1 = (if dp_in_fragment s \<and> sequence \<noteq> dp_expected_seq s
                then ResetFragment (s\<lparr>dp_broken_fragments := dp_broken_fragments s + 1\<rparr>) else s)
      in s1\<lparr>dp_expected_seq := sequence + 1\<rparr>)"

definition dispatch_payload ::
  "depacketizer \<Rightarrow> bytes \<Rightarrow> bytes \<Rightarrow> rtp_header \<Rightarrow> (depacketizer \<times> nal_unit list \<times> bool) option" where
  "dispatch_payload s data payload h = do {
     s1 \<leftarrow> (if dp_codec s = kUnknown then map_option (depacketizer_set_codec s) (DetectCodec data) else Some s);
     if dp_codec s1 = kUnknown then Some (s1\<lparr>dp_dropped := dp_dropped s1 + 1\<rparr>, [], False)
     else if dp_codec s1 = kH264 then HandleH264 s1 payload (rh_timestamp h) (rh_marker h)
     else HandleH265 s1 payload (rh_timestamp h) (rh_marker h)
   }"

definition rtp_Push :: "depacketizer \<Rightarrow> bytes \<Rightarrow> (depacketizer \<times> nal_unit list \<times> bool) option" where
  "rtp_Push s0 data = do {
     let s = s0\<lparr>dp_packets := dp_packets s0 + 1\<rparr>;
     header \<leftarrow> ParseRtp data;
     (case header of
        None \<Rightarrow> Some (s\<lparr>dp_dropped := dp_dropped s + 1\<rparr>, [], False)
      | Some h \<Rightarrow> do {
          payload_size \<leftarrow> PayloadSize data (rh_payload_offset h);
          if payload_size = 0 then Some (s\<lparr>dp_dropped := dp_dropped s + 1\<rparr>, [], False)
          else do {
            payload \<leftarrow> read_span data (rh_payload_offset h) payload_size;
            dispatch_payload (check_sequence s (rh_sequence h)) data payload h
          }
        })
   }"

text \<open>The caller (\<open>GroundStation::OnVideoPayload\<close>) ignores the result of \<open>Push\<close>.\<close>

definition OnVideoPayload :: "depacketizer \<Rightarrow> bytes \<Rightarrow> (depacketizer \<times> nal_unit list) option" where
  "OnVideoPayload s data = map_option (\<lambda>(s', out, ok). (s', out)) (rtp_Push s data)"

subsection \<open>No read outside the packet\<close>

lemma skip_extension_safe: "\<exists>r. skip_extension data off e = Some r"
  by (simp add: skip_extension_def Let_def)

lemma skip_extension_le:
  "skip_extension data off e = Some (Some off') \<Longrightarrow> off \<le> length data \<Longrightarrow> off \<le> off' \<and> off' \<le> length data"
  by (auto simp: skip_extension_def Let_def split: if_splits Option.bind_splits)

lemma padding_ok_safe: "\<exists>b. padding_ok data off p = Some b"
  by (auto simp: padding_ok_def)

text \<open>What \<open>ParseRtp\<close> computes on a packet that is long enough for the fixed header.\<close>

lemma ParseRtp_long:
  assumes "12 \<le> length data"
  shows "ParseRtp data =
    (if drop_bit 6 (data ! 0) AND 0x03 \<noteq> 2 then Some None
     else
       let offset = 12 + unat (data ! 0 AND 0x0f) * 4 in
       if offset > length data then Some None
       else (case skip_extension data offset (data ! 0 AND 0x10 \<noteq> 0) of
               None \<Rightarrow> None
             | Some None \<Rightarrow> Some None
             | Some (Some offset') \<Rightarrow>
                 (case padding_ok data offset' (data ! 0 AND 0x20 \<noteq> 0) of
                    None \<Rightarrow> None
                  | Some ok \<Rightarrow> Some (if ok
                      then Some \<lparr>rh_payload_type = data ! 1 AND 0x7f, rh_sequence = be16 (data ! 2) (data ! 3),
                                 rh_timestamp = be32 (data ! 4) (data ! 5) (data ! 6) (data ! 7),
                                 rh_marker = (data ! 1 AND 0x80 \<noteq> 0), rh_payload_offset = offset'\<rparr>
                      else None))))"
proof -
  have "data \<noteq> []" using assms by auto
  then show ?thesis
    using assms by (simp add: ParseRtp_def Let_def split: option.splits Option.bind_splits)
qed

lemma ParseRtp_short: "length data < 12 \<Longrightarrow> ParseRtp data = Some None"
  by (simp add: ParseRtp_def)

lemma ParseRtp_safe: "\<exists>r. ParseRtp data = Some r"
proof (cases "12 \<le> length data")
  case True
  then show ?thesis
    using skip_extension_safe padding_ok_safe
    by (auto simp: ParseRtp_long Let_def split: option.splits) (metis option.distinct(1))+
qed (simp add: ParseRtp_short)

lemma ParseRtp_offset:
  assumes "ParseRtp data = Some (Some h)"
  shows "12 \<le> rh_payload_offset h \<and> rh_payload_offset h \<le> length data"
proof (cases "12 \<le> length data")
  case True
  with assms show ?thesis
    by (auto simp: ParseRtp_long Let_def split: option.splits if_splits dest!: skip_extension_le)
qed (use assms in \<open>simp add: ParseRtp_short\<close>)

lemma PayloadSize_bound:
  assumes "data \<noteq> []" and "off \<le> length data"
  shows "\<exists>n. PayloadSize data off = Some n \<and> off + n \<le> length data"
  using assms by (auto simp: PayloadSize_def)

lemma ParseRtp_payload:
  assumes "ParseRtp data = Some (Some h)"
  obtains n where "PayloadSize data (rh_payload_offset h) = Some n" and "rh_payload_offset h + n \<le> length data"
proof -
  from ParseRtp_offset [OF assms] have "data \<noteq> []" "rh_payload_offset h \<le> length data" by auto
  from PayloadSize_bound [OF this] show ?thesis using that by blast
qed

lemma DetectCodec_safe: "\<exists>c. DetectCodec data = Some c"
proof -
  obtain r where r: "ParseRtp data = Some r" using ParseRtp_safe by blast
  show ?thesis
  proof (cases r)
    case None
    with r show ?thesis by (simp add: DetectCodec_def)
  next
    case (Some h)
    with r obtain n where "PayloadSize data (rh_payload_offset h) = Some n" "rh_payload_offset h + n \<le> length data"
      by (auto elim: ParseRtp_payload)
    with r Some show ?thesis by (simp add: DetectCodec_def Let_def)
  qed
qed

subsection \<open>The fragment invariant\<close>

definition fragment_inv :: "depacketizer \<Rightarrow> bool" where
  "fragment_inv s \<longleftrightarrow> (dp_in_fragment s \<longleftrightarrow> dp_fragment s \<noteq> [])"

lemma fragment_inv_simps [simp]:
  "fragment_inv (depacketizer_init c)"
  "fragment_inv (depacketizer_set_callback s) = fragment_inv s"
  "fragment_inv (depacketizer_set_codec s c) = fragment_inv s"
  "fragment_inv (s\<lparr>dp_packets := n\<rparr>) = fragment_inv s"
  "fragment_inv (s\<lparr>dp_dropped := n\<rparr>) = fragment_inv s"
  "fragment_inv (s\<lparr>dp_nals := n\<rparr>) = fragment_inv s"
  "fragment_inv (s\<lparr>dp_broken_fragments := n\<rparr>) = fragment_inv s"
  "fragment_inv (s\<lparr>dp_expected_seq := q\<rparr>) = fragment_inv s"
  "fragment_inv (ResetFragment s)"
  by (simp_all add: fragment_inv_def depacketizer_init_def depacketizer_set_callback_def
      depacketizer_set_codec_def ResetFragment_def)

text \<open>What the decoder is handed: a start code and at least one byte of NAL unit.\<close>

definition annexb :: "nal_unit \<Rightarrow> bool" where
  "annexb n \<longleftrightarrow> take 4 (nu_data n) = kStartCode \<and> length (nu_data n) > 4"

definition returns_inv :: "(depacketizer \<times> nal_unit list \<times> bool) option \<Rightarrow> bool" where
  "returns_inv r \<longleftrightarrow> r \<noteq> None \<and> fragment_inv (fst (the r)) \<and> list_all annexb (fst (snd (the r)))"

lemma returns_inv_Some [simp]:
  "returns_inv (Some x) \<longleftrightarrow> fragment_inv (fst x) \<and> list_all annexb (fst (snd x))"
  by (simp add: returns_inv_def)

lemma EmitNal_annexb [simp]: "list_all annexb (snd (EmitNal s p t m))"
  by (auto simp: EmitNal_def annexb_def kStartCode_def)

lemma EmitNal_inv [simp]: "fragment_inv (fst (EmitNal s p t m)) = fragment_inv s"
  by (simp add: EmitNal_def)

lemma append_fragment_inv [simp]:
  "fragment_inv s \<Longrightarrow> dp_in_fragment s \<Longrightarrow> fragment_inv (fst (append_fragment s body e t m))"
  "x \<noteq> [] \<Longrightarrow> fragment_inv (fst (append_fragment (s\<lparr>dp_fragment := x, dp_in_fragment := True\<rparr>) body e t m))"
  by (auto simp: append_fragment_def Let_def fragment_inv_def ResetFragment_def split: prod.splits)

lemma append_fragment_annexb [simp]: "list_all annexb (fst (snd (append_fragment s body e t m)))"
  by (auto simp: append_fragment_def Let_def case_prod_unfold)

text \<open>One turn of the aggregation loop on checked indices.\<close>

lemma aggregation_loop_step:
  assumes "off + 2 \<le> length payload"
    and "n = unat (be16 (payload ! off) (payload ! (off + 1)))"
  shows "n = 0 \<or> off + 2 + n > length payload \<Longrightarrow>
      aggregation_loop s payload off t m = Some (s\<lparr>dp_dropped := dp_dropped s + 1\<rparr>, [], False)"
    and "n \<noteq> 0 \<Longrightarrow> off + 2 + n \<le> length payload \<Longrightarrow>
      EmitNal s (take n (drop (off + 2) payload)) t m = (s1, out1) \<Longrightarrow>
      aggregation_loop s payload off t m =
        map_option (\<lambda>(s2, out2, ok). (s2, out1 @ out2, ok)) (aggregation_loop s1 payload (off + 2 + n) t m)"
  using assms
  by (auto simp: aggregation_loop.simps [of s payload off t m] Let_def split: option.splits)

lemma aggregation_loop_end:
  "length payload < off + 2 \<Longrightarrow> aggregation_loop s payload off t m = Some (s, [], True)"
  by (simp add: aggregation_loop.simps)

lemma aggregation_loop_safe: "fragment_inv s \<Longrightarrow> returns_inv (aggregation_loop s payload off t m)"
proof (induction "length payload - off" arbitrary: s off rule: less_induct)
  case less
  define n where "n = unat (be16 (payload ! off) (payload ! (off + 1)))"
  obtain s1 out1 where e: "EmitNal s (take n (drop (off + 2) payload)) t m = (s1, out1)" by fastforce
  then have s1: "fragment_inv s1" "list_all annexb out1"
    using less.prems EmitNal_inv EmitNal_annexb by (metis fst_conv, metis snd_conv)
  show ?case
  proof (cases "off + 2 \<le> length payload")
    case False
    with less.prems show ?thesis by (simp add: aggregation_loop_end)
  next
    case True
    note step = aggregation_loop_step [OF True n_def, of s t m]
    show ?thesis
    proof (cases "n = 0 \<or> off + 2 + n > length payload")
      case True
      with less.prems show ?thesis by (simp add: step(1))
    next
      case False
      with True have "returns_inv (aggregation_loop s1 payload (off + 2 + n) t m)"
        using s1 by (intro less.hyps) auto
      with False e s1 show ?thesis by (auto simp: step(2) returns_inv_def)
    qed
  qed
qed

lemma HandleH264_safe: "fragment_inv s \<Longrightarrow> returns_inv (HandleH264 s payload t m)"
  by (cases payload) (simp_all add: HandleH264_def Let_def aggregation_loop_safe case_prod_unfold)

lemma HandleH265_safe: "fragment_inv s \<Longrightarrow> returns_inv (HandleH265 s payload t m)"
  by (cases payload) (simp_all add: HandleH265_def Let_def aggregation_loop_safe case_prod_unfold)

lemma check_sequence_inv [simp]: "fragment_inv s \<Longrightarrow> fragment_inv (check_sequence s q)"
  by (simp add: check_sequence_def Let_def)

lemma dispatch_payload_safe:
  assumes "fragment_inv s"
  shows "returns_inv (dispatch_payload s data payload h)"
proof -
  obtain c where c: "DetectCodec data = Some c" using DetectCodec_safe by blast
  show ?thesis
    using assms by (simp add: dispatch_payload_def c HandleH264_safe HandleH265_safe)
qed

lemma rtp_Push_safe:
  assumes "fragment_inv s"
  shows "returns_inv (rtp_Push s data)"
proof -
  obtain r where r: "ParseRtp data = Some r" using ParseRtp_safe by blast
  show ?thesis
  proof (cases r)
    case None
    with r assms show ?thesis by (simp add: rtp_Push_def)
  next
    case (Some h)
    with r obtain n where "PayloadSize data (rh_payload_offset h) = Some n" "rh_payload_offset h + n \<le> length data"
      by (auto elim: ParseRtp_payload)
    with r Some assms show ?thesis
      by (simp add: rtp_Push_def Let_def dispatch_payload_safe)
  qed
qed

interpretation rtp: checked_emitter OnVideoPayload fragment_inv annexb
proof (unfold_locales, goal_cases)
  case (1 s e)
  then show ?case using rtp_Push_safe [of s e] by (auto simp: OnVideoPayload_def returns_inv_def)
next
  case (2 s e s' os)
  then show ?case using rtp_Push_safe [of s e] by (auto simp: OnVideoPayload_def returns_inv_def)
qed

subsection \<open>Packets as the tests and the air unit build them\<close>

text \<open>\<^verbatim>\<open>MakeRtp\<close> of \<^verbatim>\<open>core/tests/test_rtp.cpp\<close>.\<close>

definition MakeRtp :: "u16 \<Rightarrow> u32 \<Rightarrow> bool \<Rightarrow> bytes \<Rightarrow> bytes" where
  "MakeRtp sequence timestamp marker payload =
     [0x80, if marker then 0x80 OR 96 else 96,
      ucast (drop_bit 8 sequence), ucast (sequence AND 0xff),
      ucast (drop_bit 24 timestamp), ucast (drop_bit 16 timestamp), ucast (drop_bit 8 timestamp), ucast timestamp,
      0xde, 0xad, 0xbe, 0xef] @ payload"

lemma ParseRtp_MakeRtp:
  "ParseRtp (MakeRtp q t m payload) =
     Some (Some \<lparr>rh_payload_type = 96, rh_sequence = q, rh_timestamp = t, rh_marker = m, rh_payload_offset = 12\<rparr>)"
  by (simp add: ParseRtp_long MakeRtp_def skip_extension_def padding_ok_def)

lemma PayloadSize_MakeRtp: "PayloadSize (MakeRtp q t m payload) 12 = Some (length payload)"
  by (auto simp: PayloadSize_def MakeRtp_def)

definition start_push :: "depacketizer \<Rightarrow> u16 \<Rightarrow> depacketizer" where
  "start_push s q = check_sequence (s\<lparr>dp_packets := dp_packets s + 1\<rparr>) q"

lemma OnVideoPayload_MakeRtp:
  assumes "payload \<noteq> []"
  shows "OnVideoPayload s (MakeRtp q t m payload) = map_option (\<lambda>(s', out, ok). (s', out))
    (dispatch_payload (start_push s q) (MakeRtp q t m payload) payload
      \<lparr>rh_payload_type = 96, rh_sequence = q, rh_timestamp = t, rh_marker = m, rh_payload_offset = 12\<rparr>)"
proof -
  have "length (MakeRtp q t m payload) = 12 + length payload" "drop 12 (MakeRtp q t m payload) = payload"
    by (simp_all add: MakeRtp_def)
  with assms show ?thesis
    by (simp add: OnVideoPayload_def rtp_Push_def ParseRtp_MakeRtp PayloadSize_MakeRtp Let_def start_push_def)
qed

lemma start_push_sel [simp]:
  "dp_codec (start_push s q) = dp_codec s"
  "dp_callback (start_push s q) = dp_callback s"
  "dp_expected_seq (start_push s q) = q + 1"
  "dp_in_fragment (start_push s q) \<longleftrightarrow> dp_in_fragment s \<and> q = dp_expected_seq s"
  "dp_in_fragment s \<Longrightarrow> q = dp_expected_seq s \<Longrightarrow> dp_fragment (start_push s q) = dp_fragment s"
  by (auto simp: start_push_def check_sequence_def Let_def ResetFragment_def)

text \<open>
  A NAL unit split into fragments: the first carries the start bit, the last the end bit and the RTP
  marker. \<open>fu h start end chunk\<close> is the payload of one fragment.
\<close>

fun fu_rest :: "('h \<Rightarrow> bool \<Rightarrow> bool \<Rightarrow> bytes \<Rightarrow> bytes) \<Rightarrow> 'h \<Rightarrow> bytes list \<Rightarrow> (bool \<times> bytes) list" where
  "fu_rest fu h [] = []"
| "fu_rest fu h (c # cs) = (cs = [], fu h False (cs = []) c) # fu_rest fu h cs"

fun fu_fragments :: "('h \<Rightarrow> bool \<Rightarrow> bool \<Rightarrow> bytes \<Rightarrow> bytes) \<Rightarrow> 'h \<Rightarrow> bytes list \<Rightarrow> (bool \<times> bytes) list" where
  "fu_fragments fu h [] = []"
| "fu_fragments fu h (c # cs) = (cs = [], fu h True (cs = []) c) # fu_rest fu h cs"

fun rtp_stream :: "u16 \<Rightarrow> u32 \<Rightarrow> (bool \<times> bytes) list \<Rightarrow> bytes list" where
  "rtp_stream q t [] = []"
| "rtp_stream q t ((m, p) # ps) = MakeRtp q t m p # rtp_stream (q + 1) t ps"

lemma length_rtp_stream [simp]: "length (rtp_stream q t ps) = length ps"
  by (induction q t ps rule: rtp_stream.induct) auto

lemma length_fu_rest [simp]: "length (fu_rest fu h cs) = length cs"
  by (induction cs) auto

lemma length_fu_fragments [simp]: "length (fu_fragments fu h cs) = length cs"
  by (cases cs) auto

lemma drop_rtp_stream: "drop k (rtp_stream q t ps) = rtp_stream (q + of_nat k) t (drop k ps)"
proof (induction k arbitrary: q ps)
  case (Suc k)
  show ?case
  proof (cases ps)
    case (Cons a ps')
    then show ?thesis by (cases a) (simp add: Suc.IH add.assoc)
  qed simp
qed simp

lemma drop_fu_rest: "drop k (fu_rest fu h cs) = fu_rest fu h (drop k cs)"
proof (induction k arbitrary: cs)
  case (Suc k)
  then show ?case by (cases cs) auto
qed simp

subsection \<open>Reassembly, for any fragment format\<close>

text \<open>
  The contract of a fragmentation format: how the handler of its codec treats one fragment. The
  reassembly and loss lemmas follow for both codecs.
\<close>

locale fragment_format =
  fixes codec :: video_codec
    and fu :: "'h \<Rightarrow> bool \<Rightarrow> bool \<Rightarrow> bytes \<Rightarrow> bytes"
    and hdr :: "'h \<Rightarrow> bytes"
  assumes fu_nonempty: "fu h b e c \<noteq> []"
    and hdr_nonempty: "hdr h \<noteq> []"
    and fu_dispatch: "dp_codec s = codec \<Longrightarrow>
      dispatch_payload s data (fu h b e c) rh =
        Some (if b then append_fragment (s\<lparr>dp_fragment := hdr h, dp_in_fragment := True\<rparr>) c e
                          (rh_timestamp rh) (rh_marker rh)
              else if \<not> dp_in_fragment s
              then (s\<lparr>dp_broken_fragments := dp_broken_fragments s + 1\<rparr>, [], False)
              else append_fragment s c e (rh_timestamp rh) (rh_marker rh))"
begin

definition ready :: "depacketizer \<Rightarrow> bool" where
  "ready s \<longleftrightarrow> dp_codec s = codec \<and> dp_callback s"

lemma fragment_start:
  assumes "ready s"
  shows "\<exists>s'. OnVideoPayload s (MakeRtp q t m (fu h True e c)) =
      Some (s', if e then [\<lparr>nu_data = kStartCode @ hdr h @ c, nu_rtp_timestamp = t, nu_marker = m\<rparr>] else [])
    \<and> ready s' \<and> dp_in_fragment s' = (\<not> e) \<and> dp_expected_seq s' = q + 1
    \<and> (\<not> e \<longrightarrow> dp_fragment s' = hdr h @ c)"
  using assms hdr_nonempty [of h]
  by (simp add: OnVideoPayload_MakeRtp fu_nonempty fu_dispatch ready_def append_fragment_def EmitNal_def
      ResetFragment_def)

lemma fragment_next:
  assumes "ready s" and "dp_in_fragment s" and "dp_fragment s \<noteq> []" and "dp_expected_seq s = q"
  shows "\<exists>s'. OnVideoPayload s (MakeRtp q t m (fu h False e c)) =
      Some (s', if e then [\<lparr>nu_data = kStartCode @ dp_fragment s @ c, nu_rtp_timestamp = t, nu_marker = m\<rparr>] else [])
    \<and> ready s' \<and> dp_in_fragment s' = (\<not> e) \<and> dp_expected_seq s' = q + 1
    \<and> (\<not> e \<longrightarrow> dp_fragment s' = dp_fragment s @ c)"
  using assms
  by (simp add: OnVideoPayload_MakeRtp fu_nonempty fu_dispatch ready_def append_fragment_def EmitNal_def
      ResetFragment_def)

lemma fragment_orphan:
  assumes "ready s" and "\<not> dp_in_fragment s \<or> dp_expected_seq s \<noteq> q"
  shows "\<exists>s'. OnVideoPayload s (MakeRtp q t m (fu h False e c)) = Some (s', [])
    \<and> ready s' \<and> \<not> dp_in_fragment s'"
  using assms by (auto simp: OnVideoPayload_MakeRtp fu_nonempty fu_dispatch ready_def)

lemma orphans_run:
  assumes "ready s" and "\<not> dp_in_fragment s"
  shows "\<exists>s'. run_steps OnVideoPayload s (rtp_stream q t (fu_rest fu h cs)) = Some (s', [])"
  using assms
proof (induction cs arbitrary: s q)
  case (Cons c cs)
  from fragment_orphan [OF Cons.prems(1), of q t "cs = []" h "cs = []" c] Cons.prems(2)
  obtain s1 where "OnVideoPayload s (MakeRtp q t (cs = []) (fu h False (cs = []) c)) = Some (s1, [])"
    and "ready s1" "\<not> dp_in_fragment s1" by auto
  with Cons.IH [of s1 "q + 1"] show ?case by auto
qed simp

lemma rest_run:
  assumes "ready s" and "dp_in_fragment s" and "dp_fragment s \<noteq> []" and "dp_expected_seq s = q" and "cs \<noteq> []"
  shows "\<exists>s'. run_steps OnVideoPayload s (rtp_stream q t (fu_rest fu h cs)) =
      Some (s', [\<lparr>nu_data = kStartCode @ dp_fragment s @ concat cs, nu_rtp_timestamp = t, nu_marker = True\<rparr>])
    \<and> ready s' \<and> \<not> dp_in_fragment s'"
  using assms
proof (induction cs arbitrary: s q)
  case (Cons c cs)
  from fragment_next [OF Cons.prems(1-4), of t "cs = []" h "cs = []" c]
  obtain s1 where s1: "OnVideoPayload s (MakeRtp q t (cs = []) (fu h False (cs = []) c)) =
      Some (s1, if cs = [] then [\<lparr>nu_data = kStartCode @ dp_fragment s @ c, nu_rtp_timestamp = t,
                                 nu_marker = True\<rparr>] else [])"
    "ready s1" "dp_in_fragment s1 = (cs \<noteq> [])" "dp_expected_seq s1 = q + 1"
    "cs \<noteq> [] \<longrightarrow> dp_fragment s1 = dp_fragment s @ c"
    by (auto split: if_splits)
  show ?case
  proof (cases "cs = []")
    case True
    with s1 show ?thesis by simp
  next
    case False
    with s1 Cons.prems(3) have "dp_fragment s1 \<noteq> []" "dp_in_fragment s1" by auto
    from Cons.IH [OF s1(2) this(2,1) s1(4) False] s1 False show ?thesis by auto
  qed
qed simp

lemma prefix_run:
  assumes "ready s" and "dp_in_fragment s" and "dp_fragment s \<noteq> []" and "dp_expected_seq s = q"
    and "k < length cs"
  shows "\<exists>s'. run_steps OnVideoPayload s (take k (rtp_stream q t (fu_rest fu h cs))) = Some (s', [])
    \<and> ready s' \<and> dp_in_fragment s' \<and> dp_expected_seq s' = q + of_nat k"
  using assms
proof (induction k arbitrary: s q cs)
  case (Suc k)
  from Suc.prems(5) obtain c cs' where cs: "cs = c # cs'" "k < length cs'" by (cases cs) auto
  then have ne: "cs' \<noteq> []" by auto
  from fragment_next [OF Suc.prems(1-4), of t False h False c]
  obtain s1 where "OnVideoPayload s (MakeRtp q t False (fu h False False c)) = Some (s1, [])"
    "ready s1" "dp_in_fragment s1" "dp_expected_seq s1 = q + 1" "dp_fragment s1 = dp_fragment s @ c" by auto
  with Suc.IH [of s1 "q + 1" cs'] Suc.prems(3) cs ne show ?case by (auto simp: add.assoc)
qed simp

text \<open>An unbroken sequence of fragments gives the unit.\<close>

lemma reassembly:
  assumes "ready s" and "cs \<noteq> []"
  shows "\<exists>s'. run_steps OnVideoPayload s (rtp_stream q t (fu_fragments fu h cs)) =
      Some (s', [\<lparr>nu_data = kStartCode @ hdr h @ concat cs, nu_rtp_timestamp = t, nu_marker = True\<rparr>])
    \<and> \<not> dp_in_fragment s'"
proof (cases cs)
  case (Cons c cs')
  from fragment_start [OF assms(1), of q t "cs' = []" h "cs' = []" c]
  obtain s1 where s1: "OnVideoPayload s (MakeRtp q t (cs' = []) (fu h True (cs' = []) c)) =
      Some (s1, if cs' = [] then [\<lparr>nu_data = kStartCode @ hdr h @ c, nu_rtp_timestamp = t,
                                  nu_marker = True\<rparr>] else [])"
    "ready s1" "dp_in_fragment s1 = (cs' \<noteq> [])" "dp_expected_seq s1 = q + 1"
    "cs' \<noteq> [] \<longrightarrow> dp_fragment s1 = hdr h @ c"
    by (auto split: if_splits)
  show ?thesis
  proof (cases "cs' = []")
    case True
    with s1 Cons show ?thesis by simp
  next
    case False
    with s1 hdr_nonempty [of h] have "dp_fragment s1 \<noteq> []" "dp_in_fragment s1" by auto
    from rest_run [OF s1(2) this(2,1) s1(4) False, of t h] s1 False Cons show ?thesis by auto
  qed
qed (use assms(2) in simp)

text \<open>A burst of lost fragments anywhere suppresses the unit.\<close>

lemma lossy_run:
  assumes "ready s" and "\<not> dp_in_fragment s" and "0 < j" and "j < 2 ^ 16" and "k + j \<le> length cs"
    and "pkts = rtp_stream q t (fu_fragments fu h cs)"
  shows "\<exists>s'. run_steps OnVideoPayload s (take k pkts @ drop (k + j) pkts) = Some (s', [])"
proof -
  from assms(3,5) obtain c cs' where cs: "cs = c # cs'" by (cases cs) auto
  define late where "late = rtp_stream (q + of_nat (k + j)) t (fu_rest fu h (drop (k + j) cs))"
  have late: "drop (k + j) pkts = late"
  proof -
    obtain i where i: "k + j = Suc i" using assms(3) by (metis Suc_pred add_gr_0)
    show ?thesis
      unfolding late_def assms(6) drop_rtp_stream i cs by (simp add: drop_fu_rest)
  qed
  show ?thesis
  proof (cases k)
    case 0
    then have "take k pkts @ drop (k + j) pkts = late" using late by simp
    with orphans_run [OF assms(1,2)] show ?thesis by (simp add: late_def)
  next
    case (Suc i)
    with assms(3,5) cs have ne: "cs' \<noteq> []" "i < length cs'" by auto
    from fragment_start [OF assms(1), of q t False h False c]
    obtain s1 where s1: "OnVideoPayload s (MakeRtp q t False (fu h True False c)) = Some (s1, [])"
      "ready s1" "dp_in_fragment s1" "dp_expected_seq s1 = q + 1" "dp_fragment s1 = hdr h @ c" by auto
    with prefix_run [of s1 "q + 1" i cs' t h] ne hdr_nonempty [of h]
    obtain s2 where s2: "run_steps OnVideoPayload s1 (take i (rtp_stream (q + 1) t (fu_rest fu h cs'))) = Some (s2, [])"
      "ready s2" "dp_expected_seq s2 = q + of_nat k" by (auto simp: Suc add.assoc)
    from s1 s2 ne have early: "run_steps OnVideoPayload s (take k pkts) = Some (s2, [])"
      by (simp add: assms(6) cs Suc)
    have gap: "q + of_nat (k + j) \<noteq> q + of_nat k"
      using assms(3,4) by (simp add: word_of_nat_eq_0_iff) (metis nat_dvd_not_less)
    show ?thesis
    proof (cases "drop (k + j) cs")
      case Nil
      with early s2 show ?thesis by (simp add: run_steps_append late late_def)
    next
      case (Cons d ds)
      from fragment_orphan [OF s2(2), of "q + of_nat (k + j)" t "ds = []" h "ds = []" d] gap s2(3)
      obtain s3 where "OnVideoPayload s2 (MakeRtp (q + of_nat (k + j)) t (ds = []) (fu h False (ds = []) d)) = Some (s3, [])"
        "ready s3" "\<not> dp_in_fragment s3" by auto
      with orphans_run [of s3 "q + of_nat (k + j) + 1" t h ds] early Cons show ?thesis
        by (auto simp: run_steps_append late late_def)
    qed
  qed
qed

end

subsection \<open>The two fragment formats\<close>

text \<open>RFC 6184 FU-A: the NAL header is one byte; RFC 7798 FU: two bytes, the type in bits 1 to 6 of the first.\<close>

definition fu_header :: "bool \<Rightarrow> bool \<Rightarrow> u8 \<Rightarrow> u8" where
  "fu_header start end_bit nal_type = (if start then 0x80 else 0) OR (if end_bit then 0x40 else 0) OR nal_type"

definition fu_a :: "u8 \<Rightarrow> bool \<Rightarrow> bool \<Rightarrow> bytes \<Rightarrow> bytes" where
  "fu_a h start end_bit c = [(h AND 0xe0) OR 28, fu_header start end_bit (h AND 0x1f)] @ c"

definition fu_h265 :: "u8 \<times> u8 \<Rightarrow> bool \<Rightarrow> bool \<Rightarrow> bytes \<Rightarrow> bytes" where
  "fu_h265 h start end_bit c =
     [(fst h AND 0x81) OR 0x62, snd h, fu_header start end_bit (drop_bit 1 (fst h) AND 0x3f)] @ c"

definition hdr_h265 :: "u8 \<times> u8 \<Rightarrow> bytes" where
  "hdr_h265 h = [fst h, snd h]"

lemma fu_header_bits:
  "\<not> bit ty 7 \<Longrightarrow> bit (fu_header b e ty) 7 = b"
  "\<not> bit ty 6 \<Longrightarrow> bit (fu_header b e ty) 6 = e"
  by (simp_all add: fu_header_def bit_simps)

lemma fu_header_type:
  "\<not> bit ty 7 \<Longrightarrow> \<not> bit ty 6 \<Longrightarrow> \<not> bit ty 5 \<Longrightarrow> fu_header b e ty AND 0x1f = ty"
  "\<not> bit ty 7 \<Longrightarrow> \<not> bit ty 6 \<Longrightarrow> fu_header b e ty AND 0x3f = ty"
  unfolding u8_eq_iff by (simp_all add: fu_header_def bit_simps)

lemma type5_bits: "\<not> bit (h AND 0x1f :: u8) 7" "\<not> bit (h AND 0x1f :: u8) 6" "\<not> bit (h AND 0x1f :: u8) 5"
  by (simp_all add: bit_simps)

lemma type6_bits: "\<not> bit (h AND 0x3f :: u8) 7" "\<not> bit (h AND 0x3f :: u8) 6"
  by (simp_all add: bit_simps)

lemmas fu_simps =
  fu_header_bits(1) [OF type5_bits(1)] fu_header_bits(2) [OF type5_bits(2)] fu_header_type(1) [OF type5_bits]
  fu_header_bits(1) [OF type6_bits(1)] fu_header_bits(2) [OF type6_bits(2)] fu_header_type(2) [OF type6_bits]

lemma fu_a_header:
  "((h AND 0xe0) OR 28) AND 0x1f = (28 :: u8)"
  "(((h AND 0xe0) OR 28) AND 0xe0) OR (h AND 0x1f) = (h :: u8)"
  unfolding u8_eq_iff by (simp_all add: bit_simps)

lemma fu_h265_header:
  "drop_bit 1 ((h AND 0x81) OR 0x62) AND 0x3f = (49 :: u8)"
  "(((h AND 0x81) OR 0x62) AND 0x81) OR push_bit 1 (drop_bit 1 h AND 0x3f) = (h :: u8)"
  unfolding u8_eq_iff by (simp_all add: bit_simps flip: numeral_2_eq_2 numeral_3_eq_3 del: push_bit_Suc drop_bit_Suc)

lemma HandleH264_fragment:
  assumes "p0 AND 0x1f = 28"
  shows "HandleH264 s (p0 # fh # c) t m =
     Some (if bit fh 7
           then append_fragment (s\<lparr>dp_fragment := [(p0 AND 0xe0) OR (fh AND 0x1f)], dp_in_fragment := True\<rparr>)
                  c (bit fh 6) t m
           else if \<not> dp_in_fragment s
           then (s\<lparr>dp_broken_fragments := dp_broken_fragments s + 1\<rparr>, [], False)
           else append_fragment s c (bit fh 6) t m)"
  by (simp add: HandleH264_def assms u8_flag_simps)

lemma HandleH265_fragment:
  assumes "drop_bit 1 p0 AND 0x3f = 49"
  shows "HandleH265 s (p0 # p1 # fh # c) t m =
     Some (if bit fh 7
           then append_fragment
                  (s\<lparr>dp_fragment := [(p0 AND 0x81) OR push_bit 1 (fh AND 0x3f), p1], dp_in_fragment := True\<rparr>)
                  c (bit fh 6) t m
           else if \<not> dp_in_fragment s
           then (s\<lparr>dp_broken_fragments := dp_broken_fragments s + 1\<rparr>, [], False)
           else append_fragment s c (bit fh 6) t m)"
  unfolding HandleH265_def by (simp add: assms [simplified] u8_flag_simps)

interpretation h264: fragment_format kH264 fu_a "\<lambda>h. [h]"
proof (unfold_locales, goal_cases)
  case (3 s data h b e c rh)
  then show ?case
    unfolding fu_a_def append_Cons append_Nil
    by (simp only: dispatch_payload_def) (simp add: HandleH264_fragment fu_a_header fu_simps)
qed (simp_all add: fu_a_def)

interpretation h265: fragment_format kH265 fu_h265 hdr_h265
proof (unfold_locales, goal_cases)
  case (3 s data h b e c rh)
  have "dispatch_payload s data (fu_h265 h b e c) rh =
      HandleH265 s (fu_h265 h b e c) (rh_timestamp rh) (rh_marker rh)"
    using 3 by (simp add: dispatch_payload_def)
  then show ?case
    unfolding fu_h265_def append_Cons append_Nil hdr_h265_def
    by (simp only: HandleH265_fragment fu_h265_header fu_simps)
qed (simp_all add: fu_h265_def hdr_h265_def)

subsection \<open>Aggregation packets\<close>

definition size16 :: "bytes \<Rightarrow> bytes" where
  "size16 nal = [of_nat (length nal div 256), of_nat (length nal mod 256)]"

definition aggregate :: "bytes list \<Rightarrow> bytes" where
  "aggregate nals = concat (map (\<lambda>n. size16 n @ n) nals)"

lemma be16_size16:
  assumes "n < 65536"
  shows "unat (be16 (of_nat (n div 256)) (of_nat (n mod 256))) = n"
proof -
  have "n div 256 = drop_bit 8 n" "n mod 256 = take_bit 8 n"
    by (simp_all add: drop_bit_eq_div take_bit_eq_mod)
  then have "be16 (of_nat (n div 256)) (of_nat (n mod 256)) = of_nat n"
    by (intro bit_word_eqI) (auto simp: be16_def bit_simps)
  with assms show ?thesis by (simp add: unat_of_nat take_bit_nat_eq_self)
qed

lemma aggregation_loop_aggregate:
  assumes "dp_callback s" and "\<forall>n \<in> set nals. n \<noteq> [] \<and> length n < 65536"
  shows "aggregation_loop s (pre @ aggregate nals) (length pre) t m =
    Some (s\<lparr>dp_nals := dp_nals s + of_nat (length nals)\<rparr>,
          map (\<lambda>n. \<lparr>nu_data = kStartCode @ n, nu_rtp_timestamp = t, nu_marker = m\<rparr>) nals, True)"
  using assms
proof (induction nals arbitrary: s pre)
  case Nil
  then show ?case by (simp add: aggregate_def aggregation_loop_end)
next
  case (Cons n ns)
  let ?p = "pre @ aggregate (n # ns)"
  have len: "length n < 65536" "n \<noteq> []" using Cons.prems(2) by auto
  have p: "?p = (pre @ size16 n @ n) @ aggregate ns" by (simp add: aggregate_def)
  have sz: "?p ! length pre = of_nat (length n div 256)" "?p ! (length pre + 1) = of_nat (length n mod 256)"
    by (simp_all add: aggregate_def size16_def nth_append)
  have long: "length pre + 2 \<le> length ?p" "length pre + 2 + length n \<le> length ?p"
    by (simp_all add: aggregate_def size16_def)
  have body: "take (length n) (drop (length pre + 2) ?p) = n"
    by (simp add: aggregate_def size16_def)
  let ?s1 = "s\<lparr>dp_nals := dp_nals s + 1\<rparr>"
  have "aggregation_loop s ?p (length pre) t m =
    map_option (\<lambda>(s2, out2, ok). (s2, [\<lparr>nu_data = kStartCode @ n, nu_rtp_timestamp = t, nu_marker = m\<rparr>] @ out2, ok))
      (aggregation_loop ?s1 ?p (length pre + 2 + length n) t m)"
    by (rule aggregation_loop_step(2) [OF long(1)])
       (use len long(2) body Cons.prems(1) in \<open>simp_all only: sz be16_size16, simp_all add: EmitNal_def\<close>)
  also have "aggregation_loop ?s1 ?p (length pre + 2 + length n) t m =
    aggregation_loop ?s1 ((pre @ size16 n @ n) @ aggregate ns) (length (pre @ size16 n @ n)) t m"
    unfolding p by (simp add: size16_def)
  finally show ?case
    using Cons.IH [of ?s1 "pre @ size16 n @ n"] Cons.prems by (simp add: add.assoc)
qed

subsection \<open>CSRC list, extension and padding\<close>

definition words_bytes :: "u32 list \<Rightarrow> bytes" where
  "words_bytes ws = concat (map be32_bytes ws)"

definition ext_bytes :: "(u8 \<times> u8 \<times> u32 list) option \<Rightarrow> bytes" where
  "ext_bytes ext = (case ext of
     None \<Rightarrow> []
   | Some (p0, p1, ws) \<Rightarrow> [p0, p1, of_nat (length ws div 256), of_nat (length ws mod 256)] @ words_bytes ws)"

definition pad_bytes :: "nat \<Rightarrow> bytes" where
  "pad_bytes pad = (if pad = 0 then [] else replicate (pad - 1) 0 @ [of_nat pad])"

text \<open>An RTP packet as RFC 3550 lays it out.\<close>

definition first_byte :: "nat \<Rightarrow> bool \<Rightarrow> nat \<Rightarrow> u8" where
  "first_byte pad ext cc = 0x80 OR (if pad > 0 then 0x20 else 0) OR (if ext then 0x10 else 0) OR of_nat cc"

definition rtp_prefix :: "nat \<Rightarrow> bool \<Rightarrow> bool \<Rightarrow> u8 \<Rightarrow> u16 \<Rightarrow> u32 \<Rightarrow> u32 \<Rightarrow> u32 list \<Rightarrow> bytes" where
  "rtp_prefix pad ext marker pt q t ssrc csrcs =
     [first_byte pad ext (length csrcs), (if marker then 0x80 else 0) OR pt,
      ucast (drop_bit 8 q), ucast (q AND 0xff)] @ be32_bytes t @ be32_bytes ssrc @ words_bytes csrcs"

definition rtp_encode ::
  "bool \<Rightarrow> u8 \<Rightarrow> u16 \<Rightarrow> u32 \<Rightarrow> u32 \<Rightarrow> u32 list \<Rightarrow> (u8 \<times> u8 \<times> u32 list) option \<Rightarrow> nat \<Rightarrow> bytes \<Rightarrow> bytes" where
  "rtp_encode marker pt q t ssrc csrcs ext pad payload =
     rtp_prefix pad (ext \<noteq> None) marker pt q t ssrc csrcs @ ext_bytes ext @ payload @ pad_bytes pad"

lemma length_words_bytes [simp]: "length (words_bytes ws) = 4 * length ws"
  by (induction ws) (auto simp: words_bytes_def)

lemma length_pad_bytes [simp]: "length (pad_bytes pad) = pad"
  by (simp add: pad_bytes_def)

lemma first_byte_bits:
  assumes "cc < 16"
  shows "drop_bit 6 (first_byte pad ext cc) AND 0x03 = 2" and "first_byte pad ext cc AND 0x0f = of_nat cc"
    and "bit (first_byte pad ext cc) 5 = (pad > 0)" and "bit (first_byte pad ext cc) 4 = ext"
proof -
  have "take_bit 4 cc = cc" using assms by (simp add: take_bit_nat_eq_self)
  then have "bit cc k \<Longrightarrow> k < 4" for k by (metis bit_take_bit_iff)
  then have c: "\<not> bit cc 4" "\<not> bit cc 5" "\<not> bit cc 6" "\<not> bit cc 7" by fastforce+
  then show "drop_bit 6 (first_byte pad ext cc) AND 0x03 = 2" "first_byte pad ext cc AND 0x0f = of_nat cc"
    unfolding u8_eq_iff by (simp_all add: first_byte_def bit_simps)
  show "bit (first_byte pad ext cc) 5 = (pad > 0)" "bit (first_byte pad ext cc) 4 = ext"
    using c by (simp_all add: first_byte_def bit_simps)
qed

lemma pt_bits:
  assumes "\<not> bit pt 7"
  shows "((if m then 0x80 else 0) OR pt) AND 0x7f = (pt :: u8)"
    and "bit ((if m then 0x80 else 0) OR pt :: u8) 7 = m"
  using assms unfolding u8_eq_iff by (simp_all add: bit_simps)

lemma rtp_encode_skip:
  assumes "rest = ext_bytes ext @ payload @ pad_bytes pad"
    and "case ext of None \<Rightarrow> True | Some (p0, p1, ws) \<Rightarrow> length ws < 65536"
  shows "skip_extension (pre @ rest) (length pre) (ext \<noteq> None) =
    Some (Some (length pre + length (ext_bytes ext)))"
proof (cases ext)
  case None
  then show ?thesis by (simp add: skip_extension_def ext_bytes_def)
next
  case (Some e)
  obtain p0 p1 ws where e: "e = (p0, p1, ws)" by (cases e)
  with Some assms(2) have "length ws < 65536" by simp
  then have n: "unat (be16 (of_nat (length ws div 256)) (of_nat (length ws mod 256))) = length ws"
    by (rule be16_size16)
  have r: "read8 (pre @ rest) (length pre + 2) = Some (of_nat (length ws div 256))"
    "read8 (pre @ rest) (length pre + 3) = Some (of_nat (length ws mod 256))"
    by (simp_all add: assms(1) Some e ext_bytes_def nth_append)
  show ?thesis
    unfolding skip_extension_def using r n by (simp add: assms(1) Some e ext_bytes_def)
qed

lemma last_pad:
  "0 < pad \<Longrightarrow> read8 (xs @ pad_bytes pad) (length xs + pad - 1) = Some (of_nat pad)"
  by (cases pad) (simp_all add: pad_bytes_def read8_def nth_append)

lemma length_rtp_prefix [simp]: "length (rtp_prefix pad e marker pt q t ssrc csrcs) = 12 + 4 * length csrcs"
  by (simp add: rtp_prefix_def)

lemma rtp_prefix_fields:
  assumes "pkt = rtp_prefix pad e marker pt q t ssrc csrcs @ rest"
  shows "pkt ! 0 = first_byte pad e (length csrcs)" and "pkt ! 1 = (if marker then 0x80 else 0) OR pt"
    and "be16 (pkt ! 2) (pkt ! 3) = q" and "be32 (pkt ! 4) (pkt ! 5) (pkt ! 6) (pkt ! 7) = t"
  by (simp_all add: assms rtp_prefix_def be32_bytes_cast)

definition encodable :: "u8 \<Rightarrow> u32 list \<Rightarrow> (u8 \<times> u8 \<times> u32 list) option \<Rightarrow> nat \<Rightarrow> bool" where
  "encodable pt csrcs ext pad \<longleftrightarrow> \<not> bit pt 7 \<and> length csrcs < 16 \<and> pad < 256
     \<and> (case ext of None \<Rightarrow> True | Some (p0, p1, ws) \<Rightarrow> length ws < 65536)"

lemma unat_of_nat_pad: "pad < 256 \<Longrightarrow> unat (of_nat pad :: u8) = pad"
  by (simp add: unat_of_nat take_bit_nat_eq_self)

definition payload_offset :: "u32 list \<Rightarrow> (u8 \<times> u8 \<times> u32 list) option \<Rightarrow> nat" where
  "payload_offset csrcs ext = 12 + 4 * length csrcs + length (ext_bytes ext)"

lemma length_rtp_encode:
  "length (rtp_encode marker pt q t ssrc csrcs ext pad payload) = payload_offset csrcs ext + length payload + pad"
  by (simp add: rtp_encode_def payload_offset_def)

lemma rtp_encode_last:
  assumes "0 < pad" and "pkt = rtp_encode marker pt q t ssrc csrcs ext pad payload"
  shows "read8 pkt (length pkt - 1) = Some (of_nat pad)"
  using last_pad [OF assms(1), of "rtp_prefix pad (ext \<noteq> None) marker pt q t ssrc csrcs @ ext_bytes ext @ payload"]
  by (simp add: assms(2) rtp_encode_def add.assoc)

lemma ParseRtp_encode:
  assumes "encodable pt csrcs ext pad"
  shows "ParseRtp (rtp_encode marker pt q t ssrc csrcs ext pad payload) =
      Some (Some \<lparr>rh_payload_type = pt, rh_sequence = q, rh_timestamp = t, rh_marker = marker,
                  rh_payload_offset = payload_offset csrcs ext\<rparr>)" (is "ParseRtp ?pkt = _")
proof -
  note len = length_rtp_encode [of marker pt q t ssrc csrcs ext pad payload]
  note fields = rtp_prefix_fields [OF rtp_encode_def [of marker pt q t ssrc csrcs ext pad payload]]
  from assms have a: "\<not> bit pt 7" "length csrcs < 16" "pad < 256"
    "case ext of None \<Rightarrow> True | Some (p0, p1, ws) \<Rightarrow> length ws < 65536" by (simp_all add: encodable_def)
  have long: "12 \<le> length ?pkt" by (simp add: len payload_offset_def)
  have cc: "unat (of_nat (length csrcs) :: u8) * 4 = 4 * length csrcs"
    using a(2) by (simp add: unat_of_nat_pad)
  have sk: "skip_extension ?pkt (12 + 4 * length csrcs) (ext \<noteq> None) = Some (Some (payload_offset csrcs ext))"
    using rtp_encode_skip [OF refl a(4), of "rtp_prefix pad (ext \<noteq> None) marker pt q t ssrc csrcs" payload pad]
    by (simp add: rtp_encode_def payload_offset_def)
  have pad: "padding_ok ?pkt (payload_offset csrcs ext) (0 < pad) = Some True"
    using rtp_encode_last [OF _ refl, of pad marker pt q t ssrc csrcs ext payload] a(3) len unat_of_nat_pad [OF a(3)]
    by (auto simp: padding_ok_def)
  show ?thesis
    unfolding ParseRtp_long [OF long] fields first_byte_bits [OF a(2)] pt_bits [OF a(1)] u8_flag_simps cc Let_def
    using sk pad len by (simp add: payload_offset_def)
qed

lemma PayloadSize_encode:
  assumes "encodable pt csrcs ext pad" and "pkt = rtp_encode marker pt q t ssrc csrcs ext pad payload"
  shows "PayloadSize pkt (payload_offset csrcs ext) = Some (length payload)"
    and "take (length payload) (drop (payload_offset csrcs ext) pkt) = payload"
proof -
  from assms have a: "length csrcs < 16" "pad < 256" by (simp_all add: encodable_def)
  have len: "length pkt = payload_offset csrcs ext + length payload + pad"
    by (simp add: assms(2) length_rtp_encode)
  then have ne: "pkt \<noteq> []" by (auto simp: payload_offset_def)
  then have r0: "read8 pkt 0 = Some (pkt ! 0)" by simp
  have p0: "pkt ! 0 = first_byte pad (ext \<noteq> None) (length csrcs)"
    unfolding assms(2) by (rule rtp_prefix_fields [OF rtp_encode_def])
  have flag: "(pkt ! 0 AND 0x20 \<noteq> 0) = (0 < pad)"
    by (simp only: p0 u8_flag_simps first_byte_bits(3) [OF a(1)] not_not)
  show "PayloadSize pkt (payload_offset csrcs ext) = Some (length payload)"
  proof (cases "pad = 0")
    case True
    with len r0 flag show ?thesis by (simp add: PayloadSize_def)
  next
    case False
    with rtp_encode_last [OF _ assms(2)] len ne r0 flag unat_of_nat_pad [OF a(2)] show ?thesis
      by (simp add: PayloadSize_def)
  qed
  show "take (length payload) (drop (payload_offset csrcs ext) pkt) = payload"
    by (simp add: assms(2) rtp_encode_def payload_offset_def)
qed

lemma DetectCodec_MakeRtp:
  "DetectCodec (MakeRtp q t m (p0 # p1 # rest)) =
     Some (if p0 AND 0x80 = 0 \<and> p1 AND 0x07 \<noteq> 0
              \<and> (drop_bit 1 p0 AND 0x3f \<le> 40 \<or> drop_bit 1 p0 AND 0x3f = 48 \<or> drop_bit 1 p0 AND 0x3f = 49) then kH265
           else if p0 AND 0x80 = 0 \<and> p0 AND 0x1f \<noteq> 0
              \<and> (p0 AND 0x1f \<le> 23 \<or> p0 AND 0x1f = 24 \<or> p0 AND 0x1f = 28) then kH264
           else kUnknown)"
proof -
  have "read8 (MakeRtp q t m (p0 # p1 # rest)) 12 = Some p0" "read8 (MakeRtp q t m (p0 # p1 # rest)) 13 = Some p1"
    by (simp_all add: MakeRtp_def)
  then show ?thesis
    by (simp add: DetectCodec_def ParseRtp_MakeRtp PayloadSize_MakeRtp Let_def)
qed

subsection \<open>Properties\<close>

text \<open>
  C12: no sequence of packets, however malformed, makes the depacketiser read outside a packet; every
  NAL unit it hands to the decoder is a start code followed by at least one byte; and a partial unit is buffered
  exactly while a fragment is in flight.
\<close>

theorem rtp_never_faults:
  "\<exists>s' out. run_steps OnVideoPayload (depacketizer_set_callback (depacketizer_init codec)) packets = Some (s', out)
     \<and> list_all annexb out \<and> (dp_in_fragment s' \<longleftrightarrow> dp_fragment s' \<noteq> [])"
  using rtp.run_good [of "depacketizer_set_callback (depacketizer_init codec)" packets]
  by (auto simp: fragment_inv_def depacketizer_set_callback_def depacketizer_init_def)

text \<open>
  An H.264 NAL unit cut into FU-A fragments that all arrive in order is handed over as one unit
  with the original header byte and body, from any earlier state of the depacketiser and across the wrap of the
  16-bit sequence number.
\<close>

theorem rtp_h264_reassembly:
  assumes "dp_codec s = kH264" and "dp_callback s" and "chunks \<noteq> []"
  shows "\<exists>s'. run_steps OnVideoPayload s (rtp_stream q t (fu_fragments fu_a h chunks)) =
      Some (s', [\<lparr>nu_data = kStartCode @ [h] @ concat chunks, nu_rtp_timestamp = t, nu_marker = True\<rparr>])
    \<and> \<not> dp_in_fragment s'"
  using h264.reassembly [of s chunks q t h] assms by (simp add: h264.ready_def)

theorem rtp_h264_reassembly_witness:
  "\<exists>s'. run_steps OnVideoPayload (depacketizer_set_callback (depacketizer_init kH264))
      (rtp_stream 65535 9000 (fu_fragments fu_a 0x65 [[0xaa, 0xbb], [0xcc], [0xdd]])) =
      Some (s', [\<lparr>nu_data = [0, 0, 0, 1, 0x65, 0xaa, 0xbb, 0xcc, 0xdd], nu_rtp_timestamp = 9000, nu_marker = True\<rparr>])
    \<and> \<not> dp_in_fragment s'"
  using rtp_h264_reassembly [of "depacketizer_set_callback (depacketizer_init kH264)" "[[0xaa, 0xbb], [0xcc], [0xdd]]"
      65535 9000 "0x65"]
  by (simp add: depacketizer_set_callback_def depacketizer_init_def kStartCode_def)

text \<open>
  An H.265 NAL unit cut into fragmentation units is rebuilt with both of its header bytes (type,
  layer id and temporal id).
\<close>

theorem rtp_h265_reassembly:
  assumes "dp_codec s = kH265" and "dp_callback s" and "chunks \<noteq> []"
  shows "\<exists>s'. run_steps OnVideoPayload s (rtp_stream q t (fu_fragments fu_h265 (h0, h1) chunks)) =
      Some (s', [\<lparr>nu_data = kStartCode @ [h0, h1] @ concat chunks, nu_rtp_timestamp = t, nu_marker = True\<rparr>])
    \<and> \<not> dp_in_fragment s'"
  using h265.reassembly [of s chunks q t "(h0, h1)"] assms by (simp add: h265.ready_def hdr_h265_def)

theorem rtp_h265_reassembly_witness:
  "\<exists>s'. run_steps OnVideoPayload (depacketizer_set_callback (depacketizer_init kH265))
      (rtp_stream 41 9000 (fu_fragments fu_h265 (0x26, 0x01) [[0xaa], [0xbb]])) =
      Some (s', [\<lparr>nu_data = [0, 0, 0, 1, 0x26, 0x01, 0xaa, 0xbb], nu_rtp_timestamp = 9000, nu_marker = True\<rparr>])
    \<and> \<not> dp_in_fragment s'"
  using rtp_h265_reassembly [of "depacketizer_set_callback (depacketizer_init kH265)" "[[0xaa], [0xbb]]"
      41 9000 "0x26" "0x01"]
  by (simp add: depacketizer_set_callback_def depacketizer_init_def kStartCode_def)

text \<open>
  When a burst of one or more fragments (fewer than 65536) of a fragmented NAL unit is lost, wherever
  in the unit, nothing of the unit is handed to the decoder: no unit with a hole in it is ever emitted. This holds
  for H.264 and for H.265.
\<close>

theorem rtp_loss_suppresses_unit:
  assumes "dp_callback s" and "\<not> dp_in_fragment s" and "0 < j" and "j < 2 ^ 16" and "k + j \<le> length chunks"
  shows "(dp_codec s = kH264 \<longrightarrow>
      (\<exists>s'. run_steps OnVideoPayload s
         (take k (rtp_stream q t (fu_fragments fu_a h chunks)) @
          drop (k + j) (rtp_stream q t (fu_fragments fu_a h chunks))) = Some (s', [])))
    \<and> (dp_codec s = kH265 \<longrightarrow>
      (\<exists>s'. run_steps OnVideoPayload s
         (take k (rtp_stream q t (fu_fragments fu_h265 h2 chunks)) @
          drop (k + j) (rtp_stream q t (fu_fragments fu_h265 h2 chunks))) = Some (s', [])))"
  using h264.lossy_run [OF _ assms(2-5) refl, of q t h] h265.lossy_run [OF _ assms(2-5) refl, of q t h2] assms(1)
  by (simp add: h264.ready_def h265.ready_def)

theorem rtp_loss_suppresses_unit_witness:
  "\<exists>s'. run_steps OnVideoPayload (depacketizer_set_callback (depacketizer_init kH264))
      (take 1 (rtp_stream 20 9000 (fu_fragments fu_a 0x65 [[0xaa], [0xbb], [0xdd]])) @
       drop 2 (rtp_stream 20 9000 (fu_fragments fu_a 0x65 [[0xaa], [0xbb], [0xdd]]))) = Some (s', [])"
  using rtp_loss_suppresses_unit [of "depacketizer_set_callback (depacketizer_init kH264)" 1 1
      "[[0xaa], [0xbb], [0xdd]]" 20 9000 "0x65" undefined]
  by (simp add: depacketizer_set_callback_def depacketizer_init_def flip: numeral_2_eq_2)

text \<open>
  An aggregation packet (STAP-A of H.264, AP of H.265) is split into exactly the NAL units it holds,
  in order, each with the time stamp and marker of the packet.
\<close>

theorem rtp_aggregation:
  assumes "dp_callback s" and "\<forall>n \<in> set nals. n \<noteq> [] \<and> length n < 65536"
    and "ah AND 0x1f = (24 :: u8)" and "drop_bit 1 h0 AND 0x3f = (48 :: u8)"
  shows "HandleH264 s (ah # aggregate nals) t m =
      Some (s\<lparr>dp_nals := dp_nals s + of_nat (length nals)\<rparr>,
            map (\<lambda>n. \<lparr>nu_data = kStartCode @ n, nu_rtp_timestamp = t, nu_marker = m\<rparr>) nals, True)
    \<and> HandleH265 s (h0 # h1 # aggregate nals) t m =
      Some (s\<lparr>dp_nals := dp_nals s + of_nat (length nals)\<rparr>,
            map (\<lambda>n. \<lparr>nu_data = kStartCode @ n, nu_rtp_timestamp = t, nu_marker = m\<rparr>) nals, True)"
proof -
  have "ah AND 0x1f \<ge> 1" "\<not> ah AND 0x1f \<le> 23" "\<not> drop_bit 1 h0 AND 0x3f \<le> 47"
    unfolding assms(3,4) by simp_all
  with assms(3,4) aggregation_loop_aggregate [OF assms(1,2), of "[ah]" t m]
    aggregation_loop_aggregate [OF assms(1,2), of "[h0, h1]" t m, simplified, folded numeral_2_eq_2]
  show ?thesis by (simp add: HandleH264_def HandleH265_def)
qed

theorem rtp_aggregation_witness:
  "map_option (map nu_data \<circ> fst \<circ> snd) (HandleH264 (depacketizer_set_callback (depacketizer_init kH264))
     (0x18 # aggregate [[0x67, 0x42], [0x68, 0xce]]) 9000 True) =
   Some [[0, 0, 0, 1, 0x67, 0x42], [0, 0, 0, 1, 0x68, 0xce]]"
  using rtp_aggregation [of "depacketizer_set_callback (depacketizer_init kH264)" "[[0x67, 0x42], [0x68, 0xce]]"
      "0x18" "0x60" 9000 True "0x01"]
  by (simp add: depacketizer_set_callback_def depacketizer_init_def kStartCode_def)

text \<open>
  C26: for every packet RFC 3550 allows (up to fifteen CSRC words, an optional header extension, optional
  padding), the payload the codec handler sees is exactly the payload of the packet, with the packet's sequence
  number, time stamp and marker.
\<close>

theorem rtp_strips_header:
  assumes "encodable pt csrcs ext pad" and "payload \<noteq> []"
    and "pkt = rtp_encode marker pt q t ssrc csrcs ext pad payload"
  shows "rtp_Push s pkt =
    dispatch_payload (check_sequence (s\<lparr>dp_packets := dp_packets s + 1\<rparr>) q) pkt payload
      \<lparr>rh_payload_type = pt, rh_sequence = q, rh_timestamp = t, rh_marker = marker,
       rh_payload_offset = payload_offset csrcs ext\<rparr>"
proof -
  have "payload_offset csrcs ext + length payload \<le> length pkt"
    by (simp add: assms(3) length_rtp_encode)
  then show ?thesis
    using assms(2) ParseRtp_encode [OF assms(1), of marker q t ssrc payload] PayloadSize_encode [OF assms(1,3)]
    by (simp add: rtp_Push_def assms(3) Let_def)
qed

theorem rtp_strips_header_witness:
  "map_option (map nu_data \<circ> fst \<circ> snd) (rtp_Push (depacketizer_set_callback (depacketizer_init kH264))
     (rtp_encode False 96 1 1 7 [0x11223344] (Some (0xbe, 0xde, [0])) 3 [0x65, 0xaa])) =
   Some [[0, 0, 0, 1, 0x65, 0xaa]]"
proof -
  have "encodable 96 [0x11223344] (Some (0xbe, 0xde, [0])) 3" by (simp add: encodable_def)
  note strip = rtp_strips_header [OF this _ refl, of "[0x65, 0xaa]"
      "depacketizer_set_callback (depacketizer_init kH264)" False 1 1 7]
  show ?thesis
    by (subst strip) (simp_all add: dispatch_payload_def check_sequence_def HandleH264_def EmitNal_def
        depacketizer_set_callback_def depacketizer_init_def kStartCode_def)
qed

text \<open>
  Codec detection recognises the packets that open a stream (H.264 parameter sets and key frames
  whatever follows the first byte; H.265 parameter sets and key frames), but an H.264 inter slice with header
  byte 0x41 whose next byte has a nonzero low three bits is taken for H.265, so a stream joined in the middle can
  be misdetected.
\<close>

theorem rtp_DetectCodec_outcomes:
  "(p0 \<in> {0x65, 0x67, 0x68} \<longrightarrow> DetectCodec (MakeRtp q t m (p0 # p1 # rest)) = Some kH264)
   \<and> (p0 \<in> {0x26, 0x40, 0x42, 0x44} \<and> p1 = 0x01 \<longrightarrow> DetectCodec (MakeRtp q t m (p0 # p1 # rest)) = Some kH265)
   \<and> (p0 = 0x41 \<and> p1 AND 0x07 \<noteq> 0 \<longrightarrow> DetectCodec (MakeRtp q t m (p0 # p1 # rest)) = Some kH265)"
  unfolding DetectCodec_MakeRtp by auto

theorem rtp_DetectCodec_outcomes_witness:
  "DetectCodec (MakeRtp 1 0 True [0x65, 0x11, 0x22]) = Some kH264
   \<and> DetectCodec (MakeRtp 1 0 True [0x41, 0x9a, 0x22]) = Some kH265"
  using rtp_DetectCodec_outcomes [of "0x65" 1 0 True "0x11" "[0x22]"] rtp_DetectCodec_outcomes [of "0x41" 1 0 True "0x9a" "[0x22]"]
  by simp

end
