(* ===== verification/Msp_Osd.thy ===== *)
theory Msp_Osd
  imports Prelude
begin

section \<open>MSP DisplayPort on-screen display\<close>

text \<open>
  Model of \<open>core/src/msp/displayport.cpp\<close> and \<open>core/include/openipc/msp_osd.h\<close>. \<open>MspOsdDecoder\<close> is the record
  \<open>msp_decoder\<close>; \<open>HandleByte\<close> is its byte-driven state machine, one equation branch per \<open>case\<close>; the DisplayPort
  subcommands edit the character grid \<open>osd_frame\<close>, whose cells are written with a bounds check (\<open>None\<close> is a
  write outside the vector). The frames handed to the callback are the outputs.

  The specification is a character terminal, \<open>canvas\<close>, with one operation per subcommand; the decoder is shown to
  implement it on every stream of MSP v1 and v2 packets. \<open>size_t\<close> products are exact: \<open>rows * cols\<close> of a
  canvas fits in \<open>size_t\<close>.
\<close>

subsection \<open>Data\<close>

definition kMspDisplayPort :: u16 where
  "kMspDisplayPort = 182"

text \<open>One round of the CRC-8/DVB-S2 loop, and its eight rounds.\<close>

definition crc8_shift :: "u8 \<Rightarrow> u8" where
  "crc8_shift crc = (if crc AND 0x80 \<noteq> 0 then push_bit 1 crc XOR 0xd5 else push_bit 1 crc)"

definition Crc8DvbS2 :: "u8 \<Rightarrow> u8 \<Rightarrow> u8" where
  "Crc8DvbS2 crc byte = (crc8_shift ^^ 8) (crc XOR byte)"

datatype displayport_cmd = kHeartbeat | kRelease | kClear | kWriteString | kDrawScreen | kOptions | kSys | kOtherCmd

definition displayport_cmd_of :: "u8 \<Rightarrow> displayport_cmd" where
  "displayport_cmd_of b =
     (if b = 0 then kHeartbeat else if b = 1 then kRelease else if b = 2 then kClear
      else if b = 3 then kWriteString else if b = 4 then kDrawScreen else if b = 5 then kOptions
      else if b = 6 then kSys else kOtherCmd)"

record osd_cell =
  oc_glyph :: u16
  oc_attributes :: u8

definition blank_cell :: osd_cell where
  "blank_cell = \<lparr>oc_glyph = 0, oc_attributes = 0\<rparr>"

record osd_frame =
  of_rows :: int
  of_cols :: int
  of_cells :: "osd_cell list"

text \<open>\<open>OsdFrame::at\<close>: the index of a cell in the row-major vector.\<close>

definition at_index :: "osd_frame \<Rightarrow> int \<Rightarrow> int \<Rightarrow> nat" where
  "at_index frame row col = nat (row * of_cols frame + col)"

definition kOsdRowsSd :: int where "kOsdRowsSd = 16"
definition kOsdColsSd :: int where "kOsdColsSd = 30"
definition kOsdRowsHd :: int where "kOsdRowsHd = 20"
definition kOsdColsHd :: int where "kOsdColsHd = 53"

lemmas canvas_size_defs = kOsdRowsSd_def kOsdColsSd_def kOsdRowsHd_def kOsdColsHd_def

datatype msp_state =
    kIdle | kHeaderM | kHeaderArrow
  | kV1Size | kV1Command | kV1Payload | kV1Checksum
  | kV2Flags | kV2FunctionLo | kV2FunctionHi | kV2SizeLo | kV2SizeHi | kV2Payload | kV2Checksum

record msp_decoder =
  ms_state :: msp_state
  ms_v2 :: bool
  ms_function :: u16
  ms_expected_size :: u16
  ms_checksum :: u8
  ms_payload :: bytes
  ms_frame :: osd_frame
  ms_callback :: bool
  ms_frames :: u64
  ms_messages :: u64
  ms_checksum_errors :: u64

subsection \<open>Operations\<close>

definition SetCanvas :: "msp_decoder \<Rightarrow> int \<Rightarrow> int \<Rightarrow> msp_decoder" where
  "SetCanvas s rows cols =
     (if rows \<le> 0 \<or> cols \<le> 0 then s
      else if of_rows (ms_frame s) = rows \<and> of_cols (ms_frame s) = cols then s
      else s\<lparr>ms_frame := \<lparr>of_rows = rows, of_cols = cols, of_cells = replicate (nat (rows * cols)) blank_cell\<rparr>\<rparr>)"

definition osd_Clear :: "msp_decoder \<Rightarrow> msp_decoder" where
  "osd_Clear s = s\<lparr>ms_frame := (ms_frame s)\<lparr>of_cells := map (\<lambda>_. blank_cell) (of_cells (ms_frame s))\<rparr>\<rparr>"

definition msp_decoder_init :: msp_decoder where
  "msp_decoder_init =
     SetCanvas \<lparr>ms_state = kIdle, ms_v2 = False, ms_function = 0, ms_expected_size = 0, ms_checksum = 0,
        ms_payload = [], ms_frame = \<lparr>of_rows = 0, of_cols = 0, of_cells = []\<rparr>, ms_callback = False,
        ms_frames = 0, ms_messages = 0, ms_checksum_errors = 0\<rparr> kOsdRowsHd kOsdColsHd"

definition osd_set_callback :: "msp_decoder \<Rightarrow> msp_decoder" where
  "osd_set_callback s = s\<lparr>ms_callback := True\<rparr>"

definition osd_callback :: "msp_decoder \<Rightarrow> osd_frame list" where
  "osd_callback s = (if ms_callback s then [ms_frame s] else [])"

text \<open>The cell a character of \<open>WRITE_STRING\<close> becomes: the attribute's low two bits select the font page.\<close>

definition char_cell :: "u8 \<Rightarrow> u8 \<Rightarrow> osd_cell" where
  "char_cell attribute ch =
     (let page = push_bit 8 (ucast (attribute AND 0x03)) in \<lparr>oc_glyph = ucast ch OR page, oc_attributes = attribute\<rparr>)"

text \<open>The loop of \<open>WRITE_STRING\<close> over the characters, from payload index \<open>i\<close>.\<close>

function write_loop :: "bytes \<Rightarrow> nat \<Rightarrow> int \<Rightarrow> int \<Rightarrow> u8 \<Rightarrow> osd_frame \<Rightarrow> osd_frame option" where
  "write_loop payload i row col attribute frame =
     (if i < length payload then
        let target_col = col + int (i - 4) in
        if target_col \<ge> of_cols frame then Some frame
        else do {
          ch \<leftarrow> read8 payload i;
          if ch = 0 then Some frame
          else do {
            cells \<leftarrow> write_at (of_cells frame) (at_index frame row target_col) (char_cell attribute ch);
            write_loop payload (i + 1) row col attribute (frame\<lparr>of_cells := cells\<rparr>)
          }
        }
      else Some frame)"
  by auto
termination by (relation "measure (\<lambda>(payload, i, _). length payload - i)") auto

declare write_loop.simps [simp del]

definition HandleDisplayPort :: "msp_decoder \<Rightarrow> bytes \<Rightarrow> (msp_decoder \<times> osd_frame list) option" where
  "HandleDisplayPort s payload =
     (if length payload < 1 then Some (s, [])
      else do {
        c \<leftarrow> read8 payload 0;
        case displayport_cmd_of c of
          kClear \<Rightarrow> Some (osd_Clear s, [])
        | kWriteString \<Rightarrow>
            (if length payload < 4 then Some (s, [])
             else do {
               r \<leftarrow> read8 payload 1;
               cl \<leftarrow> read8 payload 2;
               attribute \<leftarrow> read8 payload 3;
               let row = uint r;
               let col = uint cl;
               if row < 0 \<or> row \<ge> of_rows (ms_frame s) \<or> col < 0 \<or> col \<ge> of_cols (ms_frame s) then Some (s, [])
               else do {
                 frame \<leftarrow> write_loop payload 4 row col attribute (ms_frame s);
                 Some (s\<lparr>ms_frame := frame\<rparr>, [])
               }
             })
        | kDrawScreen \<Rightarrow> Some (s\<lparr>ms_frames := ms_frames s + 1\<rparr>, osd_callback s)
        | kOptions \<Rightarrow>
            (if length payload \<ge> 3 then do {
               variant \<leftarrow> read8 payload 2;
               Some (if variant = 0 then SetCanvas s kOsdRowsSd kOsdColsSd else SetCanvas s kOsdRowsHd kOsdColsHd, [])
             } else Some (s, []))
        | kRelease \<Rightarrow> Some (osd_Clear s, osd_callback (osd_Clear s))
        | _ \<Rightarrow> Some (s, [])
      })"

definition DispatchMessage :: "msp_decoder \<Rightarrow> (msp_decoder \<times> osd_frame list) option" where
  "DispatchMessage s0 =
     (let s = s0\<lparr>ms_messages := ms_messages s0 + 1\<rparr> in
      if ms_function s = kMspDisplayPort then HandleDisplayPort s (ms_payload s) else Some (s, []))"

text \<open>The shared body of the two checksum states.\<close>

definition finish_message :: "msp_decoder \<Rightarrow> u8 \<Rightarrow> (msp_decoder \<times> osd_frame list) option" where
  "finish_message s byte = do {
     (s1, out) \<leftarrow> (if ms_checksum s = byte then DispatchMessage s
                    else Some (s\<lparr>ms_checksum_errors := ms_checksum_errors s + 1\<rparr>, []));
     Some (s1\<lparr>ms_state := kIdle\<rparr>, out)
   }"

definition HandleByte :: "msp_decoder \<Rightarrow> u8 \<Rightarrow> (msp_decoder \<times> osd_frame list) option" where
  "HandleByte s byte =
     (case ms_state s of
        kIdle \<Rightarrow> Some (if byte = 0x24 then s\<lparr>ms_state := kHeaderM\<rparr> else s, [])
      | kHeaderM \<Rightarrow>
          Some (if byte = 0x4d then s\<lparr>ms_v2 := False, ms_state := kHeaderArrow\<rparr>
                else if byte = 0x58 then s\<lparr>ms_v2 := True, ms_state := kHeaderArrow\<rparr>
                else if byte = 0x24 then s
                else s\<lparr>ms_state := kIdle\<rparr>, [])
      | kHeaderArrow \<Rightarrow>
          Some (if byte = 0x3c \<or> byte = 0x3e \<or> byte = 0x21 then
                  s\<lparr>ms_payload := [], ms_checksum := 0, ms_state := (if ms_v2 s then kV2Flags else kV1Size)\<rparr>
                else s\<lparr>ms_state := kIdle\<rparr>, [])
      | kV1Size \<Rightarrow>
          Some (s\<lparr>ms_expected_size := ucast byte, ms_checksum := byte, ms_state := kV1Command\<rparr>, [])
      | kV1Command \<Rightarrow>
          Some (s\<lparr>ms_function := ucast byte, ms_checksum := ms_checksum s XOR byte,
                  ms_state := (if ms_expected_size s > 0 then kV1Payload else kV1Checksum)\<rparr>, [])
      | kV1Payload \<Rightarrow>
          (let s1 = s\<lparr>ms_payload := ms_payload s @ [byte], ms_checksum := ms_checksum s XOR byte\<rparr> in
           Some (if length (ms_payload s1) \<ge> unat (ms_expected_size s1) then s1\<lparr>ms_state := kV1Checksum\<rparr> else s1, []))
      | kV1Checksum \<Rightarrow> finish_message s byte
      | kV2Flags \<Rightarrow> Some (s\<lparr>ms_checksum := Crc8DvbS2 0 byte, ms_state := kV2FunctionLo\<rparr>, [])
      | kV2FunctionLo \<Rightarrow>
          Some (s\<lparr>ms_function := ucast byte, ms_checksum := Crc8DvbS2 (ms_checksum s) byte,
                  ms_state := kV2FunctionHi\<rparr>, [])
      | kV2FunctionHi \<Rightarrow>
          Some (s\<lparr>ms_function := ms_function s OR push_bit 8 (ucast byte),
                  ms_checksum := Crc8DvbS2 (ms_checksum s) byte, ms_state := kV2SizeLo\<rparr>, [])
      | kV2SizeLo \<Rightarrow>
          Some (s\<lparr>ms_expected_size := ucast byte, ms_checksum := Crc8DvbS2 (ms_checksum s) byte,
                  ms_state := kV2SizeHi\<rparr>, [])
      | kV2SizeHi \<Rightarrow>
          (let s1 = s\<lparr>ms_expected_size := ms_expected_size s OR push_bit 8 (ucast byte),
                      ms_checksum := Crc8DvbS2 (ms_checksum s) byte\<rparr> in
           Some (s1\<lparr>ms_state := (if ms_expected_size s1 > 1024 then kIdle
                                  else if ms_expected_size s1 > 0 then kV2Payload else kV2Checksum)\<rparr>, []))
      | kV2Payload \<Rightarrow>
          (let s1 = s\<lparr>ms_payload := ms_payload s @ [byte], ms_checksum := Crc8DvbS2 (ms_checksum s) byte\<rparr> in
           Some (if length (ms_payload s1) \<ge> unat (ms_expected_size s1) then s1\<lparr>ms_state := kV2Checksum\<rparr> else s1, []))
      | kV2Checksum \<Rightarrow> finish_message s byte)"

definition osd_Push :: "msp_decoder \<Rightarrow> bytes \<Rightarrow> (msp_decoder \<times> osd_frame list) option" where
  "osd_Push s data = run_steps HandleByte s data"

subsection \<open>Invariant\<close>

definition frame_wf :: "osd_frame \<Rightarrow> bool" where
  "frame_wf f \<longleftrightarrow> 0 < of_rows f \<and> 0 < of_cols f \<and> length (of_cells f) = nat (of_rows f * of_cols f)"

abbreviation osd_inv :: "msp_decoder \<Rightarrow> bool" where
  "osd_inv s \<equiv> frame_wf (ms_frame s)"

lemma at_index_bound:
  assumes "frame_wf f" and "0 \<le> r" "r < of_rows f" and "0 \<le> c" "c < of_cols f"
  shows "at_index f r c < length (of_cells f)"
proof -
  have "(r + 1) * of_cols f \<le> of_rows f * of_cols f"
    using assms by (intro mult_right_mono) auto
  moreover have "r * of_cols f + c < (r + 1) * of_cols f" using assms(5) by (simp add: algebra_simps)
  ultimately have "r * of_cols f + c < of_rows f * of_cols f" by linarith
  then show ?thesis using assms by (simp add: at_index_def frame_wf_def)
qed

lemma at_index_inj:
  assumes "0 \<le> r" "0 \<le> c" "c < of_cols f" and "0 \<le> r'" "0 \<le> c'" "c' < of_cols f"
  shows "at_index f r c = at_index f r' c' \<longleftrightarrow> r = r' \<and> c = c'"
proof
  assume "at_index f r c = at_index f r' c'"
  then have eq: "r * of_cols f + c = r' * of_cols f + c'"
    using assms by (simp add: at_index_def eq_nat_nat_iff)
  have "(r * of_cols f + c) div of_cols f = r" "(r' * of_cols f + c') div of_cols f = r'"
    using assms by simp_all
  with eq have "r = r'" by metis
  with eq show "r = r' \<and> c = c'" by simp
qed simp

lemma at_index_cells [simp]: "at_index (f\<lparr>of_cells := cs\<rparr>) r c = at_index f r c"
  by (simp add: at_index_def)

subsection \<open>The specification: a character terminal\<close>

record canvas =
  cv_rows :: int
  cv_cols :: int
  cv_cell :: "int \<Rightarrow> int \<Rightarrow> osd_cell"

definition canvas_of :: "osd_frame \<Rightarrow> canvas" where
  "canvas_of f =
     \<lparr>cv_rows = of_rows f, cv_cols = of_cols f,
      cv_cell = (\<lambda>r c. if 0 \<le> r \<and> r < of_rows f \<and> 0 \<le> c \<and> c < of_cols f
                        then of_cells f ! at_index f r c else blank_cell)\<rparr>"

definition blank_canvas :: "int \<Rightarrow> int \<Rightarrow> canvas" where
  "blank_canvas rows cols = \<lparr>cv_rows = rows, cv_cols = cols, cv_cell = (\<lambda>_ _. blank_cell)\<rparr>"

definition canvas_resize :: "canvas \<Rightarrow> int \<Rightarrow> int \<Rightarrow> canvas" where
  "canvas_resize cv rows cols = (if cv_rows cv = rows \<and> cv_cols cv = cols then cv else blank_canvas rows cols)"

text \<open>A string starts on the canvas or is ignored, ends at the first NUL and is clipped at the right edge.\<close>

definition canvas_write :: "canvas \<Rightarrow> int \<Rightarrow> int \<Rightarrow> u8 \<Rightarrow> bytes \<Rightarrow> canvas" where
  "canvas_write cv row col attribute chars =
     (let text_run = takeWhile (\<lambda>ch. ch \<noteq> 0) chars in
      if row < cv_rows cv \<and> col < cv_cols cv then
        cv\<lparr>cv_cell := (\<lambda>r c. if r = row \<and> col \<le> c \<and> c < cv_cols cv \<and> c < col + int (length text_run)
                             then char_cell attribute (text_run ! nat (c - col)) else cv_cell cv r c)\<rparr>
      else cv)"

text \<open>The effect of a DisplayPort payload on the terminal, and the canvases it shows.\<close>

definition terminal_step :: "canvas \<Rightarrow> bytes \<Rightarrow> canvas \<times> canvas list" where
  "terminal_step cv payload =
     (case payload of
        [] \<Rightarrow> (cv, [])
      | c # args \<Rightarrow>
         (let blank = blank_canvas (cv_rows cv) (cv_cols cv) in
          if c = 1 then (blank, [blank])
          else if c = 2 then (blank, [])
          else if c = 3 then
            (case args of
               row # col # attribute # chars \<Rightarrow> (canvas_write cv (uint row) (uint col) attribute chars, [])
             | _ \<Rightarrow> (cv, []))
          else if c = 4 then (cv, [cv])
          else if c = 5 then
            (case args of
               _ # variant # _ \<Rightarrow> (if variant = 0 then canvas_resize cv 16 30 else canvas_resize cv 20 53, [])
             | _ \<Rightarrow> (cv, []))
          else (cv, [])))"

subsection \<open>The write loop implements the terminal's write\<close>

lemma write_loop_spec:
  assumes "frame_wf f" and "0 \<le> row" "row < of_rows f" and "0 \<le> col" and "4 \<le> i"
  shows "\<exists>f'. write_loop payload i row col attribute f = Some f' \<and> frame_wf f'
    \<and> of_rows f' = of_rows f \<and> of_cols f' = of_cols f
    \<and> (\<forall>r c. 0 \<le> r \<longrightarrow> r < of_rows f \<longrightarrow> 0 \<le> c \<longrightarrow> c < of_cols f \<longrightarrow>
         of_cells f' ! at_index f r c =
           (if r = row \<and> col + int (i - 4) \<le> c \<and> c < col + int (i - 4) + int (length (takeWhile (\<lambda>ch. ch \<noteq> 0) (drop i payload)))
            then char_cell attribute (payload ! (4 + nat (c - col))) else of_cells f ! at_index f r c))"
  using assms
proof (induction "length payload - i" arbitrary: i f rule: less_induct)
  case less
  let ?t = "col + int (i - 4)"
  consider (stop) "length payload \<le> i \<or> of_cols f \<le> ?t \<or> payload ! i = 0"
    | (go) "i < length payload" "?t < of_cols f" "payload ! i \<noteq> 0" by linarith
  then show ?case
  proof cases
    case stop
    then have "write_loop payload i row col attribute f = Some f"
      by (subst write_loop.simps) (auto simp: Let_def)
    moreover have "length payload \<le> i \<or> of_cols f \<le> ?t \<or> takeWhile (\<lambda>ch. ch \<noteq> 0) (drop i payload) = []"
      using stop by (cases "i < length payload") (auto simp flip: Cons_nth_drop_Suc)
    ultimately show ?thesis using less.prems by auto
  next
    case go
    define tc where "tc = ?t"
    have tc: "tc < of_cols f" "0 \<le> tc" and pos: "4 + nat (tc - col) = i"
      using go(2) less.prems(4,5) by (simp_all add: tc_def)
    let ?run = "\<lambda>j. int (length (takeWhile (\<lambda>ch. ch \<noteq> 0) (drop j payload)))"
    let ?cells = "(of_cells f)[at_index f row tc := char_cell attribute (payload ! i)]"
    let ?f = "f\<lparr>of_cells := ?cells\<rparr>"
    have idx: "at_index f row tc < length (of_cells f)"
      using less.prems tc by (intro at_index_bound) auto
    then have step: "write_loop payload i row col attribute f = write_loop payload (i + 1) row col attribute ?f"
      using go by (subst write_loop.simps) (simp add: Let_def flip: tc_def)
    have wf: "frame_wf ?f" using less.prems(1) by (simp add: frame_wf_def)
    have next_col: "col + int (i + 1 - 4) = tc + 1" using less.prems(5) by (simp add: tc_def)
    have IH: "length payload - (i + 1) < length payload - i" using go(1) by simp
    obtain f' where f': "write_loop payload (i + 1) row col attribute ?f = Some f'" "frame_wf f'"
        "of_rows f' = of_rows f" "of_cols f' = of_cols f"
      and cells: "\<And>r c. 0 \<le> r \<Longrightarrow> r < of_rows f \<Longrightarrow> 0 \<le> c \<Longrightarrow> c < of_cols f \<Longrightarrow>
         of_cells f' ! at_index f r c =
           (if r = row \<and> tc + 1 \<le> c \<and> c < tc + 1 + ?run (i + 1)
            then char_cell attribute (payload ! (4 + nat (c - col))) else ?cells ! at_index f r c)"
      using less.hyps [OF IH wf, unfolded next_col] less.prems by auto
    have "takeWhile (\<lambda>ch. ch \<noteq> 0) (drop i payload) = payload ! i # takeWhile (\<lambda>ch. ch \<noteq> 0) (drop (i + 1) payload)"
      using go by (simp flip: Cons_nth_drop_Suc)
    then have run: "?run i = 1 + ?run (i + 1)" by simp
    have "of_cells f' ! at_index f r c =
           (if r = row \<and> tc \<le> c \<and> c < tc + ?run i
            then char_cell attribute (payload ! (4 + nat (c - col))) else of_cells f ! at_index f r c)"
      if rc: "0 \<le> r" "r < of_rows f" "0 \<le> c" "c < of_cols f" for r c
    proof -
      have "?cells ! at_index f r c =
          (if r = row \<and> c = tc then char_cell attribute (payload ! i) else of_cells f ! at_index f r c)"
        using idx at_index_inj [of row tc f r c] less.prems tc rc by (auto simp: nth_list_update)
      then show ?thesis unfolding cells [OF rc] run using pos by auto
    qed
    then show ?thesis unfolding step tc_def [symmetric] using f' by auto
  qed
qed

subsection \<open>The subcommands implement the terminal\<close>

lemma canvas_of_simps [simp]:
  "cv_rows (canvas_of f) = of_rows f" "cv_cols (canvas_of f) = of_cols f"
  by (simp_all add: canvas_of_def)

lemma osd_Clear_frame [simp]:
  "of_rows (ms_frame (osd_Clear s)) = of_rows (ms_frame s)" "of_cols (ms_frame (osd_Clear s)) = of_cols (ms_frame s)"
  "ms_callback (osd_Clear s) = ms_callback s" "osd_inv (osd_Clear s) = osd_inv s"
  by (simp_all add: osd_Clear_def frame_wf_def)

lemma canvas_of_Clear:
  assumes "osd_inv s"
  shows "canvas_of (ms_frame (osd_Clear s)) = blank_canvas (of_rows (ms_frame s)) (of_cols (ms_frame s))"
  using at_index_bound [OF assms]
  by (auto simp: canvas_of_def blank_canvas_def osd_Clear_def fun_eq_iff)

lemma SetCanvas_inv: "osd_inv s \<Longrightarrow> osd_inv (SetCanvas s rows cols)"
  by (auto simp: SetCanvas_def frame_wf_def)

lemma SetCanvas_keeps [simp]: "ms_callback (SetCanvas s rows cols) = ms_callback s"
  by (simp add: SetCanvas_def)

lemma canvas_of_SetCanvas:
  assumes "0 < rows" and "0 < cols"
  shows "canvas_of (ms_frame (SetCanvas s rows cols)) = canvas_resize (canvas_of (ms_frame s)) rows cols"
proof (cases "of_rows (ms_frame s) = rows \<and> of_cols (ms_frame s) = cols")
  case True
  then show ?thesis using assms by (simp add: SetCanvas_def canvas_resize_def)
next
  case False
  let ?f = "\<lparr>of_rows = rows, of_cols = cols, of_cells = replicate (nat (rows * cols)) blank_cell\<rparr>"
  have "frame_wf ?f" using assms by (simp add: frame_wf_def)
  then have "canvas_of ?f = blank_canvas rows cols"
    using at_index_bound [of ?f] by (auto simp: canvas_of_def blank_canvas_def fun_eq_iff)
  then show ?thesis using False assms by (auto simp: SetCanvas_def canvas_resize_def)
qed

lemma write_refines:
  assumes "frame_wf f" and "0 \<le> row" "row < of_rows f" "0 \<le> col" "col < of_cols f"
  shows "\<exists>f'. write_loop (c0 # c1 # c2 # attribute # chars) 4 row col attribute f = Some f' \<and> frame_wf f'
    \<and> canvas_of f' = canvas_write (canvas_of f) row col attribute chars"
proof -
  let ?p = "c0 # c1 # c2 # attribute # chars"
  let ?run = "takeWhile (\<lambda>ch. ch \<noteq> 0) chars"
  obtain f' where f': "write_loop ?p 4 row col attribute f = Some f'" "frame_wf f'"
      "of_rows f' = of_rows f" "of_cols f' = of_cols f"
    and cells: "\<And>r c. 0 \<le> r \<Longrightarrow> r < of_rows f \<Longrightarrow> 0 \<le> c \<Longrightarrow> c < of_cols f \<Longrightarrow>
       of_cells f' ! at_index f r c =
         (if r = row \<and> col \<le> c \<and> c < col + int (length ?run)
          then char_cell attribute (?p ! (4 + nat (c - col))) else of_cells f ! at_index f r c)"
    using write_loop_spec [of f row col 4 ?p attribute] assms by auto
  have nth: "chars ! nat (c - col) = ?run ! nat (c - col)" if "c < col + int (length ?run)" "col \<le> c" for c
    using that by (simp add: takeWhile_nth nat_less_iff)
  have idx: "at_index f' = at_index f" using f'(4) by (simp add: at_index_def fun_eq_iff)
  have "canvas_of f' = canvas_write (canvas_of f) row col attribute chars"
    unfolding canvas_of_def canvas_write_def using f'(3,4) assms
    by (auto simp: Let_def fun_eq_iff idx cells nth)
  with f'(1,2) show ?thesis by blast
qed

text \<open>A subcommand changes the grid and the frame counter, never the parser's own state.\<close>

lemma HandleDisplayPort_keeps_parser:
  "HandleDisplayPort s payload = Some (s', out) \<Longrightarrow>
     s' = s\<lparr>ms_frame := ms_frame s', ms_frames := ms_frames s'\<rparr>"
  by (auto simp: HandleDisplayPort_def osd_Clear_def SetCanvas_def Let_def
      split: if_splits displayport_cmd.splits Option.bind_splits)

lemma HandleDisplayPort_write:
  assumes "osd_inv s"
  shows "\<exists>s'. HandleDisplayPort s (3 # args) = Some (s', []) \<and> osd_inv s' \<and> ms_callback s' = ms_callback s
    \<and> terminal_step (canvas_of (ms_frame s)) (3 # args) = (canvas_of (ms_frame s'), [])"
proof (cases "\<exists>r c a chars. args = r # c # a # chars")
  case False
  then have "length args < 3" by (intro ccontr [of "length args < 3"]) (auto simp: not_less Suc_le_length_iff numeral_3_eq_3)
  with False show ?thesis
    using assms by (auto simp: HandleDisplayPort_def displayport_cmd_of_def terminal_step_def split: list.splits)
next
  case True
  then obtain r c a chars where args: "args = r # c # a # chars" by blast
  show ?thesis
  proof (cases "uint r < of_rows (ms_frame s) \<and> uint c < of_cols (ms_frame s)")
    case True
    then obtain f' where "write_loop (3 # args) 4 (uint r) (uint c) a (ms_frame s) = Some f'" "frame_wf f'"
        "canvas_of f' = canvas_write (canvas_of (ms_frame s)) (uint r) (uint c) a chars"
      using write_refines [OF assms, of "uint r" "uint c" 3 r c a chars] args by auto
    with True show ?thesis
      by (simp add: HandleDisplayPort_def displayport_cmd_of_def terminal_step_def args read_simps)
  next
    case False
    with assms show ?thesis
      by (auto simp: HandleDisplayPort_def displayport_cmd_of_def terminal_step_def canvas_write_def args read_simps)
  qed
qed

lemma HandleDisplayPort_options:
  assumes "osd_inv s"
  shows "\<exists>s'. HandleDisplayPort s (5 # args) = Some (s', []) \<and> osd_inv s' \<and> ms_callback s' = ms_callback s
    \<and> terminal_step (canvas_of (ms_frame s)) (5 # args) = (canvas_of (ms_frame s'), [])"
proof (cases "\<exists>x v more. args = x # v # more")
  case False
  then have "length args < 2" by (intro ccontr [of "length args < 2"]) (auto simp: not_less Suc_le_length_iff numeral_2_eq_2)
  with False show ?thesis
    using assms by (auto simp: HandleDisplayPort_def displayport_cmd_of_def terminal_step_def split: list.splits)
next
  case True
  then obtain x v more where "args = x # v # more" by blast
  then show ?thesis
    using SetCanvas_inv [OF assms]
    by (simp add: HandleDisplayPort_def displayport_cmd_of_def terminal_step_def canvas_of_SetCanvas canvas_size_defs read_simps)
qed

lemma HandleDisplayPort_refines:
  assumes "osd_inv s"
  shows "\<exists>s' out. HandleDisplayPort s payload = Some (s', out) \<and> osd_inv s' \<and> list_all frame_wf out
    \<and> ms_callback s' = ms_callback s
    \<and> fst (terminal_step (canvas_of (ms_frame s)) payload) = canvas_of (ms_frame s')
    \<and> map canvas_of out = (if ms_callback s then snd (terminal_step (canvas_of (ms_frame s)) payload) else [])"
proof (cases payload)
  case Nil
  with assms show ?thesis by (simp add: HandleDisplayPort_def terminal_step_def)
next
  case (Cons c args)
  consider (three) "c = 3" | (five) "c = 5" | (simple) "c \<noteq> 3" "c \<noteq> 5" by blast
  then show ?thesis
  proof cases
    case three
    with HandleDisplayPort_write [OF assms, of args] Cons show ?thesis by auto
  next
    case five
    with HandleDisplayPort_options [OF assms, of args] Cons show ?thesis by auto
  next
    case simple
    with Cons assms canvas_of_Clear [OF assms] show ?thesis
      by (simp add: HandleDisplayPort_def terminal_step_def displayport_cmd_of_def osd_callback_def Let_def)
  qed
qed

interpretation osd: refinement HandleDisplayPort "\<lambda>s. osd_inv s \<and> ms_callback s" "\<lambda>s. canvas_of (ms_frame s)"
  canvas_of terminal_step
proof
  fix s payload
  assume "osd_inv s \<and> ms_callback s"
  with HandleDisplayPort_refines [of s payload]
  show "\<exists>s' os. HandleDisplayPort s payload = Some (s', os) \<and> osd_inv s' \<and> ms_callback s'" by auto
next
  fix s payload s' os
  assume "osd_inv s \<and> ms_callback s" and "HandleDisplayPort s payload = Some (s', os)"
  with HandleDisplayPort_refines [of s payload]
  show "terminal_step (canvas_of (ms_frame s)) payload = (canvas_of (ms_frame s'), map canvas_of os)"
    by (auto intro!: prod_eqI)
qed

subsection \<open>The byte-driven parser\<close>

lemma osd_inv_update [simp]:
  "osd_inv (s\<lparr>ms_state := st\<rparr>) = osd_inv s" "osd_inv (s\<lparr>ms_messages := m\<rparr>) = osd_inv s"
  "osd_inv (s\<lparr>ms_checksum_errors := n\<rparr>) = osd_inv s"
  by simp_all

lemma finish_message_safe:
  assumes "osd_inv s"
  shows "\<exists>s' out. finish_message s byte = Some (s', out) \<and> osd_inv s' \<and> list_all frame_wf out \<and> ms_state s' = kIdle"
proof -
  have "osd_inv (s\<lparr>ms_messages := ms_messages s + 1\<rparr>)" using assms by simp
  from HandleDisplayPort_refines [OF this, of "ms_payload s"] assms show ?thesis
    by (auto simp: finish_message_def DispatchMessage_def Let_def)
qed

lemma HandleByte_safe:
  assumes "osd_inv s"
  shows "\<exists>s' out. HandleByte s byte = Some (s', out) \<and> osd_inv s' \<and> list_all frame_wf out"
  using assms finish_message_safe [OF assms, of byte]
  by (cases "ms_state s") (auto simp: HandleByte_def Let_def)

interpretation msp: checked_emitter HandleByte osd_inv frame_wf
proof
  fix s byte
  assume "osd_inv s"
  with HandleByte_safe show "\<exists>s' os. HandleByte s byte = Some (s', os) \<and> osd_inv s'" by blast
next
  fix s byte s' os
  assume "osd_inv s" and "HandleByte s byte = Some (s', os)"
  with HandleByte_safe [of s byte] show "list_all frame_wf os" by auto
qed

interpretation msp_stream: stream_parser osd_Push osd_inv
proof
  fix s data
  assume "osd_inv s"
  then show "\<exists>s' os. osd_Push s data = Some (s', os) \<and> osd_inv s'"
    unfolding osd_Push_def by (rule msp.run_safe)
next
  fix s xs ys
  show "osd_Push s (xs @ ys) = do {
      (s1, o1) \<leftarrow> osd_Push s xs; (s2, o2) \<leftarrow> osd_Push s1 ys; Some (s2, o1 @ o2) }"
    unfolding osd_Push_def by (rule run_steps_append)
qed (simp add: osd_Push_def)

subsection \<open>Packets on the wire\<close>

text \<open>An MSP packet: direction byte, then command or flags and function, then the payload.\<close>

datatype msp_packet = MspV1 u8 u8 bytes | MspV2 u8 u8 u16 bytes

fun packet_function :: "msp_packet \<Rightarrow> u16" where
  "packet_function (MspV1 dir cmd payload) = ucast cmd"
| "packet_function (MspV2 dir flags fn payload) = fn"

fun packet_payload :: "msp_packet \<Rightarrow> bytes" where
  "packet_payload (MspV1 dir cmd payload) = payload"
| "packet_payload (MspV2 dir flags fn payload) = payload"

fun packet_ok :: "msp_packet \<Rightarrow> bool" where
  "packet_ok (MspV1 dir cmd payload) \<longleftrightarrow> dir \<in> {0x3c, 0x3e, 0x21} \<and> length payload \<le> 255"
| "packet_ok (MspV2 dir flags fn payload) \<longleftrightarrow> dir \<in> {0x3c, 0x3e, 0x21} \<and> length payload \<le> 1024"

definition le16_bytes :: "u16 \<Rightarrow> bytes" where
  "le16_bytes w = [ucast w, ucast (drop_bit 8 w)]"

text \<open>Everything up to the checksum, and the checksum.\<close>

fun packet_body :: "msp_packet \<Rightarrow> bytes" where
  "packet_body (MspV1 dir cmd payload) = [0x24, 0x4d, dir, of_nat (length payload), cmd] @ payload"
| "packet_body (MspV2 dir flags fn payload) =
     [0x24, 0x58, dir] @ [flags] @ le16_bytes fn @ le16_bytes (of_nat (length payload)) @ payload"

fun packet_checksum :: "msp_packet \<Rightarrow> u8" where
  "packet_checksum (MspV1 dir cmd payload) = foldl (XOR) (of_nat (length payload) XOR cmd) payload"
| "packet_checksum (MspV2 dir flags fn payload) =
     foldl Crc8DvbS2 0 ([flags] @ le16_bytes fn @ le16_bytes (of_nat (length payload)) @ payload)"

definition encode_packet :: "msp_packet \<Rightarrow> bytes" where
  "encode_packet pk = packet_body pk @ [packet_checksum pk]"

text \<open>The decoder that has read a packet up to its checksum.\<close>

fun loaded :: "msp_decoder \<Rightarrow> msp_packet \<Rightarrow> msp_decoder" where
  "loaded s (MspV1 dir cmd payload) =
     s\<lparr>ms_state := kV1Checksum, ms_v2 := False, ms_function := ucast cmd, ms_expected_size := of_nat (length payload),
       ms_checksum := packet_checksum (MspV1 dir cmd payload), ms_payload := payload\<rparr>"
| "loaded s (MspV2 dir flags fn payload) =
     s\<lparr>ms_state := kV2Checksum, ms_v2 := True, ms_function := fn, ms_expected_size := of_nat (length payload),
       ms_checksum := packet_checksum (MspV2 dir flags fn payload), ms_payload := payload\<rparr>"

lemma le16_decode: "ucast (ucast w :: u8) OR push_bit 8 (ucast (ucast (drop_bit 8 w) :: u8)) = (w :: u16)"
proof (rule bit_word_eqI)
  fix n :: nat
  assume "n < LENGTH(16)"
  then have "n < 8 \<or> (8 \<le> n \<and> n < 16)" by auto
  then show "bit (ucast (ucast w :: u8) OR push_bit 8 (ucast (ucast (drop_bit 8 w) :: u8)) :: u16) n = bit w n"
    by (elim disjE) (auto simp: bit_simps)
qed

text \<open>The payload loop, shared by the two formats: \<open>upd\<close> is the checksum step.\<close>

lemma payload_run:
  assumes step: "\<And>s b. ms_state s = p \<Longrightarrow>
      HandleByte s b =
        (let s1 = s\<lparr>ms_payload := ms_payload s @ [b], ms_checksum := upd (ms_checksum s) b\<rparr> in
         Some (if length (ms_payload s1) \<ge> unat (ms_expected_size s1) then s1\<lparr>ms_state := q\<rparr> else s1, []))"
    and "ms_state s = p" and "length (ms_payload s) + length bs = unat (ms_expected_size s)" and "bs \<noteq> []"
  shows "run_steps HandleByte s bs =
    Some (s\<lparr>ms_payload := ms_payload s @ bs, ms_checksum := foldl upd (ms_checksum s) bs, ms_state := q\<rparr>, [])"
  using assms(2-)
proof (induction bs arbitrary: s)
  case (Cons b bs)
  show ?case
  proof (cases "bs = []")
    case True
    with Cons.prems show ?thesis by (simp add: step)
  next
    case False
    then have "0 < length bs" by simp
    with Cons.prems(2) have "\<not> unat (ms_expected_size s) \<le> Suc (length (ms_payload s))"
      unfolding length_Cons by linarith
    with Cons.prems have "HandleByte s b = Some (s\<lparr>ms_payload := ms_payload s @ [b], ms_checksum := upd (ms_checksum s) b\<rparr>, [])"
      by (simp add: step Let_def)
    with False Cons.prems Cons.IH [of "s\<lparr>ms_payload := ms_payload s @ [b], ms_checksum := upd (ms_checksum s) b\<rparr>"]
    show ?thesis by simp
  qed
qed simp

lemma v1_payload_step:
  "ms_state s = kV1Payload \<Longrightarrow> HandleByte s b =
     (let s1 = s\<lparr>ms_payload := ms_payload s @ [b], ms_checksum := ms_checksum s XOR b\<rparr> in
      Some (if length (ms_payload s1) \<ge> unat (ms_expected_size s1) then s1\<lparr>ms_state := kV1Checksum\<rparr> else s1, []))"
  by (simp add: HandleByte_def)

lemma v2_payload_step:
  "ms_state s = kV2Payload \<Longrightarrow> HandleByte s b =
     (let s1 = s\<lparr>ms_payload := ms_payload s @ [b], ms_checksum := Crc8DvbS2 (ms_checksum s) b\<rparr> in
      Some (if length (ms_payload s1) \<ge> unat (ms_expected_size s1) then s1\<lparr>ms_state := kV2Checksum\<rparr> else s1, []))"
  by (simp add: HandleByte_def)

lemma v1_body_run:
  assumes "ms_state s = kIdle" and "packet_ok (MspV1 dir cmd payload)"
  shows "run_steps HandleByte s (packet_body (MspV1 dir cmd payload)) = Some (loaded s (MspV1 dir cmd payload), [])"
proof -
  let ?n = "of_nat (length payload) :: u8"
  have size: "ucast ?n = (of_nat (length payload) :: u16)" "unat (of_nat (length payload) :: u16) = length payload"
    using assms(2) by (simp_all add: unsigned_of_nat take_bit_nat_eq_self)
  let ?s = "s\<lparr>ms_v2 := False, ms_payload := [], ms_expected_size := of_nat (length payload), ms_checksum := ?n XOR cmd,
    ms_function := ucast cmd, ms_state := (if payload = [] then kV1Checksum else kV1Payload)\<rparr>"
  have "(0 < (of_nat (length payload) :: u16)) = (payload \<noteq> [])"
    using size(2) by (metis length_greater_0_conv unat_gt_0 word_greater_zero_iff)
  then have head: "run_steps HandleByte s [0x24, 0x4d, dir, ?n, cmd] = Some (?s, [])"
    using assms by (simp add: HandleByte_def size)
  have "run_steps HandleByte ?s payload = Some (loaded s (MspV1 dir cmd payload), [])"
    using size(2) payload_run [where s = ?s and bs = payload, OF v1_payload_step] by (cases "payload = []") simp_all
  with head show ?thesis unfolding packet_body.simps run_steps_append by simp
qed

lemma v2_body_run:
  assumes "ms_state s = kIdle" and "packet_ok (MspV2 dir flags fn payload)"
  shows "run_steps HandleByte s (packet_body (MspV2 dir flags fn payload)) = Some (loaded s (MspV2 dir flags fn payload), [])"
proof -
  let ?n = "of_nat (length payload) :: u16"
  let ?head = "[flags] @ le16_bytes fn @ le16_bytes ?n"
  have size: "unat ?n = length payload"
    using assms(2) by (simp add: unsigned_of_nat take_bit_nat_eq_self)
  have small: "\<not> 1024 < ?n" "(0 < ?n) = (payload \<noteq> [])"
    using assms(2) size by (simp_all add: word_less_nat_alt)
  let ?s = "s\<lparr>ms_v2 := True, ms_payload := [], ms_expected_size := ?n, ms_checksum := foldl Crc8DvbS2 0 ?head,
    ms_function := fn, ms_state := (if payload = [] then kV2Checksum else kV2Payload)\<rparr>"
  have head: "run_steps HandleByte s ([0x24, 0x58, dir] @ ?head) = Some (?s, [])"
    using assms small by (simp add: HandleByte_def le16_bytes_def le16_decode Let_def)
  have "run_steps HandleByte ?s payload = Some (loaded s (MspV2 dir flags fn payload), [])"
    using size payload_run [where s = ?s and bs = payload, OF v2_payload_step] by (cases "payload = []") simp_all
  moreover have "packet_body (MspV2 dir flags fn payload) = ([0x24, 0x58, dir] @ ?head) @ payload" by simp
  ultimately show ?thesis using head by (simp only: run_steps_append) simp
qed

lemma body_run:
  "ms_state s = kIdle \<Longrightarrow> packet_ok pk \<Longrightarrow> run_steps HandleByte s (packet_body pk) = Some (loaded s pk, [])"
  by (cases pk) (simp_all add: v1_body_run v2_body_run del: packet_body.simps packet_ok.simps loaded.simps)

lemma loaded_fields [simp]:
  "ms_checksum (loaded s pk) = packet_checksum pk" "ms_payload (loaded s pk) = packet_payload pk"
  "ms_function (loaded s pk) = packet_function pk" "ms_frame (loaded s pk) = ms_frame s"
  "ms_callback (loaded s pk) = ms_callback s" "ms_messages (loaded s pk) = ms_messages s"
  "ms_checksum_errors (loaded s pk) = ms_checksum_errors s" "ms_frames (loaded s pk) = ms_frames s"
  "HandleByte (loaded s pk) b = finish_message (loaded s pk) b"
  by (cases pk; simp add: HandleByte_def)+

lemma packet_run:
  assumes "ms_state s = kIdle" and "packet_ok pk"
  shows "run_steps HandleByte s (packet_body pk @ [ck]) = finish_message (loaded s pk) ck"
  using body_run [OF assms] by (simp add: run_steps_append case_prod_unfold)

subsection \<open>Streams of packets\<close>

definition displayport_payloads :: "msp_packet list \<Rightarrow> bytes list" where
  "displayport_payloads pks = map packet_payload (filter (\<lambda>pk. packet_function pk = kMspDisplayPort) pks)"

definition packet_stream :: "(bytes \<times> msp_packet) list \<Rightarrow> bytes" where
  "packet_stream items = concat (map (\<lambda>(gap, pk). gap @ encode_packet pk) items)"

lemma gap_run: "ms_state s = kIdle \<Longrightarrow> 0x24 \<notin> set gap \<Longrightarrow> run_steps HandleByte s gap = Some (s, [])"
  by (induction gap) (auto simp: HandleByte_def)

lemma encode_packet_run:
  assumes "osd_inv s" and "ms_callback s" and "ms_state s = kIdle" and "packet_ok pk"
  shows "\<exists>s' out. run_steps HandleByte s (encode_packet pk) = Some (s', out) \<and> osd_inv s' \<and> ms_callback s'
    \<and> ms_state s' = kIdle \<and> ms_messages s' = ms_messages s + 1 \<and> ms_checksum_errors s' = ms_checksum_errors s
    \<and> run_spec terminal_step (canvas_of (ms_frame s)) (displayport_payloads [pk]) = (canvas_of (ms_frame s'), map canvas_of out)"
proof -
  let ?s = "(loaded s pk)\<lparr>ms_messages := ms_messages s + 1\<rparr>"
  have run: "run_steps HandleByte s (encode_packet pk) = do {
      (s1, out) \<leftarrow> DispatchMessage (loaded s pk); Some (s1\<lparr>ms_state := kIdle\<rparr>, out) }"
    using packet_run [OF assms(3,4)] by (simp add: encode_packet_def finish_message_def)
  show ?thesis
  proof (cases "packet_function pk = kMspDisplayPort")
    case False
    with assms show ?thesis by (simp add: run DispatchMessage_def displayport_payloads_def)
  next
    case True
    obtain s' out where s': "HandleDisplayPort ?s (packet_payload pk) = Some (s', out)" "osd_inv s'" "ms_callback s'"
        "terminal_step (canvas_of (ms_frame s)) (packet_payload pk) = (canvas_of (ms_frame s'), map canvas_of out)"
      using HandleDisplayPort_refines [of ?s "packet_payload pk"] assms(1,2) by (auto simp: prod_eq_iff)
    moreover have "ms_messages s' = ms_messages s + 1" "ms_checksum_errors s' = ms_checksum_errors s"
      using arg_cong [OF HandleDisplayPort_keeps_parser [OF s'(1)], of ms_messages]
        arg_cong [OF HandleDisplayPort_keeps_parser [OF s'(1)], of ms_checksum_errors] by simp_all
    ultimately show ?thesis using True by (simp add: run DispatchMessage_def displayport_payloads_def)
  qed
qed

lemma packet_stream_run:
  assumes "osd_inv s" and "ms_callback s" and "ms_state s = kIdle"
    and "\<forall>(gap, pk) \<in> set items. 0x24 \<notin> set gap \<and> packet_ok pk"
  shows "\<exists>s' out. run_steps HandleByte s (packet_stream items) = Some (s', out) \<and> osd_inv s'
    \<and> ms_state s' = kIdle \<and> ms_messages s' = ms_messages s + of_nat (length items)
    \<and> ms_checksum_errors s' = ms_checksum_errors s
    \<and> run_spec terminal_step (canvas_of (ms_frame s)) (displayport_payloads (map snd items)) =
        (canvas_of (ms_frame s'), map canvas_of out)"
  using assms
proof (induction items arbitrary: s)
  case Nil
  then show ?case by (simp add: packet_stream_def displayport_payloads_def)
next
  case (Cons item items)
  obtain gap pk where item: "item = (gap, pk)" by force
  obtain s1 o1 where s1: "run_steps HandleByte s (encode_packet pk) = Some (s1, o1)" "osd_inv s1" "ms_callback s1"
      "ms_state s1 = kIdle" "ms_messages s1 = ms_messages s + 1" "ms_checksum_errors s1 = ms_checksum_errors s"
      "run_spec terminal_step (canvas_of (ms_frame s)) (displayport_payloads [pk]) = (canvas_of (ms_frame s1), map canvas_of o1)"
    using encode_packet_run [OF Cons.prems(1-3), of pk] Cons.prems(4) item by auto
  obtain s2 o2 where s2: "run_steps HandleByte s1 (packet_stream items) = Some (s2, o2)" "osd_inv s2" "ms_state s2 = kIdle"
      "ms_messages s2 = ms_messages s1 + of_nat (length items)" "ms_checksum_errors s2 = ms_checksum_errors s1"
      "run_spec terminal_step (canvas_of (ms_frame s1)) (displayport_payloads (map snd items)) =
        (canvas_of (ms_frame s2), map canvas_of o2)"
    using Cons.IH [OF s1(2-4)] Cons.prems(4) by auto
  have "packet_stream (item # items) = gap @ encode_packet pk @ packet_stream items"
    by (simp add: packet_stream_def item)
  moreover have "run_steps HandleByte s gap = Some (s, [])"
    using gap_run Cons.prems(3,4) item by simp
  moreover have "displayport_payloads (map snd (item # items)) = displayport_payloads [pk] @ displayport_payloads (map snd items)"
    by (simp add: displayport_payloads_def item)
  ultimately show ?case using s1 s2 by (simp add: run_steps_append run_spec_append)
qed

subsection \<open>Corrupted packets\<close>

lemma bit_crc8_shift:
  assumes "n < 8"
  shows "bit (crc8_shift c) n = ((0 < n \<and> bit c (n - 1)) \<noteq> (bit c 7 \<and> bit (0xd5 :: u8) n))"
proof -
  have "bit (push_bit 1 c) n = (0 < n \<and> bit c (n - 1))"
    using assms unfolding bit_push_bit_iff by auto
  then show ?thesis
    using assms unfolding crc8_shift_def u8_flag_simps if_distrib [of "\<lambda>w. bit w n"] bit_xor_iff by auto
qed

lemma crc8_shift_inj: "crc8_shift a = crc8_shift b \<longleftrightarrow> a = b"
proof
  assume eq: "crc8_shift a = crc8_shift b"
  have bits: "bit (crc8_shift a) n = bit (crc8_shift b) n" for n using eq by simp
  from bits [of 0] have "bit a 7 = bit b 7" by (simp add: bit_crc8_shift)
  with bits [of 1] bits [of 2] bits [of 3] bits [of 4] bits [of 5] bits [of 6] bits [of 7] show "a = b"
    by (auto simp: bit_crc8_shift u8_eq_iff)
qed simp

lemma crc8_rounds_inj: "(crc8_shift ^^ n) a = (crc8_shift ^^ n) b \<longleftrightarrow> a = b"
  by (induction n) (simp_all add: crc8_shift_inj)

lemma xor_cancel: "(a XOR b = a XOR c) = (b = (c :: u8))" "(b XOR a = c XOR a) = (b = c)"
  by (metis xor.assoc xor.left_neutral xor_self_eq, metis xor.assoc xor.right_neutral xor_self_eq)

lemma Crc8DvbS2_inj: "(Crc8DvbS2 a b = Crc8DvbS2 a c) = (b = c)" "(Crc8DvbS2 b a = Crc8DvbS2 c a) = (b = c)"
  by (simp_all add: Crc8DvbS2_def crc8_rounds_inj xor_cancel)

text \<open>A checksum step that is injective in both arguments tells any two streams that differ in one byte apart.\<close>

lemma foldl_cancel:
  assumes "\<And>x a b. (f a x = f b x) = (a = b)"
  shows "(foldl f a xs = foldl f b xs) = (a = b)"
  by (induction xs arbitrary: a b) (simp_all add: assms)

lemma foldl_update_differs:
  assumes "\<And>x a b. (f a x = f b x) = (a = b)" and "\<And>a x y. (f a x = f a y) = (x = y)"
    and "i < length xs" and "v \<noteq> xs ! i"
  shows "foldl f a (xs[i := v]) \<noteq> foldl f a xs"
  using assms(3,4)
proof (induction xs arbitrary: a i)
  case (Cons x xs)
  show ?case
  proof (cases i)
    case 0
    with Cons.prems show ?thesis by (simp add: foldl_cancel [OF assms(1)] assms(2))
  next
    case (Suc j)
    with Cons show ?thesis by simp
  qed
qed simp

fun corrupt :: "msp_packet \<Rightarrow> nat \<Rightarrow> u8 \<Rightarrow> msp_packet" where
  "corrupt (MspV1 dir cmd payload) i v = MspV1 dir cmd (payload[i := v])"
| "corrupt (MspV2 dir flags fn payload) i v = MspV2 dir flags fn (payload[i := v])"

lemma corrupt_checksum:
  assumes "i < length (packet_payload pk)" and "v \<noteq> packet_payload pk ! i"
  shows "packet_checksum (corrupt pk i v) \<noteq> packet_checksum pk"
  using assms foldl_update_differs [of "(XOR)", OF xor_cancel(2,1)] foldl_update_differs [of Crc8DvbS2, OF Crc8DvbS2_inj(2,1)]
  by (cases pk) simp_all

lemma corrupt_ok [simp]: "packet_ok (corrupt pk i v) = packet_ok pk"
  by (cases pk) simp_all

subsection \<open>Resynchronisation\<close>

text \<open>What the parser knows of the declared size in each state.\<close>

definition parse_inv :: "msp_decoder \<Rightarrow> bool" where
  "parse_inv s \<longleftrightarrow> (case ms_state s of
      kV1Size \<Rightarrow> ms_payload s = []
    | kV1Command \<Rightarrow> ms_payload s = [] \<and> unat (ms_expected_size s) \<le> 255
    | kV1Payload \<Rightarrow> length (ms_payload s) < unat (ms_expected_size s) \<and> unat (ms_expected_size s) \<le> 255
    | kV2Flags \<Rightarrow> ms_payload s = [] | kV2FunctionLo \<Rightarrow> ms_payload s = [] | kV2FunctionHi \<Rightarrow> ms_payload s = []
    | kV2SizeLo \<Rightarrow> ms_payload s = []
    | kV2SizeHi \<Rightarrow> ms_payload s = [] \<and> unat (ms_expected_size s) \<le> 255
    | kV2Payload \<Rightarrow> length (ms_payload s) < unat (ms_expected_size s) \<and> unat (ms_expected_size s) \<le> 1024
    | _ \<Rightarrow> True)"

text \<open>The number of NUL bytes that bring the parser back to \<open>kIdle\<close>.\<close>

definition pending :: "msp_decoder \<Rightarrow> nat" where
  "pending s = (case ms_state s of
      kIdle \<Rightarrow> 0 | kHeaderM \<Rightarrow> 1 | kHeaderArrow \<Rightarrow> 1
    | kV1Size \<Rightarrow> 3 | kV1Command \<Rightarrow> unat (ms_expected_size s) + 2
    | kV1Payload \<Rightarrow> unat (ms_expected_size s) - length (ms_payload s) + 1 | kV1Checksum \<Rightarrow> 1
    | kV2Flags \<Rightarrow> 6 | kV2FunctionLo \<Rightarrow> 5 | kV2FunctionHi \<Rightarrow> 4 | kV2SizeLo \<Rightarrow> 3
    | kV2SizeHi \<Rightarrow> unat (ms_expected_size s) + 2
    | kV2Payload \<Rightarrow> unat (ms_expected_size s) - length (ms_payload s) + 1 | kV2Checksum \<Rightarrow> 1)"

lemma pending_0: "pending s = 0 \<longleftrightarrow> ms_state s = kIdle"
  by (cases "ms_state s") (simp_all add: pending_def)

lemma pending_bound: "parse_inv s \<Longrightarrow> pending s \<le> 1025"
  by (cases "ms_state s") (auto simp: pending_def parse_inv_def)

lemma unat_ucast_u8 [simp]: "unat (ucast (b :: u8) :: u16) = unat b"
  using unat_u8_less [of b] by (simp add: unsigned_ucast_eq take_bit_nat_eq_self del: unat_u8_less)

lemma finish_message_idle: "finish_message s b = Some (s', out) \<Longrightarrow> ms_state s' = kIdle"
  by (auto simp: finish_message_def split: Option.bind_splits)

lemma parse_inv_step:
  assumes "parse_inv s" and "HandleByte s b = Some (s', out)"
  shows "parse_inv s'"
  using assms finish_message_idle [of s b s' out]
  by (cases "ms_state s")
     (auto simp: parse_inv_def HandleByte_def Let_def word_le_nat_alt word_less_nat_alt not_less split: if_splits)

lemma parse_inv_run:
  "parse_inv s \<Longrightarrow> run_steps HandleByte s bs = Some (s', out) \<Longrightarrow> parse_inv s'"
proof (induction bs arbitrary: s out)
  case (Cons b bs)
  then obtain s1 o1 o2 where "HandleByte s b = Some (s1, o1)" "run_steps HandleByte s1 bs = Some (s', o2)"
    by (auto split: Option.bind_splits)
  with Cons.IH Cons.prems(1) show ?case using parse_inv_step by blast
qed simp

lemma pending_step:
  assumes "parse_inv s" and "HandleByte s 0 = Some (s', out)"
  shows "pending s' \<le> pending s - 1"
  using assms finish_message_idle [of s 0 s' out]
  by (cases "ms_state s")
     (auto simp: parse_inv_def pending_def HandleByte_def Let_def word_le_nat_alt word_less_nat_alt not_less split: if_splits)

lemma zeros_run:
  assumes "osd_inv s" and "parse_inv s"
  shows "\<exists>s' out. run_steps HandleByte s (replicate n 0) = Some (s', out) \<and> osd_inv s' \<and> pending s' \<le> pending s - n"
  using assms
proof (induction n arbitrary: s)
  case 0
  then show ?case by simp
next
  case (Suc n)
  obtain s1 o1 where s1: "HandleByte s 0 = Some (s1, o1)" "osd_inv s1"
    using Suc.prems(1) by (rule msp.step_obtain)
  with Suc.IH [OF s1(2) parse_inv_step [OF Suc.prems(2) s1(1)]] pending_step [OF Suc.prems(2) s1(1)]
  show ?case by fastforce
qed

lemma osd_init [simp]:
  "osd_inv (osd_set_callback msp_decoder_init)" "ms_callback (osd_set_callback msp_decoder_init)"
  "ms_state (osd_set_callback msp_decoder_init) = kIdle" "parse_inv (osd_set_callback msp_decoder_init)"
  "canvas_of (ms_frame (osd_set_callback msp_decoder_init)) = blank_canvas 20 53"
proof -
  let ?s0 = "\<lparr>ms_state = kIdle, ms_v2 = False, ms_function = 0, ms_expected_size = 0, ms_checksum = 0,
        ms_payload = [], ms_frame = \<lparr>of_rows = 0, of_cols = 0, of_cells = []\<rparr>, ms_callback = False,
        ms_frames = 0, ms_messages = 0, ms_checksum_errors = 0\<rparr>"
  show "canvas_of (ms_frame (osd_set_callback msp_decoder_init)) = blank_canvas 20 53"
    using canvas_of_SetCanvas [of 20 53 ?s0]
    by (simp add: osd_set_callback_def msp_decoder_init_def canvas_size_defs canvas_resize_def)
qed (simp_all add: osd_set_callback_def msp_decoder_init_def SetCanvas_def canvas_size_defs frame_wf_def parse_inv_def)

subsection \<open>Properties\<close>

text \<open>
  C3: the OSD decoder implements the character terminal. On any stream of well-formed MSP v1 and v2
  packets with arbitrary bytes other than \<open>$\<close> between them, the grid afterwards and the grids handed to the
  renderer are those of the terminal run on the DisplayPort payloads, in order; every packet is counted and none is
  reported as corrupt.
\<close>

theorem osd_implements_terminal:
  assumes "osd_inv s" and "ms_callback s" and "ms_state s = kIdle"
    and "\<forall>(gap, pk) \<in> set items. 0x24 \<notin> set gap \<and> packet_ok pk"
  shows "\<exists>s' out. osd_Push s (packet_stream items) = Some (s', out)
    \<and> run_spec terminal_step (canvas_of (ms_frame s)) (displayport_payloads (map snd items)) =
        (canvas_of (ms_frame s'), map canvas_of out)
    \<and> ms_messages s' = ms_messages s + of_nat (length items) \<and> ms_checksum_errors s' = ms_checksum_errors s"
  using packet_stream_run [OF assms] unfolding osd_Push_def by blast

text \<open>The stream of the witness: write \<open>HI\<close> with an MSP v1 packet, draw with an MSP v2 packet.\<close>

theorem osd_implements_terminal_witness:
  "\<exists>s' f. osd_Push (osd_set_callback msp_decoder_init)
      (packet_stream [([0x00], MspV1 0x3e 182 [3, 2, 5, 0, 0x48, 0x49]), ([], MspV2 0x3e 0 182 [4])]) = Some (s', [f])
    \<and> cv_cell (canvas_of f) 2 5 = char_cell 0 0x48 \<and> cv_cell (canvas_of f) 2 6 = char_cell 0 0x49
    \<and> cv_cell (canvas_of f) 2 7 = blank_cell"
proof -
  let ?items = "[([0x00], MspV1 0x3e 182 [3, 2, 5, 0, 0x48, 0x49]), ([], MspV2 0x3e 0 182 [4])]"
  have "\<forall>(gap, pk) \<in> set ?items. (0x24 :: u8) \<notin> set gap \<and> packet_ok pk" by simp
  then obtain s' out where run: "osd_Push (osd_set_callback msp_decoder_init) (packet_stream ?items) = Some (s', out)"
    and spec: "run_spec terminal_step (blank_canvas 20 53) (displayport_payloads (map snd ?items)) =
        (canvas_of (ms_frame s'), map canvas_of out)"
    using osd_implements_terminal [OF osd_init(1-3), of ?items] by auto
  let ?cv = "canvas_write (blank_canvas 20 53) 2 5 0 [0x48, 0x49]"
  have "displayport_payloads (map snd ?items) = [[3, 2, 5, 0, 0x48, 0x49], [4]]"
    by (simp add: displayport_payloads_def kMspDisplayPort_def)
  with spec have out: "map canvas_of out = [?cv]" by (auto simp: terminal_step_def)
  then obtain f where f: "out = [f]" "canvas_of f = ?cv" by auto
  then show ?thesis using run by (simp add: canvas_write_def blank_canvas_def)
qed

text \<open>
  C34: whatever bytes arrive and however they are cut into pushes, the decoder never touches a cell outside
  the grid, the grid always holds rows times columns cells, every frame shown is such a grid, and the result is that
  of pushing the concatenation.
\<close>

theorem osd_safe_for_all_streams:
  "\<exists>s' out. run_steps osd_Push (osd_set_callback msp_decoder_init) chunks = Some (s', out)
    \<and> osd_Push (osd_set_callback msp_decoder_init) (concat chunks) = Some (s', out)
    \<and> frame_wf (ms_frame s') \<and> list_all frame_wf out"
  using msp.run_good [OF osd_init(1), of "concat chunks"]
  unfolding msp_stream.run_concat [OF osd_init(1)] osd_Push_def by blast

text \<open>
  C20: the parser resynchronises: after any garbage at all, at most 1025 NUL bytes (the longest payload
  plus its checksum) bring it back to the state in which the next packet is decoded.
\<close>

theorem osd_resynchronises:
  "\<exists>s' out. osd_Push (osd_set_callback msp_decoder_init) (junk @ replicate 1025 0) = Some (s', out)
    \<and> ms_state s' = kIdle \<and> frame_wf (ms_frame s')"
proof -
  obtain s1 o1 where s1: "run_steps HandleByte (osd_set_callback msp_decoder_init) junk = Some (s1, o1)" "osd_inv s1"
    using msp.run_safe [OF osd_init(1)] by blast
  then have "parse_inv s1" using parse_inv_run osd_init(4) by blast
  with zeros_run [OF s1(2), of 1025] pending_bound [of s1]
  obtain s2 o2 where "run_steps HandleByte s1 (replicate 1025 0) = Some (s2, o2)" "osd_inv s2" "pending s2 = 0"
    by fastforce
  with s1 show ?thesis unfolding osd_Push_def run_steps_append by (simp add: pending_0)
qed

text \<open>
  C22: corruption of any single payload byte of an MSP v1 or v2 packet is detected: the packet changes
  neither the grid nor the message count, shows nothing, and is counted as a checksum error.
\<close>

theorem osd_rejects_corruption:
  assumes "ms_state s = kIdle" and "packet_ok pk"
    and "i < length (packet_payload pk)" and "v \<noteq> packet_payload pk ! i"
  shows "\<exists>s'. osd_Push s (packet_body (corrupt pk i v) @ [packet_checksum pk]) = Some (s', [])
    \<and> ms_frame s' = ms_frame s \<and> ms_messages s' = ms_messages s
    \<and> ms_checksum_errors s' = ms_checksum_errors s + 1 \<and> ms_state s' = kIdle"
  using packet_run [OF assms(1), of "corrupt pk i v"] corrupt_checksum [OF assms(3,4)] assms(2)
  by (simp add: osd_Push_def finish_message_def)

theorem osd_rejects_corruption_witness:
  "\<exists>s'. osd_Push (osd_set_callback msp_decoder_init)
       (packet_body (MspV1 0x3e 182 [3, 2, 5, 0, 0x4a]) @ [packet_checksum (MspV1 0x3e 182 [3, 2, 5, 0, 0x48])]) = Some (s', [])
    \<and> ms_frame s' = ms_frame (osd_set_callback msp_decoder_init) \<and> ms_messages s' = ms_messages (osd_set_callback msp_decoder_init)
    \<and> ms_checksum_errors s' = ms_checksum_errors (osd_set_callback msp_decoder_init) + 1 \<and> ms_state s' = kIdle"
  using osd_rejects_corruption [OF osd_init(3), of "MspV1 0x3e 182 [3, 2, 5, 0, 0x48]" 4 "0x4a"]
  by simp

end
