(* ===== verification/Alink.thy ===== *)
theory Alink
  imports Link_Stats Decimal
begin

section \<open>Adaptive link\<close>

text \<open>
  Model of \<open>core/src/alink/alink.cpp\<close> and \<open>core/include/openipc/alink.h\<close>: the Kalman filter over the loss ratio, the
  link score, the FEC increase, the keyframe request that is repeated over several messages, the text message and its
  framing. Doubles are \<open>f64\<close>; a conversion to \<open>int\<close> of a value that does not fit is a fault (\<open>None\<close>). The
  draws of the random generator behind \<open>MakeIdrCode\<close> and the time stamp are arguments. \<open>Update\<close> is split along
  the blocks of the C++ function, one definition per block.
\<close>

subsection \<open>Data\<close>

definition kAlinkScoreMin :: int where "kAlinkScoreMin = 1000"
definition kAlinkScoreMax :: int where "kAlinkScoreMax = 2000"

record alink_result =
  ar_message :: string
  ar_score :: int
  ar_raw_score :: f64
  ar_penalty :: f64
  ar_fec_change :: int
  ar_error_ratio :: f64
  ar_filtered_noise :: f64
  ar_idr_code :: string

record alink_controller =
  al_config :: alink_config
  al_kalman_estimate :: f64
  al_kalman_error_estimate :: f64
  al_idr_code :: string
  al_idr_remaining :: int

subsection \<open>Operations\<close>

text \<open>\<open>MakeIdrCode\<close>: one lower-case letter per draw of the distribution over 0 to 25.\<close>

definition MakeIdrCode :: "nat list \<Rightarrow> string" where
  "MakeIdrCode draws = map (\<lambda>i. char_of (97 + draws ! i)) [0..<4]"

definition Clamp01 :: "f64 \<Rightarrow> f64" where
  "Clamp01 v = std_max (Fin 0) (std_min (Fin 1) v)"

definition alink_new :: "alink_config \<Rightarrow> alink_controller" where
  "alink_new config =
     \<lparr>al_config = config, al_kalman_estimate = ac_kalman_estimate config,
      al_kalman_error_estimate = ac_kalman_error_estimate config, al_idr_code = '''', al_idr_remaining = 0\<rparr>"

definition alink_set_config :: "alink_controller \<Rightarrow> alink_config \<Rightarrow> alink_controller" where
  "alink_set_config c config = c\<lparr>al_config := config\<rparr>"

definition KalmanUpdate :: "alink_controller \<Rightarrow> f64 \<Rightarrow> alink_controller \<times> f64" where
  "KalmanUpdate c measurement =
     (let predicted_estimate = al_kalman_estimate c;
          predicted_error = al_kalman_error_estimate c + ac_process_variance (al_config c);
          kalman_gain = predicted_error / (predicted_error + ac_measurement_variance (al_config c));
          estimate = predicted_estimate + kalman_gain * (measurement - predicted_estimate)
      in (c\<lparr>al_kalman_estimate := estimate, al_kalman_error_estimate := (Fin 1 - kalman_gain) * predicted_error\<rparr>,
          estimate))"

definition AdjustFecRecovered :: "f64 \<Rightarrow> int \<Rightarrow> int \<Rightarrow> f64" where
  "AdjustFecRecovered fec_recovered fec_k fec_n =
     (if fec_k < 0 \<or> fec_n \<le> 0 then fec_recovered
      else let redundancy = Fin (of_int (fec_n - fec_k));
               weight = Fin 6 / (Fin 1 + redundancy)
           in fec_recovered * weight)"

text \<open>The keyframe request: a fresh code and a full count whenever packets were lost.\<close>

definition request_idr :: "alink_controller \<Rightarrow> link_snapshot \<Rightarrow> nat list \<Rightarrow> alink_controller" where
  "request_idr c snapshot draws =
     (if ls_packets_lost snapshot > 0 \<and> ac_allow_idr (al_config c) then
        c\<lparr>al_idr_code := MakeIdrCode draws, al_idr_remaining := ac_idr_max_messages (al_config c)\<rparr>
      else c)"

definition f64_of_u32 :: "u32 \<Rightarrow> f64" where
  "f64_of_u32 w = Fin (of_nat (unat w))"

text \<open>The loss ratio of the interval and the filtered noise.\<close>

definition update_noise :: "alink_controller \<Rightarrow> link_snapshot \<Rightarrow> alink_controller \<times> f64 \<times> f64" where
  "update_noise c snapshot =
     (let lost_packets = f64_of_u32 (ls_packets_lost snapshot);
          fec_rec_packets = f64_of_u32 (ls_packets_fec_recovered snapshot);
          all_packets = f64_of_u32 (ls_packets_all snapshot);
          num_antennas = ls_num_antennas snapshot
      in if all_packets > Fin 0 \<and> num_antennas > 0 then
           let adjusted_fec_rec = AdjustFecRecovered fec_rec_packets (ls_fec_k snapshot) (ls_fec_n snapshot);
               error_ratio = (Fin 5 * lost_packets + adjusted_fec_rec) / (all_packets / Fin (of_int num_antennas))
           in case KalmanUpdate c error_ratio of (c1, filtered_noise) \<Rightarrow> (c1, error_ratio, filtered_noise)
         else (c, Fin 0, Fin 0))"

definition normalise :: "int \<Rightarrow> f64 \<Rightarrow> f64 \<Rightarrow> f64" where
  "normalise value lo hi =
     (let span = hi - lo in if f64_nonzero span then Clamp01 ((Fin (of_int value) - lo) / span) else Fin 0)"

definition raw_score_of :: "alink_config \<Rightarrow> link_snapshot \<Rightarrow> f64" where
  "raw_score_of cfg snapshot =
     (let snr_normalized = normalise (ls_best_snr snapshot) (ac_snr_min cfg) (ac_snr_max cfg);
          rssi_normalized = normalise (ls_best_rssi snapshot) (ac_rssi_min cfg) (ac_rssi_max cfg);
          score_normalized = ac_snr_weight cfg * snr_normalized + ac_rssi_weight cfg * rssi_normalized
      in Fin 1000 + score_normalized * Fin 1000)"

definition deduction_ratio_of :: "alink_config \<Rightarrow> f64 \<Rightarrow> f64" where
  "deduction_ratio_of cfg filtered_noise =
     (if filtered_noise < ac_min_noise cfg then Fin 0
      else let noise_span = ac_max_noise cfg - ac_min_noise cfg;
               t = (if f64_nonzero noise_span then (filtered_noise - ac_min_noise cfg) / noise_span else Fin 1)
           in std_min (std_pow t (ac_deduction_exponent cfg)) (Fin 1))"

definition final_score_of :: "alink_config \<Rightarrow> f64 \<Rightarrow> f64 \<Rightarrow> f64" where
  "final_score_of cfg raw_score deduction_ratio =
     (if ac_allow_penalty cfg then Fin 1000 + (raw_score - Fin 1000) * (Fin 1 - deduction_ratio) else raw_score)"

definition fec_change_of :: "alink_config \<Rightarrow> f64 \<Rightarrow> int option" where
  "fec_change_of cfg filtered_noise =
     (if \<not> ac_allow_fec_increase cfg \<or> filtered_noise \<le> ac_min_noise_for_fec_change cfg then Some 0
      else if ac_noise_for_max_fec_change cfg \<le> filtered_noise then Some 5
      else let span = ac_max_noise cfg - ac_min_noise_for_fec_change cfg;
               t = (if f64_nonzero span then (filtered_noise - ac_min_noise_for_fec_change cfg) / span else Fin 0)
           in lround_int (t * Fin 5))"

text \<open>The fields of the message, separated by colons.\<close>

fun join_fields :: "string list \<Rightarrow> string" where
  "join_fields [] = ''''"
| "join_fields [f] = f"
| "join_fields (f # g # fs) = f @ '':'' @ join_fields (g # fs)"

text \<open>\<open>snprintf\<close> into the 256-byte buffer: at most 255 characters.\<close>

definition format_message :: "u64 \<Rightarrow> int list \<Rightarrow> string" where
  "format_message unix_time_s nums = take 255 (join_fields (print_nat (unat unix_time_s) # map print_int nums))"

text \<open>The last block: the pending code is appended and counted down.\<close>

definition append_idr :: "alink_controller \<Rightarrow> string \<Rightarrow> alink_controller \<times> string \<times> string" where
  "append_idr c message =
     (if al_idr_code c \<noteq> '''' \<and> al_idr_remaining c > 0 then
        (let remaining = al_idr_remaining c - 1 in
         (c\<lparr>al_idr_remaining := remaining, al_idr_code := (if remaining = 0 then '''' else al_idr_code c)\<rparr>,
          message @ '':'' @ al_idr_code c, al_idr_code c))
      else (c, message, ''''))"

definition alink_Update ::
  "alink_controller \<Rightarrow> link_snapshot \<times> u64 \<times> nat list \<Rightarrow> (alink_controller \<times> alink_result) option" where
  "alink_Update c input = (case input of (snapshot, unix_time_s, draws) \<Rightarrow> do {
     let c1 = request_idr c snapshot draws;
     let (c2, error_ratio, filtered_noise) = update_noise c1 snapshot;
     let cfg = al_config c2;
     let raw_score = raw_score_of cfg snapshot;
     let final_score = final_score_of cfg raw_score (deduction_ratio_of cfg filtered_noise);
     let penalty = (if ac_allow_penalty cfg then final_score - raw_score else Fin 0);
     fec_change \<leftarrow> fec_change_of cfg filtered_noise;
     score \<leftarrow> cast_int final_score;
     recovered \<leftarrow> cast_int (f64_of_u32 (ls_packets_fec_recovered snapshot));
     lost \<leftarrow> cast_int (f64_of_u32 (ls_packets_lost snapshot));
     penalty_int \<leftarrow> cast_int penalty;
     let text_part = format_message unix_time_s
       [score, score, recovered, lost, ls_best_rssi snapshot, ls_best_snr snapshot, ls_num_antennas snapshot,
        penalty_int, fec_change];
     let (c3, message, idr_code) = append_idr c2 text_part;
     Some (c3, \<lparr>ar_message = message, ar_score = score, ar_raw_score = raw_score, ar_penalty = penalty,
       ar_fec_change = fec_change, ar_error_ratio = error_ratio, ar_filtered_noise = filtered_noise,
       ar_idr_code = idr_code\<rparr>)
   })"

text \<open>\<open>Frame\<close>: the length as four big-endian bytes, then the text.\<close>

definition alink_Frame :: "string \<Rightarrow> bytes" where
  "alink_Frame message = be32_bytes (of_nat (length message)) @ map of_char message"

subsection \<open>Well-formed configurations and states\<close>

fun is_fin :: "f64 \<Rightarrow> bool" where
  "is_fin (Fin x) = True"
| "is_fin _ = False"

fun val :: "f64 \<Rightarrow> real" where
  "val (Fin x) = x"
| "val _ = 0"

lemma Fin_val: "is_fin x \<Longrightarrow> x = Fin (val x)"
  by (cases x) simp_all

lemma is_fin_iff: "is_fin x \<longleftrightarrow> (\<exists>r. x = Fin r)"
  by (cases x) simp_all

text \<open>
  What a sensible configuration satisfies (the default one does): finite numbers, weights that do not exceed one in
  total, a noise range that is not inverted, a positive exponent and positive process variance.
\<close>

definition config_ok :: "alink_config \<Rightarrow> bool" where
  "config_ok cfg \<longleftrightarrow>
     list_all is_fin [ac_snr_weight cfg, ac_rssi_weight cfg, ac_snr_min cfg, ac_snr_max cfg, ac_rssi_min cfg,
       ac_rssi_max cfg, ac_min_noise cfg, ac_max_noise cfg, ac_deduction_exponent cfg, ac_min_noise_for_fec_change cfg,
       ac_noise_for_max_fec_change cfg, ac_process_variance cfg, ac_measurement_variance cfg]
     \<and> 0 \<le> val (ac_snr_weight cfg) \<and> 0 \<le> val (ac_rssi_weight cfg)
     \<and> val (ac_snr_weight cfg) + val (ac_rssi_weight cfg) \<le> 1
     \<and> val (ac_min_noise cfg) < val (ac_max_noise cfg) \<and> 0 < val (ac_deduction_exponent cfg)
     \<and> val (ac_noise_for_max_fec_change cfg) \<le> val (ac_max_noise cfg)
     \<and> 0 < val (ac_process_variance cfg) \<and> 0 \<le> val (ac_measurement_variance cfg)"

definition alink_inv :: "alink_controller \<Rightarrow> bool" where
  "alink_inv c \<longleftrightarrow> config_ok (al_config c)
     \<and> is_fin (al_kalman_estimate c) \<and> 0 \<le> val (al_kalman_estimate c)
     \<and> is_fin (al_kalman_error_estimate c) \<and> 0 \<le> val (al_kalman_error_estimate c)"

text \<open>Counters that fit an \<open>int\<close>, and FEC parameters with at least as many packets as data packets.\<close>

definition snapshot_ok :: "link_snapshot \<Rightarrow> bool" where
  "snapshot_ok sn \<longleftrightarrow> unat (ls_packets_lost sn) < 2 ^ 31 \<and> unat (ls_packets_fec_recovered sn) < 2 ^ 31
     \<and> (0 \<le> ls_fec_k sn \<and> 0 < ls_fec_n sn \<longrightarrow> ls_fec_k sn \<le> ls_fec_n sn)
     \<and> fits_int32 (ls_best_rssi sn) \<and> fits_int32 (ls_best_snr sn) \<and> fits_int32 (ls_num_antennas sn)"

lemma config_ok_default: "config_ok alink_config_default"
  by (simp add: config_ok_def alink_config_default_def)

lemma alink_inv_default: "alink_inv (alink_new alink_config_default)"
  using config_ok_default by (simp add: alink_inv_def alink_new_def) (simp add: alink_config_default_def)

subsection \<open>The noise filter\<close>

lemma KalmanUpdate_bounds:
  assumes "alink_inv c" and "KalmanUpdate c (Fin m) = (c', e)"
  shows "is_fin e \<and> min (val (al_kalman_estimate c)) m \<le> val e \<and> val e \<le> max (val (al_kalman_estimate c)) m
    \<and> e = al_kalman_estimate c' \<and> is_fin (al_kalman_error_estimate c') \<and> 0 \<le> val (al_kalman_error_estimate c')
    \<and> val (al_kalman_error_estimate c') \<le> val (ac_measurement_variance (al_config c))
    \<and> c' = c\<lparr>al_kalman_estimate := al_kalman_estimate c', al_kalman_error_estimate := al_kalman_error_estimate c'\<rparr>"
proof -
  obtain x p where x: "al_kalman_estimate c = Fin x" "al_kalman_error_estimate c = Fin p" "0 \<le> p"
    using assms(1) by (auto simp: alink_inv_def is_fin_iff)
  obtain q v where qv: "ac_process_variance (al_config c) = Fin q" "ac_measurement_variance (al_config c) = Fin v" "0 < q" "0 \<le> v"
    using assms(1) by (auto simp: alink_inv_def config_ok_def is_fin_iff)
  define pe where "pe = p + q"
  define g where "g = pe / (pe + v)"
  have pe: "0 < pe" "pe + v \<noteq> 0" using x(3) qv(3,4) by (simp_all add: pe_def)
  have g: "0 \<le> g" "g \<le> 1" using pe qv(4) by (simp_all add: g_def)
  have res: "c' = c\<lparr>al_kalman_estimate := Fin (x + g * (m - x)), al_kalman_error_estimate := Fin ((1 - g) * pe)\<rparr>"
      "e = Fin (x + g * (m - x))"
    using assms(2) pe by (auto simp: KalmanUpdate_def x qv Let_def pe_def g_def)
  have conv: "x + g * (m - x) = (1 - g) * x + g * m" by (simp add: algebra_simps)
  have "min x m \<le> (1 - g) * x + g * m" "(1 - g) * x + g * m \<le> max x m"
    using convex_bound_le [of x "max x m" m "1 - g" g] convex_bound_le [of "- x" "- min x m" "- m" "1 - g" g] g
    by simp_all
  moreover have "(1 - g) * pe = v * g"
    using pe by (simp add: g_def field_simps)
  then have "(1 - g) * pe \<le> v"
    using g qv(4) mult_left_le [of g v] by simp
  moreover have "0 \<le> (1 - g) * pe" using g pe(1) by simp
  ultimately show ?thesis by (simp add: res x qv conv)
qed

lemma AdjustFecRecovered_ok:
  assumes "0 \<le> r" and "0 \<le> k \<and> 0 < n \<longrightarrow> k \<le> n"
  shows "\<exists>r'. AdjustFecRecovered (Fin r) k n = Fin r' \<and> 0 \<le> r'"
proof (cases "k < 0 \<or> n \<le> 0")
  case True
  then show ?thesis using assms(1) by (auto simp: AdjustFecRecovered_def)
next
  case False
  with assms(2) have "0 \<le> real_of_int (n - k)" by simp
  then have "1 + real_of_int (n - k) \<noteq> 0" "0 \<le> r * (6 / (1 + real_of_int (n - k)))" using assms(1) by simp_all
  then show ?thesis using False by (simp add: AdjustFecRecovered_def Let_def)
qed

lemma update_noise_ok:
  assumes "alink_inv c" and "snapshot_ok sn" and "update_noise c sn = (c', er, fn)"
  shows "alink_inv c' \<and> al_config c' = al_config c \<and> al_idr_code c' = al_idr_code c
    \<and> al_idr_remaining c' = al_idr_remaining c \<and> is_fin er \<and> 0 \<le> val er \<and> is_fin fn \<and> 0 \<le> val fn"
proof (cases "0 < real (unat (ls_packets_all sn)) \<and> 0 < ls_num_antennas sn")
  case False
  then have "update_noise c sn = (c, Fin 0, Fin 0)" by (auto simp: update_noise_def f64_of_u32_def)
  with assms(1,3) show ?thesis by auto
next
  case True
  let ?all = "real (unat (ls_packets_all sn))" and ?n = "real_of_int (ls_num_antennas sn)"
    and ?lost = "real (unat (ls_packets_lost sn))"
  have fec: "0 \<le> ls_fec_k sn \<and> 0 < ls_fec_n sn \<longrightarrow> ls_fec_k sn \<le> ls_fec_n sn"
    using assms(2) by (simp add: snapshot_ok_def)
  obtain a where a: "AdjustFecRecovered (f64_of_u32 (ls_packets_fec_recovered sn)) (ls_fec_k sn) (ls_fec_n sn) = Fin a" "0 \<le> a"
    using AdjustFecRecovered_ok [OF of_nat_0_le_iff fec] unfolding f64_of_u32_def by blast
  define m where "m = (5 * ?lost + a) / (?all / ?n)"
  have "0 \<le> (5 * l + a) / (al / n)" if "0 \<le> l" "0 < al" "0 < n" for l al n :: real
    using that a(2) by simp
  then have m: "0 \<le> m" using True unfolding m_def by (meson of_int_0_less_iff of_nat_0_le_iff)
  obtain e where k: "KalmanUpdate c (Fin m) = (c', e)" and out: "er = Fin m" "fn = e"
    using assms(3) True a(1) by (auto simp: update_noise_def f64_of_u32_def m_def Let_def split: prod.splits)
  note b = KalmanUpdate_bounds [OF assms(1) k]
  then have keep: "c' = c\<lparr>al_kalman_estimate := al_kalman_estimate c', al_kalman_error_estimate := al_kalman_error_estimate c'\<rparr>"
    by (elim conjE)
  have "al_config c' = al_config c" "al_idr_code c' = al_idr_code c" "al_idr_remaining c' = al_idr_remaining c"
    using arg_cong [OF keep, of al_config] arg_cong [OF keep, of al_idr_code] arg_cong [OF keep, of al_idr_remaining]
    by simp_all
  moreover have "0 \<le> val (al_kalman_estimate c)" using assms(1) by (simp add: alink_inv_def)
  ultimately show ?thesis
    using b assms(1) m out unfolding alink_inv_def by (elim conjE) simp
qed

subsection \<open>The score\<close>

lemma Clamp01_fin: "\<exists>y. Clamp01 (Fin x) = Fin y \<and> 0 \<le> y \<and> y \<le> 1"
  by (simp add: Clamp01_def)

lemma normalise_fin: "\<exists>y. normalise v (Fin lo) (Fin hi) = Fin y \<and> 0 \<le> y \<and> y \<le> 1"
  using Clamp01_fin by (cases "hi = lo") (auto simp: normalise_def Let_def)

lemma raw_score_ok:
  assumes "config_ok cfg"
  shows "\<exists>y. raw_score_of cfg sn = Fin y \<and> 1000 \<le> y \<and> y \<le> 2000"
proof -
  obtain ws wr s0 s1 r0 r1 where cfg: "ac_snr_weight cfg = Fin ws" "ac_rssi_weight cfg = Fin wr" "ac_snr_min cfg = Fin s0"
      "ac_snr_max cfg = Fin s1" "ac_rssi_min cfg = Fin r0" "ac_rssi_max cfg = Fin r1" "0 \<le> ws" "0 \<le> wr" "ws + wr \<le> 1"
    using assms by (auto simp: config_ok_def is_fin_iff)
  obtain a b where ab: "normalise (ls_best_snr sn) (Fin s0) (Fin s1) = Fin a" "0 \<le> a" "a \<le> 1"
      "normalise (ls_best_rssi sn) (Fin r0) (Fin r1) = Fin b" "0 \<le> b" "b \<le> 1"
    using normalise_fin by meson
  have "ws * a \<le> ws" "wr * b \<le> wr" "0 \<le> ws * a" "0 \<le> wr * b"
    using ab cfg(7,8) by (simp_all add: mult_left_le)
  then have "0 \<le> ws * a + wr * b" "ws * a + wr * b \<le> 1" using cfg(9) by simp_all
  then show ?thesis by (simp add: raw_score_of_def cfg ab Let_def)
qed

lemma deduction_ok:
  assumes "config_ok cfg" and "is_fin fn"
  shows "\<exists>d. deduction_ratio_of cfg fn = Fin d \<and> 0 \<le> d \<and> d \<le> 1"
proof -
  obtain lo hi e n where cfg: "ac_min_noise cfg = Fin lo" "ac_max_noise cfg = Fin hi" "ac_deduction_exponent cfg = Fin e"
      "lo < hi" "0 < e" "fn = Fin n"
    using assms by (auto simp: config_ok_def is_fin_iff)
  show ?thesis
  proof (cases "n < lo")
    case True
    then show ?thesis by (simp add: deduction_ratio_of_def cfg)
  next
    case False
    then have "0 \<le> (n - lo) / (hi - lo)" using cfg(4) by simp
    from pow_fin_unit [OF this cfg(5)] obtain r where "std_pow (Fin ((n - lo) / (hi - lo))) (Fin e) = Fin r" "0 \<le> r" by blast
    moreover have "hi - lo \<noteq> 0" using cfg(4) by simp
    ultimately show ?thesis using False by (simp add: deduction_ratio_of_def cfg(1-3,6) Let_def del: std_pow.simps right_minus_eq)
  qed
qed

lemma final_score_ok:
  assumes "config_ok cfg" and "is_fin fn" and "raw_score_of cfg sn = Fin raw"
  shows "\<exists>y. final_score_of cfg (Fin raw) (deduction_ratio_of cfg fn) = Fin y \<and> 1000 \<le> y \<and> y \<le> raw"
proof -
  obtain d where d: "deduction_ratio_of cfg fn = Fin d" "0 \<le> d" "d \<le> 1" using deduction_ok [OF assms(1,2)] by blast
  have raw: "1000 \<le> raw" using raw_score_ok [OF assms(1), of sn] assms(3) by auto
  have "0 \<le> (raw - 1000) * (1 - d)" "(raw - 1000) * (1 - d) \<le> raw - 1000"
    using raw d by (simp_all add: mult_left_le)
  with d raw show ?thesis by (simp add: final_score_of_def)
qed

lemma fec_change_ok:
  assumes "config_ok cfg" and "is_fin fn"
  shows "\<exists>k. fec_change_of cfg fn = Some k \<and> 0 \<le> k \<and> k \<le> 5"
proof -
  obtain lo top hi n where cfg: "ac_min_noise_for_fec_change cfg = Fin lo" "ac_noise_for_max_fec_change cfg = Fin top"
      "ac_max_noise cfg = Fin hi" "top \<le> hi" "fn = Fin n"
    using assms by (auto simp: config_ok_def is_fin_iff)
  show ?thesis
  proof (cases "\<not> ac_allow_fec_increase cfg \<or> n \<le> lo \<or> top \<le> n")
    case True
    then show ?thesis by (auto simp: fec_change_of_def cfg)
  next
    case False
    then have "lo < n" "n < hi" using cfg(4) by auto
    define u where "u = (n - lo) / (hi - lo)"
    define x where "x = u * 5"
    have "0 < u" "u < 1" using \<open>lo < n\<close> \<open>n < hi\<close> by (simp_all add: u_def)
    then have x: "0 \<le> x" "x < 5" unfolding x_def by linarith+
    then have "0 \<le> \<lfloor>x + 1 / 2\<rfloor>" "\<lfloor>x + 1 / 2\<rfloor> \<le> 5" by linarith+
    then have "lround_int (Fin x) = Some \<lfloor>x + 1 / 2\<rfloor>"
      using x by (simp add: round_half_away_def fits_int32_def)
    moreover have "fec_change_of cfg fn = lround_int (Fin x)"
      using False \<open>lo < n\<close> \<open>n < hi\<close> by (simp add: fec_change_of_def cfg x_def u_def Let_def del: lround_int.simps)
    ultimately show ?thesis using \<open>0 \<le> \<lfloor>x + 1 / 2\<rfloor>\<close> \<open>\<lfloor>x + 1 / 2\<rfloor> \<le> 5\<close> by simp
  qed
qed

lemma cast_int_between:
  assumes "of_int a \<le> x" and "x \<le> of_int b" and "fits_int32 a" and "fits_int32 b"
  shows "\<exists>n. cast_int (Fin x) = Some n \<and> a \<le> n \<and> n \<le> b"
  using trunc_real_bounds [OF assms(1,2)] assms(3,4) by (simp add: fits_int32_def)

lemma uint_fits_int32:
  assumes "unat (w :: u32) < 2 ^ 31"
  shows "fits_int32 (uint w)"
proof -
  have "int (unat w) < int (2 ^ 31)" using assms by (simp only: of_nat_less_iff)
  then have "uint w < 2 ^ 31" by simp
  moreover have "- (2 ^ 31) \<le> uint w" by (rule order_trans [OF _ uint_ge_0]) simp
  ultimately show ?thesis by (simp add: fits_int32_def)
qed

lemma cast_int_u32: "unat w < 2 ^ 31 \<Longrightarrow> cast_int (f64_of_u32 w) = Some (int (unat w))"
  using cast_int_of_int [OF uint_fits_int32 [of w]] by (simp add: f64_of_u32_def del: cast_int.simps)

subsection \<open>One update\<close>

lemma request_idr_keeps:
  "al_config (request_idr c sn draws) = al_config c" "alink_inv (request_idr c sn draws) = alink_inv c"
  by (simp_all add: request_idr_def alink_inv_def)

definition message_text :: "link_snapshot \<Rightarrow> u64 \<Rightarrow> int \<Rightarrow> int \<Rightarrow> int \<Rightarrow> string" where
  "message_text sn t score penalty fec =
     format_message t [score, score, int (unat (ls_packets_fec_recovered sn)), int (unat (ls_packets_lost sn)),
       ls_best_rssi sn, ls_best_snr sn, ls_num_antennas sn, penalty, fec]"

text \<open>
  On a sane configuration every update returns: the state keeps its invariant, and the result is determined by a score,
  a penalty and an FEC change within their ranges.
\<close>

lemma alink_Update_describe:
  assumes "alink_inv c" and "snapshot_ok sn"
  obtains c2 score pen fec r where
    "alink_Update c (sn, t, draws) = Some (fst (append_idr c2 (message_text sn t score pen fec)), r)"
    "alink_inv c2" "al_config c2 = al_config c"
    "al_idr_code c2 = al_idr_code (request_idr c sn draws)" "al_idr_remaining c2 = al_idr_remaining (request_idr c sn draws)"
    "1000 \<le> score" "score \<le> 2000" "- 1000 \<le> pen" "pen \<le> 0" "0 \<le> fec" "fec \<le> 5"
    "ar_message r = fst (snd (append_idr c2 (message_text sn t score pen fec)))"
    "ar_idr_code r = snd (snd (append_idr c2 (message_text sn t score pen fec)))"
    "ar_score r = score" "ar_fec_change r = fec" "cast_int (ar_penalty r) = Some pen"
    "cast_int (ar_raw_score r + ar_penalty r) = Some score" "ar_raw_score r = raw_score_of (al_config c) sn"
proof -
  obtain c2 er fn where un: "update_noise (request_idr c sn draws) sn = (c2, er, fn)" using prod_cases3 by blast
  have c2: "alink_inv c2" "al_config c2 = al_config c" "al_idr_code c2 = al_idr_code (request_idr c sn draws)"
      "al_idr_remaining c2 = al_idr_remaining (request_idr c sn draws)" "is_fin fn"
    using update_noise_ok [OF _ assms(2) un] assms(1) by (simp_all add: request_idr_keeps)
  then have cfg: "config_ok (al_config c2)" by (simp add: alink_inv_def)
  obtain raw where raw: "raw_score_of (al_config c2) sn = Fin raw" "1000 \<le> raw" "raw \<le> 2000"
    using raw_score_ok [OF cfg] by blast
  obtain final where final: "final_score_of (al_config c2) (Fin raw) (deduction_ratio_of (al_config c2) fn) = Fin final"
      "1000 \<le> final" "final \<le> raw"
    using final_score_ok [OF cfg c2(5) raw(1)] by blast
  obtain fec where fec: "fec_change_of (al_config c2) fn = Some fec" "0 \<le> fec" "fec \<le> 5"
    using fec_change_ok [OF cfg c2(5)] by blast
  have final_raw: "final = raw" if "\<not> ac_allow_penalty (al_config c2)"
    using final(1) that by (simp add: final_score_of_def)
  define p where "p = (if ac_allow_penalty (al_config c2) then final - raw else 0)"
  have p: "- 1000 \<le> p" "p \<le> 0" using final raw by (simp_all add: p_def)
  obtain score where score: "cast_int (Fin final) = Some score" "1000 \<le> score" "score \<le> 2000"
    using cast_int_between [of 1000 final 2000] final raw by (auto simp: fits_int32_def)
  obtain pen where pen: "cast_int (Fin p) = Some pen" "- 1000 \<le> pen" "pen \<le> 0"
    using cast_int_between [of "- 1000" p 0] p by (auto simp: fits_int32_def)
  have counts: "cast_int (f64_of_u32 (ls_packets_fec_recovered sn)) = Some (int (unat (ls_packets_fec_recovered sn)))"
      "cast_int (f64_of_u32 (ls_packets_lost sn)) = Some (int (unat (ls_packets_lost sn)))"
    using assms(2) by (simp_all add: cast_int_u32 snapshot_ok_def del: cast_int.simps)
  have penalty: "(if ac_allow_penalty (al_config c2) then Fin final - Fin raw else Fin 0) = Fin p" by (simp add: p_def)
  let ?m = "message_text sn t score pen fec"
  let ?r = "\<lparr>ar_message = fst (snd (append_idr c2 ?m)), ar_score = score, ar_raw_score = Fin raw, ar_penalty = Fin p,
    ar_fec_change = fec, ar_error_ratio = er, ar_filtered_noise = fn, ar_idr_code = snd (snd (append_idr c2 ?m))\<rparr>"
  have "alink_Update c (sn, t, draws) = Some (fst (append_idr c2 ?m), ?r)"
    unfolding alink_Update_def using penalty pen(1)
    by (cases "ac_allow_penalty (al_config c2)")
       (simp_all add: un raw final fec score counts message_text_def Let_def case_prod_unfold del: cast_int.simps f64_fin_simps)
  moreover have "Fin raw + Fin p = Fin final" using final_raw by (simp add: p_def)
  ultimately show thesis
    using c2 score pen fec raw(1) by (intro that [of c2 score pen fec ?r]) (simp_all del: cast_int.simps f64_fin_simps)
qed

lemma append_idr_inv: "alink_inv (fst (append_idr c m)) = alink_inv c"
    "al_config (fst (append_idr c m)) = al_config c"
  by (simp_all add: append_idr_def alink_inv_def Let_def)

subsection \<open>The text message\<close>

text \<open>Reading the message: the fields between colons.\<close>

fun split_fields :: "string \<Rightarrow> string list" where
  "split_fields [] = [[]]"
| "split_fields (ch # cs) =
     (if ch = CHR '':'' then [] # split_fields cs
      else case split_fields cs of [] \<Rightarrow> [[ch]] | f # fs \<Rightarrow> (ch # f) # fs)"

lemma split_fields_nonempty [simp]: "split_fields s \<noteq> []"
  by (induction s) (auto split: list.splits)

lemma split_fields_plain: "CHR '':'' \<notin> set f \<Longrightarrow> split_fields f = [f]"
  by (induction f) auto

lemma split_fields_append: "CHR '':'' \<notin> set f \<Longrightarrow> split_fields (f @ CHR '':'' # s) = f # split_fields s"
  by (induction f) auto

lemma split_join: "fs \<noteq> [] \<Longrightarrow> \<forall>f \<in> set fs. CHR '':'' \<notin> set f \<Longrightarrow> split_fields (join_fields fs) = fs"
  by (induction fs rule: join_fields.induct) (auto simp: split_fields_plain split_fields_append)

lemma join_snoc: "fs \<noteq> [] \<Longrightarrow> join_fields fs @ '':'' @ f = join_fields (fs @ [f])"
  by (induction fs rule: join_fields.induct) auto

lemma length_join: "fs \<noteq> [] \<Longrightarrow> length (join_fields fs) + 1 = sum_list (map length fs) + length fs"
  by (induction fs rule: join_fields.induct) auto

lemma sum_list_le: "(\<And>x. x \<in> set xs \<Longrightarrow> x \<le> (b :: nat)) \<Longrightarrow> sum_list xs \<le> length xs * b"
  by (induction xs) (auto intro: add_mono)

lemma length_print_u64: "length (print_nat (unat (t :: u64))) \<le> 20"
proof (rule length_print_nat)
  have "unat t < 2 ^ 64" using unsigned_less [of t] by simp
  then show "unat t < 10 ^ 20" by (rule less_trans) simp
qed simp

lemma length_print_int32: "fits_int32 i \<Longrightarrow> length (print_int i) \<le> 11"
  using length_print_int [of 10 i] by (simp add: fits_int32_def)

text \<open>Nine numbers and a time stamp are at most 128 characters, so \<open>snprintf\<close> never truncates.\<close>

lemma format_message_join:
  assumes "\<forall>i \<in> set nums. fits_int32 i" and "length nums = 9"
  shows "format_message t nums = join_fields (print_nat (unat t) # map print_int nums)"
    and "length (format_message t nums) \<le> 128"
proof -
  let ?fs = "print_nat (unat t) # map print_int nums"
  have "sum_list (map length (map print_int nums)) \<le> length (map length (map print_int nums)) * 11"
    using assms(1) length_print_int32 by (intro sum_list_le) auto
  then have "length (join_fields ?fs) \<le> 128"
    using length_join [of ?fs] length_print_u64 [of t] assms(2) by simp
  then show "format_message t nums = join_fields ?fs" "length (format_message t nums) \<le> 128"
    by (simp_all add: format_message_def)
qed

text \<open>The text fits the 256-byte buffer, the colon and a four-letter code included.\<close>

lemma message_text_short:
  assumes "snapshot_ok sn" and "1000 \<le> score" "score \<le> 2000" "- 1000 \<le> pen" "pen \<le> 0" "0 \<le> fec" "fec \<le> 5"
  shows "\<forall>i \<in> set [score, score, int (unat (ls_packets_fec_recovered sn)), int (unat (ls_packets_lost sn)),
      ls_best_rssi sn, ls_best_snr sn, ls_num_antennas sn, pen, fec]. fits_int32 i"
  using assms uint_fits_int32 [of "ls_packets_lost sn"] uint_fits_int32 [of "ls_packets_fec_recovered sn"]
  by (simp add: snapshot_ok_def) (simp add: fits_int32_def)

text \<open>
  The fields of a message: what the controller reports and the snapshot holds, then the keyframe code if one is carried.
\<close>

definition message_numbers :: "link_snapshot \<Rightarrow> u64 \<Rightarrow> int \<Rightarrow> int \<Rightarrow> int \<Rightarrow> int list" where
  "message_numbers sn t score pen fec =
     [uint t, score, score, uint (ls_packets_fec_recovered sn), uint (ls_packets_lost sn), ls_best_rssi sn, ls_best_snr sn,
      ls_num_antennas sn, pen, fec]"

lemma append_idr_fields:
  assumes "snapshot_ok sn" and "1000 \<le> score" "score \<le> 2000" "- 1000 \<le> pen" "pen \<le> 0" "0 \<le> fec" "fec \<le> 5"
    and "append_idr c2 (message_text sn t score pen fec) = (c', message, code)" and "CHR '':'' \<notin> set code"
  shows "map read_int (take 10 (split_fields message)) = message_numbers sn t score pen fec
    \<and> drop 10 (split_fields message) = (if code = '''' then [] else [code]) \<and> length message \<le> 129 + length code"
proof -
  let ?text = "message_text sn t score pen fec"
  let ?nums = "[score, score, int (unat (ls_packets_fec_recovered sn)), int (unat (ls_packets_lost sn)),
    ls_best_rssi sn, ls_best_snr sn, ls_num_antennas sn, pen, fec]"
  let ?fs = "print_nat (unat t) # map print_int ?nums"
  have text_fields: "?text = join_fields ?fs" "length ?text \<le> 128"
    using format_message_join [OF message_text_short [OF assms(1-7)], of t, simplified length_Cons list.size]
    by (simp_all add: message_text_def)
  have read_t: "read_int (print_nat (unat t)) = int (unat t)"
    using read_print_int [of "int (unat t)"] by (simp add: print_int_def del: read_print_int)
  have plain: "split_fields ?text = ?fs"
    unfolding text_fields(1) by (rule split_join) auto
  have coded: "split_fields (?text @ '':'' @ code) = ?fs @ [code]"
    unfolding text_fields(1) join_snoc [of ?fs, OF list.distinct(2)] using assms(9) by (subst split_join) auto
  show ?thesis
  proof (cases "al_idr_code c2 \<noteq> '''' \<and> al_idr_remaining c2 > 0")
    case True
    with assms(8) have "message = ?text @ '':'' @ code" "code \<noteq> ''''" by (auto simp: append_idr_def Let_def)
    with text_fields(2) coded read_t show ?thesis by (simp add: message_numbers_def)
  next
    case False
    with assms(8) have "message = ?text" "code = ''''" by (auto simp: append_idr_def)
    with text_fields(2) plain read_t show ?thesis by (simp add: message_numbers_def)
  qed
qed

text \<open>What a message carries after its ten numbers.\<close>

definition carried_code :: "alink_result \<Rightarrow> string list" where
  "carried_code r = drop 10 (split_fields (ar_message r))"

subsection \<open>Sequences of updates\<close>

definition alink_step ::
  "alink_controller \<Rightarrow> link_snapshot \<times> u64 \<times> nat list \<Rightarrow> (alink_controller \<times> alink_result list) option" where
  "alink_step c input = map_option (\<lambda>(c', r). (c', [r])) (alink_Update c input)"

text \<open>While a code is pending for \<open>k\<close> more messages and nothing is lost, exactly the next \<open>k\<close> results carry it.\<close>

definition idr_pending :: "alink_controller \<Rightarrow> string \<Rightarrow> nat \<Rightarrow> bool" where
  "idr_pending c code k \<longleftrightarrow>
     (if k = 0 then al_idr_code c = '''' \<or> al_idr_remaining c \<le> 0
      else al_idr_code c = code \<and> al_idr_remaining c = int k)"

lemma MakeIdrCode_letters:
  assumes "\<forall>i < 4. draws ! i < 26"
  shows "MakeIdrCode draws \<noteq> '''' \<and> CHR '':'' \<notin> set (MakeIdrCode draws)"
proof
  show "CHR '':'' \<notin> set (MakeIdrCode draws)"
  proof
    assume "CHR '':'' \<in> set (MakeIdrCode draws)"
    then obtain i where i: "i < 4" "CHR '':'' = char_of (97 + draws ! i)" by (auto simp: MakeIdrCode_def)
    have "97 + draws ! i < 256" using assms i(1) less_trans [of "draws ! i" 26 159] by simp
    with arg_cong [OF i(2), of "of_char :: char \<Rightarrow> nat"] show False by simp
  qed
qed (simp add: MakeIdrCode_def)

lemma append_idr_pending:
  assumes "idr_pending c code k" and "code \<noteq> ''''"
  shows "snd (snd (append_idr c m)) = (if 0 < k then code else '''')"
    and "idr_pending (fst (append_idr c m)) code (k - 1)"
  using assms by (auto simp: idr_pending_def append_idr_def Let_def split: if_splits)

lemma pending_message:
  assumes "snapshot_ok sn" and "1000 \<le> score" "score \<le> 2000" "- 1000 \<le> pen" "pen \<le> 0" "0 \<le> fec" "fec \<le> 5"
    and "idr_pending c2 code k" and "code \<noteq> ''''" and "CHR '':'' \<notin> set code"
    and "ar_message r = fst (snd (append_idr c2 (message_text sn t score pen fec)))"
    and "ar_idr_code r = snd (snd (append_idr c2 (message_text sn t score pen fec)))"
  shows "ar_idr_code r = (if 0 < k then code else '''')" and "carried_code r = (if 0 < k then [code] else [])"
    and "idr_pending (fst (append_idr c2 (message_text sn t score pen fec))) code (k - 1)"
proof -
  let ?a = "append_idr c2 (message_text sn t score pen fec)"
  note pend = append_idr_pending [OF assms(8,9), of "message_text sn t score pen fec"]
  show idr: "ar_idr_code r = (if 0 < k then code else '''')" "idr_pending (fst ?a) code (k - 1)" using pend assms(12) by simp_all
  have "?a = (fst ?a, ar_message r, ar_idr_code r)" using assms(11,12) by simp
  from append_idr_fields [OF assms(1-7) this] idr(1) assms(9,10) show "carried_code r = (if 0 < k then [code] else [])"
    by (simp add: carried_code_def split: if_splits)
qed

text \<open>The first of a list of positions, and the rest of them moved down by one.\<close>

lemma map_upt_pred:
  "map (\<lambda>i. if i < k then a else b) [0..<Suc n] = (if 0 < k then a else b) # map (\<lambda>i. if i < k - 1 then a else b) [0..<n]"
proof -
  have "map (\<lambda>i. if Suc i < k then a else b) [0..<n] = map (\<lambda>i. if i < k - 1 then a else b) [0..<n]" by (rule map_cong) auto
  then show ?thesis by (simp add: upt_conv_Cons map_Suc_upt [symmetric] o_def del: upt.simps upt_Suc)
qed

lemma idr_run:
  assumes "alink_inv c" and "idr_pending c code k" and "code \<noteq> ''''" and "CHR '':'' \<notin> set code"
    and "\<forall>(sn, t, draws) \<in> set inputs. snapshot_ok sn \<and> ls_packets_lost sn = 0"
  shows "\<exists>c' rs. run_steps alink_step c inputs = Some (c', rs)
    \<and> map carried_code rs = map (\<lambda>i. if i < k then [code] else []) [0..<length inputs]
    \<and> map ar_idr_code rs = map (\<lambda>i. if i < k then code else '''') [0..<length inputs]"
  using assms
proof (induction inputs arbitrary: c k)
  case Nil
  then show ?case by simp
next
  case (Cons input inputs)
  obtain sn t draws where input: "input = (sn, t, draws)" using prod_cases3 by blast
  have sn: "snapshot_ok sn" "request_idr c sn draws = c" using Cons.prems(5) by (simp_all add: input request_idr_def)
  obtain c2 score pen fec r where u: "alink_Update c (sn, t, draws) = Some (fst (append_idr c2 (message_text sn t score pen fec)), r)"
    and c2: "alink_inv c2" "al_config c2 = al_config c" "al_idr_code c2 = al_idr_code c" "al_idr_remaining c2 = al_idr_remaining c"
    and ranges: "1000 \<le> score" "score \<le> 2000" "- 1000 \<le> pen" "pen \<le> 0" "0 \<le> fec" "fec \<le> 5"
    and r: "ar_message r = fst (snd (append_idr c2 (message_text sn t score pen fec)))"
      "ar_idr_code r = snd (snd (append_idr c2 (message_text sn t score pen fec)))"
    by (rule alink_Update_describe [OF Cons.prems(1) sn(1), of t draws, unfolded sn(2)]) blast
  let ?c = "fst (append_idr c2 (message_text sn t score pen fec))"
  have "idr_pending c2 code k" using Cons.prems(2) c2(3,4) by (simp add: idr_pending_def)
  note pend = pending_message [OF sn(1) ranges this Cons.prems(3,4) r]
  obtain c' rs where run: "run_steps alink_step ?c inputs = Some (c', rs)"
      "map carried_code rs = map (\<lambda>i. if i < k - 1 then [code] else []) [0..<length inputs]"
      "map ar_idr_code rs = map (\<lambda>i. if i < k - 1 then code else '''') [0..<length inputs]"
    using Cons.IH [OF _ pend(3) Cons.prems(3,4)] Cons.prems(5) c2(1) by (auto simp: append_idr_inv)
  have "alink_step c input = Some (?c, [r])" by (simp add: alink_step_def input u)
  then show ?case using pend(1,2) run map_upt_pred [of k "[code]" "[]" "length inputs"] map_upt_pred [of k code "''''" "length inputs"]
    by (simp del: upt.simps upt_Suc)
qed

subsection \<open>The frame\<close>

definition parse_frame :: "bytes \<Rightarrow> string option" where
  "parse_frame bs =
     (case bs of
        b0 # b1 # b2 # b3 # rest \<Rightarrow>
          if length rest = unat (be32 b0 b1 b2 b3) then Some (map (\<lambda>b. char_of (unat b)) rest) else None
      | _ \<Rightarrow> None)"

lemma char_of_u8 [simp]: "char_of (unat (of_char ch :: u8)) = ch"
proof -
  have "unat (of_char ch :: u8) = of_char ch"
    by (cases ch) (simp add: of_char_def)
  then show ?thesis by simp
qed

text \<open>The framing reads back.\<close>

lemma parse_Frame:
  assumes "length message < 2 ^ 32"
  shows "parse_frame (alink_Frame message) = Some message"
proof -
  have "unat (of_nat (length message) :: u32) = length message"
    using assms by (simp add: unsigned_of_nat take_bit_nat_eq_self)
  then show ?thesis by (simp add: alink_Frame_def parse_frame_def be32_bytes_cast o_def)
qed

lemma alink_message_length:
  assumes "alink_inv c" and "snapshot_ok sn" and "length (al_idr_code (request_idr c sn draws)) \<le> 4"
    and "alink_Update c (sn, t, draws) = Some (c', r)"
  shows "length (ar_message r) < 256"
proof (rule alink_Update_describe [OF assms(1,2), of t draws])
  fix c2 score pen fec r'
  assume u: "alink_Update c (sn, t, draws) = Some (fst (append_idr c2 (message_text sn t score pen fec)), r')"
    and code: "al_idr_code c2 = al_idr_code (request_idr c sn draws)"
    and ranges: "1000 \<le> score" "score \<le> 2000" "- 1000 \<le> pen" "pen \<le> 0" "0 \<le> fec" "fec \<le> 5"
    and msg: "ar_message r' = fst (snd (append_idr c2 (message_text sn t score pen fec)))"
  have "length (message_text sn t score pen fec) \<le> 128"
    using format_message_join [OF message_text_short [OF assms(2) ranges], of t, simplified length_Cons list.size]
    by (simp add: message_text_def)
  with u msg assms(3,4) code show ?thesis by (auto simp: append_idr_def Let_def split: if_splits)
qed

subsection \<open>Properties\<close>

text \<open>
  C16: with a sane configuration every update returns (no conversion to \<open>int\<close> overflows and no NaN arises), keeps the
  filter state sane, and reports a score between 1000 and 2000 and an FEC increase between 0 and 5.
\<close>

theorem alink_Update_in_range:
  assumes "alink_inv c" and "snapshot_ok sn"
  shows "\<exists>c' r. alink_Update c (sn, t, draws) = Some (c', r) \<and> alink_inv c' \<and> al_config c' = al_config c
    \<and> kAlinkScoreMin \<le> ar_score r \<and> ar_score r \<le> kAlinkScoreMax \<and> 0 \<le> ar_fec_change r \<and> ar_fec_change r \<le> 5"
  by (rule alink_Update_describe [OF assms, of t draws])
     (auto simp: append_idr_inv kAlinkScoreMin_def kAlinkScoreMax_def)

definition lossy_snapshot :: link_snapshot where
  "lossy_snapshot = link_snapshot_default\<lparr>ls_packets_all := 100, ls_packets_lost := 3, ls_packets_fec_recovered := 4,
     ls_num_antennas := 2, ls_best_rssi := - 55, ls_best_snr := 25\<rparr>"

definition clean_snapshot :: link_snapshot where
  "clean_snapshot = lossy_snapshot\<lparr>ls_packets_lost := 0\<rparr>"

lemma sample_snapshots [simp]: "snapshot_ok lossy_snapshot" "snapshot_ok clean_snapshot"
  by (simp_all add: snapshot_ok_def lossy_snapshot_def clean_snapshot_def link_snapshot_default_def fits_int32_def)

theorem alink_Update_in_range_witness:
  "\<exists>c' r. alink_Update (alink_new alink_config_default) (lossy_snapshot, 1700000000, [0, 1, 2, 3]) = Some (c', r)
    \<and> 1000 \<le> ar_score r \<and> ar_score r \<le> 2000"
  using alink_Update_in_range [OF alink_inv_default sample_snapshots(1), of 1700000000 "[0, 1, 2, 3]"]
  by (auto simp: kAlinkScoreMin_def kAlinkScoreMax_def)

text \<open>
  C30: the message reads back. Split at the colons, it has the ten documented fields in the documented order, each a
  decimal number: the time, twice the score, the recovered and lost packets, the best RSSI and SNR, the number of antennas,
  the penalty and the FEC change. The penalty printed is the reported one, truncated to an integer; the score is the raw
  score of the snapshot plus that penalty, truncated. The keyframe code is the eleventh field exactly when one is
  reported; the message is never truncated by the 256-byte buffer.
\<close>

theorem alink_message_roundtrip:
  assumes "alink_inv c" and "snapshot_ok sn" and "CHR '':'' \<notin> set (al_idr_code (request_idr c sn draws))"
    and "length (al_idr_code (request_idr c sn draws)) \<le> 4"
  shows "\<exists>c' r penalty. alink_Update c (sn, t, draws) = Some (c', r)
    \<and> map read_int (take 10 (split_fields (ar_message r))) =
        [uint t, ar_score r, ar_score r, uint (ls_packets_fec_recovered sn), uint (ls_packets_lost sn),
         ls_best_rssi sn, ls_best_snr sn, ls_num_antennas sn, penalty, ar_fec_change r]
    \<and> cast_int (ar_penalty r) = Some penalty
    \<and> ar_raw_score r = raw_score_of (al_config c) sn \<and> cast_int (ar_raw_score r + ar_penalty r) = Some (ar_score r)
    \<and> drop 10 (split_fields (ar_message r)) = (if ar_idr_code r = '''' then [] else [ar_idr_code r])
    \<and> length (ar_message r) < 256"
proof (rule alink_Update_describe [OF assms(1,2), of t draws])
  fix c2 score pen fec r
  let ?a = "append_idr c2 (message_text sn t score pen fec)"
  assume u: "alink_Update c (sn, t, draws) = Some (fst ?a, r)"
    and code: "al_idr_code c2 = al_idr_code (request_idr c sn draws)"
    and ranges: "1000 \<le> score" "score \<le> 2000" "- 1000 \<le> pen" "pen \<le> 0" "0 \<le> fec" "fec \<le> 5"
    and r: "ar_message r = fst (snd ?a)" "ar_idr_code r = snd (snd ?a)" "ar_score r = score" "ar_fec_change r = fec"
    and penalty: "cast_int (ar_penalty r) = Some pen" "cast_int (ar_raw_score r + ar_penalty r) = Some score"
      "ar_raw_score r = raw_score_of (al_config c) sn"
  have a: "?a = (fst ?a, ar_message r, ar_idr_code r)" using r(1,2) by simp
  have idr: "CHR '':'' \<notin> set (ar_idr_code r)" "length (ar_idr_code r) \<le> 4"
    using assms(3,4) code by (auto simp: r(2) append_idr_def Let_def)
  from append_idr_fields [OF assms(2) ranges a idr(1)] u r(3,4) penalty idr(2) show ?thesis
    by (auto simp: message_numbers_def simp del: cast_int.simps)
qed

lemma MakeIdrCode_abcd: "MakeIdrCode [0, 1, 2, 3] = ''abcd''"
  by code_simp

theorem alink_message_roundtrip_witness:
  "\<exists>c' r penalty. alink_Update (alink_new alink_config_default) (lossy_snapshot, 1700000000, [0, 1, 2, 3]) = Some (c', r)
    \<and> map read_int (take 10 (split_fields (ar_message r))) =
        [1700000000, ar_score r, ar_score r, 4, 3, - 55, 25, 2, penalty, ar_fec_change r]"
proof -
  have "al_idr_code (request_idr (alink_new alink_config_default) lossy_snapshot [0, 1, 2, 3]) = ''abcd''"
    unfolding request_idr_def MakeIdrCode_abcd by (simp add: alink_new_def alink_config_default_def lossy_snapshot_def)
  then show ?thesis
    using alink_message_roundtrip [OF alink_inv_default sample_snapshots(1), of "[0, 1, 2, 3]" 1700000000]
    by (auto simp: lossy_snapshot_def)
qed

text \<open>
  C28: a keyframe request survives loss on the uplink: after an interval with losses, exactly the next
  \<open>idr_max_messages\<close> messages (the current one included) end in the same code as their eleventh field, as long as no new
  loss restarts the count; the messages after them have ten fields. The random draws are letters, as the distribution
  of the generator guarantees.
\<close>

theorem alink_idr_repeats:
  assumes "alink_inv c" and "ac_allow_idr (al_config c)" and "ac_idr_max_messages (al_config c) = int n" and "0 < n"
    and "snapshot_ok sn" and "0 < ls_packets_lost sn" and "\<forall>i < 4. draws ! i < 26"
    and "\<forall>(sn', t', draws') \<in> set inputs. snapshot_ok sn' \<and> ls_packets_lost sn' = 0"
  shows "\<exists>c' rs. run_steps alink_step c ((sn, t, draws) # inputs) = Some (c', rs)
    \<and> map (\<lambda>r. drop 10 (split_fields (ar_message r))) rs =
        map (\<lambda>i. if i < n then [MakeIdrCode draws] else []) [0..<length inputs + 1]
    \<and> map ar_idr_code rs = map (\<lambda>i. if i < n then MakeIdrCode draws else '''') [0..<length inputs + 1]"
proof (rule alink_Update_describe [OF assms(1,5), of t draws])
  fix c2 score pen fec r
  let ?code = "MakeIdrCode draws" and ?a = "append_idr c2 (message_text sn t score pen fec)"
  assume u: "alink_Update c (sn, t, draws) = Some (fst ?a, r)" and inv: "alink_inv c2"
    and "al_idr_code c2 = al_idr_code (request_idr c sn draws)" "al_idr_remaining c2 = al_idr_remaining (request_idr c sn draws)"
    and ranges: "1000 \<le> score" "score \<le> 2000" "- 1000 \<le> pen" "pen \<le> 0" "0 \<le> fec" "fec \<le> 5"
    and r: "ar_message r = fst (snd ?a)" "ar_idr_code r = snd (snd ?a)"
  then have "idr_pending c2 ?code n" using assms(2-4,6) by (simp add: idr_pending_def request_idr_def)
  moreover have code: "?code \<noteq> ''''" "CHR '':'' \<notin> set ?code" using MakeIdrCode_letters [OF assms(7)] by blast+
  ultimately have pend: "ar_idr_code r = ?code" "carried_code r = [?code]" "idr_pending (fst ?a) ?code (n - 1)"
    using pending_message [OF assms(5) ranges _ code r, of n] assms(4) by auto
  obtain c' rs where run: "run_steps alink_step (fst ?a) inputs = Some (c', rs)"
      "map carried_code rs = map (\<lambda>i. if i < n - 1 then [?code] else []) [0..<length inputs]"
      "map ar_idr_code rs = map (\<lambda>i. if i < n - 1 then ?code else '''') [0..<length inputs]"
    using idr_run [OF _ pend(3) code assms(8)] inv by (auto simp: append_idr_inv)
  have "alink_step c (sn, t, draws) = Some (fst ?a, [r])" by (simp add: alink_step_def u)
  then show ?thesis
    using pend(1,2) run assms(4) map_upt_pred [of n "[?code]" "[]" "length inputs"] map_upt_pred [of n ?code "''''" "length inputs"]
    by (simp add: carried_code_def [abs_def] del: upt.simps upt_Suc)
qed

theorem alink_idr_repeats_witness:
  "\<exists>c' rs. run_steps alink_step (alink_new (alink_config_default\<lparr>ac_idr_max_messages := 2\<rparr>))
      [(lossy_snapshot, 1, [0, 1, 2, 3]), (clean_snapshot, 2, []), (clean_snapshot, 3, [])] = Some (c', rs)
    \<and> map (\<lambda>r. drop 10 (split_fields (ar_message r))) rs = [[''abcd''], [''abcd''], []]"
proof -
  let ?c = "alink_new (alink_config_default\<lparr>ac_idr_max_messages := 2\<rparr>)"
    and ?rest = "[(clean_snapshot, 2 :: u64, [] :: nat list), (clean_snapshot, 3, [])]"
  have "alink_inv ?c" by (simp add: alink_inv_def config_ok_def alink_new_def alink_config_default_def)
  moreover have "ac_allow_idr (al_config ?c)" "ac_idr_max_messages (al_config ?c) = int 2" "0 < ls_packets_lost lossy_snapshot"
    by (simp_all add: alink_new_def alink_config_default_def lossy_snapshot_def)
  moreover have "\<forall>(sn', t', draws') \<in> set ?rest. snapshot_ok sn' \<and> ls_packets_lost sn' = 0"
    using sample_snapshots(2) by (simp del: sample_snapshots) (simp add: clean_snapshot_def)
  moreover have "\<forall>i < 4. [0, 1, 2, 3 :: nat] ! i < 26" by (simp add: numeral_eq_Suc All_less_Suc)
  ultimately obtain c' rs where rs: "run_steps alink_step ?c ((lossy_snapshot, 1, [0, 1, 2, 3]) # ?rest) = Some (c', rs)"
      "map (\<lambda>r. drop 10 (split_fields (ar_message r))) rs =
        map (\<lambda>i. if i < 2 then [MakeIdrCode [0, 1, 2, 3]] else []) [0..<length ?rest + 1]"
    using alink_idr_repeats [of ?c 2 lossy_snapshot "[0, 1, 2, 3]" ?rest 1] sample_snapshots(1) by auto
  have "map (\<lambda>i. if i < 2 then [MakeIdrCode [0, 1, 2, 3]] else []) [0..<length ?rest + 1] = [[''abcd''], [''abcd''], []]"
    unfolding MakeIdrCode_abcd by (simp add: upt_rec)
  with rs show ?thesis by (intro exI conjI) simp_all
qed

text \<open>
  The Kalman filter behaves as a filter: the new estimate lies between the previous one and the measurement, and
  the error estimate stays between zero and the measurement variance, so the filter neither diverges nor overshoots.
\<close>

theorem alink_KalmanUpdate_convex:
  assumes "alink_inv c" and "KalmanUpdate c (Fin m) = (c', e)"
  shows "e = al_kalman_estimate c' \<and> is_fin e
    \<and> min (val (al_kalman_estimate c)) m \<le> val e \<and> val e \<le> max (val (al_kalman_estimate c)) m
    \<and> is_fin (al_kalman_error_estimate c') \<and> 0 \<le> val (al_kalman_error_estimate c')
    \<and> val (al_kalman_error_estimate c') \<le> val (ac_measurement_variance (al_config c))"
  using KalmanUpdate_bounds [OF assms] by blast

theorem alink_KalmanUpdate_convex_witness:
  "5 / 1000 \<le> val (snd (KalmanUpdate (alink_new alink_config_default) (Fin (1 / 5))))
   \<and> val (snd (KalmanUpdate (alink_new alink_config_default) (Fin (1 / 5)))) \<le> 1 / 5"
proof -
  obtain c' e where k: "KalmanUpdate (alink_new alink_config_default) (Fin (1 / 5)) = (c', e)" by force
  have "al_kalman_estimate (alink_new alink_config_default) = Fin (5 / 1000)"
    by (simp add: alink_new_def alink_config_default_def)
  with alink_KalmanUpdate_convex [OF alink_inv_default k] show ?thesis unfolding k snd_conv by auto
qed

text \<open>
  An inverted noise range is not survived: with \<open>max_noise < min_noise\<close>, a penalty and a fractional exponent, an
  interval above both noise limits makes the code raise a negative number to a fractional power and convert the NaN
  to \<open>int\<close>.
\<close>

theorem alink_inverted_noise_range_faults:
  assumes "update_noise (request_idr c sn draws) sn = (c2, er, Fin n)" and "cfg = al_config c2"
    and "ac_min_noise cfg = Fin lo" and "ac_max_noise cfg = Fin hi" and "hi < lo" and "lo < n"
    and "ac_deduction_exponent cfg = Fin (1 / 2)" and "ac_allow_penalty cfg"
  shows "alink_Update c (sn, t, draws) = None"
proof -
  have half: "(1 / 2 :: real) \<notin> \<int>" by (auto elim!: Ints_cases)
  have "(n - lo) / (hi - lo) < 0" using assms(5,6) by (simp add: divide_pos_neg)
  then have "std_pow (Fin ((n - lo) / (hi - lo))) (Fin (1 / 2)) = NaN"
    using half assms(5,6) by (simp add: pow_fin_def)
  moreover have "hi - lo \<noteq> 0" using assms(5) by simp
  ultimately have "deduction_ratio_of cfg (Fin n) = std_min NaN (Fin 1)"
    using assms(3,4,6,7) by (simp add: deduction_ratio_of_def Let_def del: std_pow.simps right_minus_eq)
  moreover have "x - NaN = NaN" "x * NaN = NaN" "x + NaN = NaN" for x
    by (cases x; simp add: minus_f64_def times_f64_def plus_f64_def)+
  ultimately have "final_score_of cfg (raw_score_of cfg sn) (deduction_ratio_of cfg (Fin n)) = NaN"
    using assms(8) by (simp add: final_score_of_def std_min_def less_f64_def)
  then show ?thesis
    using assms(1,2) by (cases "fec_change_of cfg (Fin n)") (simp_all add: alink_Update_def Let_def)
qed

theorem alink_inverted_noise_range_faults_witness:
  "alink_Update (alink_new (alink_config_default\<lparr>ac_min_noise := Fin (1 / 100), ac_max_noise := Fin (1 / 1000),
       ac_kalman_estimate := Fin 1, ac_allow_penalty := True\<rparr>))
     (link_snapshot_default\<lparr>ls_packets_all := 10, ls_packets_fec_recovered := 10, ls_num_antennas := 1\<rparr>, 1, []) = None"
proof -
  let ?cfg = "alink_config_default\<lparr>ac_min_noise := Fin (1 / 100), ac_max_noise := Fin (1 / 1000),
       ac_kalman_estimate := Fin 1, ac_allow_penalty := True\<rparr>"
  let ?sn = "link_snapshot_default\<lparr>ls_packets_all := 10, ls_packets_fec_recovered := 10, ls_num_antennas := 1\<rparr>"
  obtain c2 er where "update_noise (request_idr (alink_new ?cfg) ?sn []) ?sn = (c2, er, Fin 1)" "al_config c2 = ?cfg"
    by (simp add: update_noise_def request_idr_def alink_new_def link_snapshot_default_def f64_of_u32_def
        AdjustFecRecovered_def KalmanUpdate_def alink_config_default_def Let_def)
  then show ?thesis
    by (rule alink_inverted_noise_range_faults [OF _ sym, of _ _ _ _ _ 1 ?cfg "1 / 100" "1 / 1000"])
       (simp_all add: alink_config_default_def)
qed

end
