(* ===== verification/Ground_Station.thy ===== *)
theory Ground_Station
  imports Packet_Sources Rtp Msp_Osd Alink
begin

section \<open>The ground station\<close>

text \<open>
  Model of class \<open>GroundStation\<close> of \<open>gslib/src/main/cpp/ground_station.cpp\<close>: the object that owns every other
  component and passes buffers between them. Its state is the record of its members, with the state of each
  component; its operations are composed of theirs.

  What the station does to the outside is a list of \<open>gs_event\<close>s, in order: the four callbacks of the Android layer,
  the mirror socket, the radio, and the actions of the router and of the packet source. A thread of the station is a
  sequence of atomic steps: \<open>gs_OnFrame\<close> and \<open>gs_OnVideoPayload\<close> of the source's thread, \<open>gs_poll\<close> of the router's,
  \<open>stats_iteration\<close> of the statistics thread. \<open>None\<close> is a read outside a buffer or the use of a null pointer.
\<close>

subsection \<open>Data\<close>

definition kIeee80211Header :: bytes where
  "kIeee80211Header =
     [0x08, 0x01, 0x00, 0x00,
      0xff, 0xff, 0xff, 0xff, 0xff, 0xff,
      0x57, 0x42, 0xaa, 0xbb, 0xcc, 0xdd,
      0x57, 0x42, 0xaa, 0xbb, 0xcc, 0xdd,
      0x00, 0x00]"

record callbacks =
  cb_on_video_nal :: bool
  cb_on_osd_frame :: bool
  cb_on_stats :: bool
  cb_on_status :: bool

datatype gs_event =
    VideoNal bytes
  | MirrorSend int bytes
  | OsdShown osd_frame
  | StatsShown link_snapshot telemetry_state
  | Status string
  | Injected bytes bool
  | Routed router_action
  | SourceCall source_call
  | CloseMirror int

record ('a, 'd) ground_station =
  gs_config :: gs_config
  gs_callbacks :: callbacks
  gs_source :: "'d packet_source option"
  gs_receiver :: "'a wfb_receiver option"
  gs_depacketizer :: depacketizer
  gs_osd :: msp_decoder
  gs_mavlink :: router
  gs_alink :: "alink_controller option"
  gs_stats :: link_stats
  gs_mirror_fd :: int
  gs_running :: bool
  gs_last_error :: string
  gs_mirrors_open :: "int list"

text \<open>
  What the outside decides during \<open>Start\<close>: the sockets, the wake pipe of the router, whether the mirror socket
  connects, the text of the exception of a failed key load, and the two libraries.
\<close>

record ('a, 'd) gs_env =
  ge_network :: network
  ge_mirror_socket :: int
  ge_mirror_connect :: "sockaddr \<Rightarrow> bool"
  ge_pipe :: "(int \<times> int) option"
  ge_aggregator :: "'a aggregator_ops"
  ge_key_error :: string
  ge_usb :: "'d usb_ops"

definition no_callbacks :: callbacks where
  "no_callbacks = \<lparr>cb_on_video_nal = False, cb_on_osd_frame = False, cb_on_stats = False, cb_on_status = False\<rparr>"

definition ground_station_init :: "('a, 'd) ground_station" where
  "ground_station_init =
     \<lparr>gs_config = gs_config_default, gs_callbacks = no_callbacks, gs_source = None, gs_receiver = None,
      gs_depacketizer = depacketizer_init kUnknown, gs_osd = msp_decoder_init, gs_mavlink = router_init,
      gs_alink = None, gs_stats = link_stats_init, gs_mirror_fd = - 1, gs_running = False, gs_last_error = '''',
      gs_mirrors_open = []\<rparr>"

subsection \<open>Start and stop\<close>

definition SetError :: "('a, 'd) ground_station \<Rightarrow> string \<Rightarrow> ('a, 'd) ground_station \<times> gs_event list" where
  "SetError s message =
     (s\<lparr>gs_last_error := message\<rparr>, if cb_on_status (gs_callbacks s) then [Status message] else [])"

text \<open>The mirror socket: created, connected, and closed again when the address is bad.\<close>

definition open_mirror :: "('a, 'd) gs_env \<Rightarrow> ('a, 'd) ground_station \<Rightarrow> ('a, 'd) ground_station \<times> gs_event list" where
  "open_mirror env s =
     (let config = gs_config s; fd = ge_mirror_socket env in
      if gc_video_mirror_host config \<noteq> '''' \<and> gc_video_mirror_port config > 0 then
        (if fd < 0 then (s\<lparr>gs_mirror_fd := fd\<rparr>, [])
         else case nt_pton (ge_network env) (gc_video_mirror_host config) of
           None \<Rightarrow> (s\<lparr>gs_mirror_fd := - 1\<rparr>, [CloseMirror fd])
         | Some ip \<Rightarrow>
             if \<not> ge_mirror_connect env (ip, word_of_int (gc_video_mirror_port config))
             then (s\<lparr>gs_mirror_fd := - 1\<rparr>, [CloseMirror fd])
             else (s\<lparr>gs_mirror_fd := fd, gs_mirrors_open := gs_mirrors_open s @ [fd]\<rparr>, []))
      else (s, []))"

definition add_streams :: "'a aggregator_ops \<Rightarrow> 'a wfb_receiver \<Rightarrow> 'a wfb_receiver option" where
  "add_streams ops r = do {
     r1 \<leftarrow> AddStream ops r kPortVideo;
     r2 \<leftarrow> AddStream ops r1 kPortMavlinkRx;
     AddStream ops r2 kPortTunnelRx
   }"

text \<open>
  The common tail of the two failures of \<open>Start\<close>: report, release the source that failed to start, drop the receiver,
  stop the router.
\<close>

definition abort_start ::
  "('a, 'd) ground_station \<Rightarrow> string \<Rightarrow> source_call list \<Rightarrow> ('a, 'd) ground_station \<times> gs_event list" where
  "abort_start s message released =
     (let (s1, status) = SetError s message; (m, acts) = router_Stop (gs_mavlink s1)
      in (s1\<lparr>gs_receiver := None, gs_mavlink := m\<rparr>, status @ map SourceCall released @ map Routed acts))"

text \<open>
  The source and the receiver of the configured kind: \<open>None\<close> when a stream could not be added. \<open>kPcapFile\<close> takes the
  default branch, like \<open>kDevourer\<close>.
\<close>

definition make_source ::
  "('a, 'd) gs_env \<Rightarrow> ('a, 'd) ground_station \<Rightarrow> int \<Rightarrow> ('d packet_source \<times> 'a wfb_receiver option) option" where
  "make_source env s usb_fd =
     (case gc_source (gs_config s) of
        kUdp \<Rightarrow> Some (set_datagram_callback (UdpSource (MakeUdpSource (gc_udp (gs_config s)))), gs_receiver s)
      | _ \<Rightarrow> map_option (\<lambda>r. (set_frame_callback (DevourerSource (MakeDevourerSource (gc_radio (gs_config s)) usb_fd)), Some r))
               (add_streams (ge_aggregator env) (wfb_receiver_init (gc_radio (gs_config s)))))"

text \<open>\<open>Start\<close> up to the choice of the source: callbacks, router, mirror, adaptive link.\<close>

definition prepare_start ::
  "('a, 'd) gs_env \<Rightarrow> ('a, 'd) ground_station \<Rightarrow> gs_config \<Rightarrow> callbacks \<Rightarrow> ('a, 'd) ground_station \<times> gs_event list" where
  "prepare_start env s config cbs =
     (let s1 = s\<lparr>gs_config := config, gs_callbacks := cbs,
                 gs_depacketizer := depacketizer_set_callback (gs_depacketizer s),
                 gs_osd := osd_set_callback (gs_osd s),
                 gs_mavlink := fst (router_Start (set_uplink_callback (gs_mavlink s)) (ge_pipe env))\<rparr>;
          (s2, ev2) = open_mirror env s1
      in (if ac_enabled (gc_alink (gs_config s2))
          then s2\<lparr>gs_alink := Some (alink_new (gc_alink (gs_config s2)))\<rparr> else s2, ev2))"

definition gs_Start ::
  "('a, 'd) gs_env \<Rightarrow> ('a, 'd) ground_station \<Rightarrow> gs_config \<Rightarrow> int \<Rightarrow> callbacks \<Rightarrow> ('a, 'd) ground_station \<times> gs_event list \<times> bool" where
  "gs_Start env s config usb_fd cbs =
     (if gs_running s then (s, [], True)
      else
        let (s3, ev3) = prepare_start env s config cbs in
        case make_source env s3 usb_fd of
          None \<Rightarrow>
            (case abort_start s3 (''could not load gs.key: '' @ ge_key_error env) [] of (s4, ev4) \<Rightarrow> (s4, ev3 @ ev4, False))
        | Some (src, receiver) \<Rightarrow>
            (case source_Start (ge_network env) (ge_usb env) src of
               (src1, calls, Some error) \<Rightarrow>
                 let (s4, ev4) = abort_start (s3\<lparr>gs_source := None, gs_receiver := receiver\<rparr>) error (snd (source_Stop src1))
                 in (s4, ev3 @ map SourceCall calls @ ev4, False)
             | (src1, calls, None) \<Rightarrow>
                 (s3\<lparr>gs_source := Some src1, gs_receiver := receiver, gs_running := True\<rparr>,
                  ev3 @ map SourceCall calls @ (if cb_on_status cbs then [Status ''ground station running''] else []), True)))"

definition gs_Stop :: "('a, 'd) ground_station \<Rightarrow> ('a, 'd) ground_station \<times> gs_event list" where
  "gs_Stop s =
     (if \<not> gs_running s then (s, [])
      else
        let s1 = s\<lparr>gs_running := False\<rparr>;
            (s2, ev2) = (case gs_source s1 of
                           None \<Rightarrow> (s1, [])
                         | Some src \<Rightarrow> (s1\<lparr>gs_source := None\<rparr>, map SourceCall (snd (source_Stop src))));
            (m, acts) = router_Stop (gs_mavlink s2);
            s3 = s2\<lparr>gs_mavlink := m, gs_receiver := None, gs_alink := None\<rparr>
        in if gs_mirror_fd s3 \<ge> 0
           then (s3\<lparr>gs_mirror_fd := - 1, gs_mirrors_open := remove1 (gs_mirror_fd s3) (gs_mirrors_open s3)\<rparr>,
                 ev2 @ map Routed acts @ [CloseMirror (gs_mirror_fd s3)])
           else (s3, ev2 @ map Routed acts))"

subsection \<open>Payloads\<close>

definition video_sinks :: "('a, 'd) ground_station \<Rightarrow> nal_unit \<Rightarrow> gs_event list" where
  "video_sinks s nal =
     (if cb_on_video_nal (gs_callbacks s) then [VideoNal (nu_data nal)] else [])
     @ (if gs_mirror_fd s \<ge> 0 then [MirrorSend (gs_mirror_fd s) (nu_data nal)] else [])"

definition osd_sinks :: "('a, 'd) ground_station \<Rightarrow> osd_frame \<Rightarrow> gs_event list" where
  "osd_sinks s frame = (if cb_on_osd_frame (gs_callbacks s) then [OsdShown frame] else [])"

definition gs_OnVideoPayload ::
  "('a, 'd) ground_station \<Rightarrow> bytes \<Rightarrow> (('a, 'd) ground_station \<times> gs_event list) option" where
  "gs_OnVideoPayload s data = do {
     (d, nals) \<leftarrow> OnVideoPayload (gs_depacketizer s) data;
     Some (s\<lparr>gs_depacketizer := d\<rparr>, concat (map (video_sinks s) nals))
   }"

definition OnTunnelPayload ::
  "('a, 'd) ground_station \<Rightarrow> bytes \<Rightarrow> (('a, 'd) ground_station \<times> gs_event list) option" where
  "OnTunnelPayload s data = do {
     (d, frames) \<leftarrow> osd_Push (gs_osd s) data;
     Some (s\<lparr>gs_osd := d\<rparr>, concat (map (osd_sinks s) frames))
   }"

definition OnTelemetryPayload ::
  "('a, 'd) ground_station \<Rightarrow> u64 \<Rightarrow> bytes \<Rightarrow> (('a, 'd) ground_station \<times> gs_event list) option" where
  "OnTelemetryPayload s now data = do {
     (m, acts) \<leftarrow> FeedDownlink (gs_mavlink s) now data;
     (s2, ev2) \<leftarrow> OnTunnelPayload (s\<lparr>gs_mavlink := m\<rparr>) data;
     Some (s2, map Routed acts @ ev2)
   }"

text \<open>The callbacks registered with \<open>AddStream\<close>, applied to what the receiver delivered for each port.\<close>

definition gs_deliver ::
  "u64 \<Rightarrow> ('a, 'd) ground_station \<Rightarrow> u8 \<times> bytes \<Rightarrow> (('a, 'd) ground_station \<times> gs_event list) option" where
  "gs_deliver now s item =
     (case item of (port, data) \<Rightarrow>
        if port = kPortVideo then gs_OnVideoPayload s data
        else if port = kPortMavlinkRx then OnTelemetryPayload s now data
        else if port = kPortTunnelRx then OnTunnelPayload s data
        else Some (s, []))"

definition gs_OnFrame ::
  "'a aggregator_ops \<Rightarrow> u64 \<Rightarrow> ('a, 'd) ground_station \<Rightarrow> bytes \<times> frame_meta \<Rightarrow> (('a, 'd) ground_station \<times> gs_event list) option" where
  "gs_OnFrame ops now s input =
     (case gs_receiver s of
        None \<Rightarrow> None
      | Some r \<Rightarrow> do {
          (r', delivered) \<leftarrow> ProcessFrame ops r input;
          run_steps (gs_deliver now) (s\<lparr>gs_receiver := Some r'\<rparr>) delivered
        })"

subsection \<open>The uplink\<close>

definition uplink_frame :: "u32 \<Rightarrow> bytes \<Rightarrow> bytes" where
  "uplink_frame channel_id data =
     (let channel_bytes = [ucast (drop_bit 24 channel_id AND 0xff), ucast (drop_bit 16 channel_id AND 0xff),
                           ucast (drop_bit 8 channel_id AND 0xff), ucast (channel_id AND 0xff)] :: bytes
      in take 12 kIeee80211Header @ channel_bytes @ take 2 (drop 16 kIeee80211Header) @ channel_bytes
         @ drop 22 kIeee80211Header @ data)"

definition SendUplink ::
  "'d usb_ops \<Rightarrow> ('a, 'd) ground_station \<Rightarrow> u8 \<Rightarrow> bytes \<Rightarrow> ('a, 'd) ground_station \<times> gs_event list" where
  "SendUplink ops s radio_port data =
     (case gs_source s of
        None \<Rightarrow> (s, [])
      | Some src \<Rightarrow>
          if gc_source (gs_config s) \<noteq> kDevourer then (s, [])
          else
            let frame = uplink_frame (ChannelId (rc_link_id (gc_radio (gs_config s))) radio_port) data;
                (src', ok) = source_Transmit ops src frame
            in (s\<lparr>gs_source := Some src'\<rparr>, [Injected frame ok]))"

text \<open>One iteration of the router's thread: what it sends up goes to the MAVLink uplink port.\<close>

fun route_actions ::
  "'d usb_ops \<Rightarrow> ('a, 'd) ground_station \<Rightarrow> router_action list \<Rightarrow> ('a, 'd) ground_station \<times> gs_event list" where
  "route_actions ops s [] = (s, [])"
| "route_actions ops s (a # as) =
     (let (s1, ev1) = (case a of Uplink data \<Rightarrow> SendUplink ops s kPortMavlinkTx data | _ \<Rightarrow> (s, [Routed a]));
          (s2, ev2) = route_actions ops s1 as
      in (s2, ev1 @ ev2))"

definition gs_poll ::
  "network \<Rightarrow> 'd usb_ops \<Rightarrow> ('a, 'd) ground_station \<Rightarrow> poll_result \<Rightarrow> (('a, 'd) ground_station \<times> gs_event list) option" where
  "gs_poll net ops s result = do {
     (m, acts, continues) \<leftarrow> poll_iteration net (gs_mavlink s) result;
     Some (route_actions ops (s\<lparr>gs_mavlink := m\<rparr>) acts)
   }"

subsection \<open>The statistics thread\<close>

text \<open>
  One round of \<open>StatsLoop\<close> after the sleep: \<open>now0\<close> is the clock at the snapshot, \<open>now\<close> the clock at the adaptive-link
  test, \<open>draws\<close> the random numbers of the keyframe code. \<open>next_alink_ms\<close> is the local variable of the loop.
\<close>

definition stats_iteration ::
  "'a aggregator_ops \<Rightarrow> 'd usb_ops \<Rightarrow> ('a, 'd) ground_station \<times> u64 \<Rightarrow> u64 \<times> u64 \<times> nat list
    \<Rightarrow> ((('a, 'd) ground_station \<times> u64) \<times> gs_event list) option" where
  "stats_iteration aops uops state input =
     (case (state, input) of ((s, next_alink_ms), (now0, now, draws)) \<Rightarrow>
      if \<not> gs_running s then Some ((s, next_alink_ms), [])
      else
        let (s1, snapshot) =
              (case gs_receiver s of
                 Some r \<Rightarrow> (case TakeSnapshot aops r now0 of (r', sn) \<Rightarrow> (s\<lparr>gs_receiver := Some r'\<rparr>, sn))
               | None \<Rightarrow> (s, link_snapshot_default\<lparr>ls_timestamp_ms := now0\<rparr>));
            s2 = s1\<lparr>gs_stats := stats_Publish (gs_stats s1) snapshot\<rparr>;
            shown = (if cb_on_stats (gs_callbacks s2)
                     then [StatsShown snapshot (telemetry_Get (rt_telemetry (gs_mavlink s2)))] else [])
        in case gs_alink s2 of
          None \<Rightarrow> Some ((s2, next_alink_ms), shown)
        | Some c \<Rightarrow>
            if Option.is_none (gs_receiver s2) \<or> now < next_alink_ms then Some ((s2, next_alink_ms), shown)
            else do {
              let next' = now + word_of_int (ac_interval_ms (gc_alink (gs_config s2)));
              (c', result) \<leftarrow> alink_Update c (snapshot, now div 1000, draws);
              let (s3, ev3) = SendUplink uops (s2\<lparr>gs_alink := Some c'\<rparr>) kPortTunnelTx (alink_Frame (ar_message result));
              Some ((s3, next'), shown @ ev3)
            })"

subsection \<open>Live changes\<close>

definition SetMavlinkEndpoints :: "('a, 'd) ground_station \<Rightarrow> mavlink_endpoint list \<Rightarrow> ('a, 'd) ground_station" where
  "SetMavlinkEndpoints s endpoints = s\<lparr>gs_mavlink := router_SetEndpoints (gs_mavlink s) endpoints\<rparr>"

definition SetAlinkConfig :: "('a, 'd) ground_station \<Rightarrow> alink_config \<Rightarrow> ('a, 'd) ground_station" where
  "SetAlinkConfig s config =
     (let s1 = s\<lparr>gs_config := (gs_config s)\<lparr>gc_alink := config\<rparr>\<rparr> in
      if \<not> ac_enabled config then s1\<lparr>gs_alink := None\<rparr>
      else case gs_alink s1 of
        Some c \<Rightarrow> s1\<lparr>gs_alink := Some (alink_set_config c config)\<rparr>
      | None \<Rightarrow> s1\<lparr>gs_alink := Some (alink_new config)\<rparr>)"

definition SetVideoCodec :: "('a, 'd) ground_station \<Rightarrow> video_codec \<Rightarrow> ('a, 'd) ground_station" where
  "SetVideoCodec s codec = s\<lparr>gs_depacketizer := depacketizer_set_codec (gs_depacketizer s) codec\<rparr>"

definition gs_SetChannel ::
  "'d usb_ops \<Rightarrow> ('a, 'd) ground_station \<Rightarrow> int \<Rightarrow> bandwidth \<Rightarrow> ('a, 'd) ground_station \<times> bool" where
  "gs_SetChannel ops s channel bw =
     (case gs_source s of
        None \<Rightarrow> (s, False)
      | Some src \<Rightarrow>
          let radio = (gc_radio (gs_config s))\<lparr>rc_channel := channel, rc_bandwidth := bw\<rparr>;
              (src', ok) = source_SetChannel ops src channel bw
          in (s\<lparr>gs_config := (gs_config s)\<lparr>gc_radio := radio\<rparr>, gs_source := Some src'\<rparr>, ok))"

text \<open>What can be asked of a station, and its destructor.\<close>

definition last_error :: "('a, 'd) ground_station \<Rightarrow> string" where
  "last_error s = gs_last_error s"

definition gs_link_stats :: "('a, 'd) ground_station \<Rightarrow> link_snapshot" where
  "gs_link_stats s = stats_Get (gs_stats s)"

definition gs_telemetry :: "('a, 'd) ground_station \<Rightarrow> telemetry_state" where
  "gs_telemetry s = telemetry_Get (rt_telemetry (gs_mavlink s))"

definition gs_destroy :: "('a, 'd) ground_station \<Rightarrow> gs_event list" where
  "gs_destroy s = snd (gs_Stop s)"

subsection \<open>The uplink frame\<close>

lemma uplink_frame_layout:
  "uplink_frame ch data = [0x08, 0x01, 0, 0, 0xff, 0xff, 0xff, 0xff, 0xff, 0xff, 0x57, 0x42] @ be32_bytes ch
     @ [0x57, 0x42] @ be32_bytes ch @ [0, 0] @ data"
  by (simp add: uplink_frame_def kIeee80211Header_def be32_bytes_def Let_def)

lemma uplink_frame_carries: "4 \<le> length fcs \<Longrightarrow> carries ch (uplink_frame ch data @ fcs)"
  by (simp add: carries_def uplink_frame_layout be32_bytes_def)

lemma uplink_frame_payload: "drop 24 (uplink_frame ch data) = data"
  by (simp add: uplink_frame_layout be32_bytes_def)

lemma SendUplink_state:
  "fst (SendUplink ops s p data) = s\<lparr>gs_source :=
     (if gc_source (gs_config s) = kDevourer
      then map_option (\<lambda>src. fst (source_Transmit ops src (uplink_frame (ChannelId (rc_link_id (gc_radio (gs_config s))) p) data))) (gs_source s)
      else gs_source s)\<rparr>"
  by (simp add: SendUplink_def Let_def split_def split: option.split)

subsection \<open>Reachable states\<close>

text \<open>
  What holds between two steps of the station: each component's invariant, and the pairing of the running flag with
  the source, the receiver and the router.
\<close>

definition parts_inv :: "('a, 'd) ground_station \<Rightarrow> bool" where
  "parts_inv s \<longleftrightarrow> reach_inv (gs_mavlink s) \<and> fragment_inv (gs_depacketizer s) \<and> osd_inv (gs_osd s)"

definition life_inv :: "('a, 'd) ground_station \<Rightarrow> bool" where
  "life_inv s \<longleftrightarrow>
     (if gs_running s
      then (\<exists>src. gs_source s = Some src \<and> source_inv src \<and> source_holds src)
        \<and> (gc_source (gs_config s) \<noteq> kUdp \<longrightarrow> gs_receiver s \<noteq> None)
      else gs_source s = None \<and> gs_receiver s = None \<and> \<not> rt_running (gs_mavlink s))"

lemma Transmit_keeps:
  "source_inv src \<Longrightarrow> source_holds src \<Longrightarrow>
     source_inv (fst (source_Transmit ops src f)) \<and> source_holds (fst (source_Transmit ops src f))"
  by (cases src) (auto simp: devourer_Transmit_def split: option.splits prod.splits)

lemma SetChannel_keeps:
  "source_inv src \<Longrightarrow> source_holds src \<Longrightarrow>
     source_inv (fst (source_SetChannel ops src ch bw)) \<and> source_holds (fst (source_SetChannel ops src ch bw))"
  by (cases src) (auto simp: devourer_SetChannel_def Let_def split: option.splits prod.splits sum.splits)

lemma life_inv_source:
  assumes "life_inv s" and "\<And>src. source_inv src \<Longrightarrow> source_holds src \<Longrightarrow> source_inv (f src) \<and> source_holds (f src)"
  shows "life_inv (s\<lparr>gs_source := map_option f (gs_source s)\<rparr>)"
  using assms by (auto simp: life_inv_def split: if_splits)

lemma SendUplink_life: "life_inv s \<Longrightarrow> life_inv (fst (SendUplink ops s p data))"
  by (simp add: SendUplink_state Transmit_keeps life_inv_source)

text \<open>The fields the lifecycle speaks about, and those the data path leaves alone.\<close>

definition same_life :: "('a, 'd) ground_station \<Rightarrow> ('a, 'd) ground_station \<Rightarrow> bool" where
  "same_life s s' \<longleftrightarrow> gs_running s' = gs_running s \<and> gs_source s' = gs_source s \<and> gs_config s' = gs_config s
     \<and> gs_callbacks s' = gs_callbacks s \<and> gs_mirror_fd s' = gs_mirror_fd s
     \<and> (gs_receiver s' = None \<longleftrightarrow> gs_receiver s = None) \<and> rt_running (gs_mavlink s') = rt_running (gs_mavlink s)"

lemma same_life_refl [simp]: "same_life s s"
  by (simp add: same_life_def)

lemma same_life_trans: "same_life s t \<Longrightarrow> same_life t u \<Longrightarrow> same_life s u"
  by (simp add: same_life_def)

lemma same_life_inv: "same_life s s' \<Longrightarrow> life_inv s \<Longrightarrow> life_inv s'"
  by (auto simp: same_life_def life_inv_def)

lemma video_payload_ok:
  assumes "parts_inv s"
  shows "\<exists>d nals. OnVideoPayload (gs_depacketizer s) data = Some (d, nals) \<and> fragment_inv d
    \<and> gs_OnVideoPayload s data = Some (s\<lparr>gs_depacketizer := d\<rparr>, concat (map (video_sinks s) nals))"
  using rtp.step_safe [of "gs_depacketizer s" data] assms by (auto simp: parts_inv_def gs_OnVideoPayload_def)

lemma tunnel_payload_ok:
  assumes "parts_inv s"
  shows "\<exists>d frames. osd_Push (gs_osd s) data = Some (d, frames) \<and> osd_inv d
    \<and> OnTunnelPayload s data = Some (s\<lparr>gs_osd := d\<rparr>, concat (map (osd_sinks s) frames))"
  using msp_stream.step_safe [of "gs_osd s" data] assms by (auto simp: parts_inv_def OnTunnelPayload_def)

lemma telemetry_payload_ok:
  assumes "parts_inv s"
  shows "\<exists>m d frames acts. FeedDownlink (gs_mavlink s) now data = Some (m, acts) \<and> reach_inv m
    \<and> rt_running m = rt_running (gs_mavlink s) \<and> osd_Push (gs_osd s) data = Some (d, frames) \<and> osd_inv d
    \<and> OnTelemetryPayload s now data =
        Some (s\<lparr>gs_mavlink := m, gs_osd := d\<rparr>, map Routed acts @ concat (map (osd_sinks s) frames))"
proof -
  obtain m acts where m: "FeedDownlink (gs_mavlink s) now data = Some (m, acts)" "reach_inv m" "rt_running m = rt_running (gs_mavlink s)"
    using FeedDownlink_ok [of "gs_mavlink s" now data] assms
    by (auto simp: parts_inv_def reach_inv_def idle_inv_def pipe_fds_def)
  then have p: "parts_inv (s\<lparr>gs_mavlink := m\<rparr>)" using assms by (simp add: parts_inv_def)
  have "osd_sinks (s\<lparr>gs_mavlink := m\<rparr>) = osd_sinks s" by (simp add: osd_sinks_def fun_eq_iff)
  with m tunnel_payload_ok [OF p, of data] show ?thesis by (auto simp: OnTelemetryPayload_def)
qed

lemma deliver_ok:
  assumes "parts_inv s"
  shows "\<exists>s' ev. gs_deliver now s item = Some (s', ev) \<and> parts_inv s' \<and> same_life s s'"
proof -
  obtain port data where item: "item = (port, data)" by force
  consider "port = kPortVideo" | "port = kPortMavlinkRx" | "port = kPortTunnelRx"
    | "port \<notin> {kPortVideo, kPortMavlinkRx, kPortTunnelRx}" by blast
  then show ?thesis
  proof cases
    case 1
    with video_payload_ok [OF assms, of data] assms show ?thesis
      by (auto simp: item gs_deliver_def parts_inv_def same_life_def)
  next
    case 2
    with telemetry_payload_ok [OF assms, of now data] assms show ?thesis
      by (auto simp: item gs_deliver_def parts_inv_def same_life_def kPortVideo_def kPortMavlinkRx_def)
  next
    case 3
    with tunnel_payload_ok [OF assms, of data] assms show ?thesis
      by (auto simp: item gs_deliver_def parts_inv_def same_life_def kPortVideo_def kPortMavlinkRx_def kPortTunnelRx_def)
  next
    case 4
    with assms show ?thesis by (auto simp: item gs_deliver_def)
  qed
qed

interpretation deliver: checked_machine "gs_deliver now" parts_inv for now
  by unfold_locales (use deliver_ok in blast)

lemma deliver_run_life:
  "parts_inv s \<Longrightarrow> run_steps (gs_deliver now) s items = Some (s', ev) \<Longrightarrow> same_life s s'"
proof (induction items arbitrary: s ev)
  case (Cons item items)
  obtain s1 ev1 where s1: "gs_deliver now s item = Some (s1, ev1)" "parts_inv s1" "same_life s s1"
    using deliver_ok [OF Cons.prems(1)] by blast
  then obtain ev2 where "run_steps (gs_deliver now) s1 items = Some (s', ev2)"
    using Cons.prems(2) by (auto split: Option.bind_splits)
  with Cons.IH [OF s1(2)] s1(3) show ?case by (blast intro: same_life_trans)
qed simp

lemma OnFrame_inv:
  assumes "parts_inv s" and "gs_OnFrame ops now s input = Some (s', ev)"
  shows "parts_inv s' \<and> same_life s s'"
proof -
  obtain r r' items where r: "gs_receiver s = Some r" "ProcessFrame ops r input = Some (r', items)"
      "run_steps (gs_deliver now) (s\<lparr>gs_receiver := Some r'\<rparr>) items = Some (s', ev)"
    using assms(2) by (auto simp: gs_OnFrame_def split: option.splits Option.bind_splits)
  have p: "parts_inv (s\<lparr>gs_receiver := Some r'\<rparr>)" using assms(1) by (simp add: parts_inv_def)
  have "same_life s (s\<lparr>gs_receiver := Some r'\<rparr>)" using r(1) by (simp add: same_life_def)
  with deliver.run_keeps [OF p r(3)] deliver_run_life [OF p r(3)] show ?thesis by (blast intro: same_life_trans)
qed

lemma route_actions_keeps:
  "life_inv s \<Longrightarrow> life_inv (fst (route_actions ops s acts)) \<and> gs_mavlink (fst (route_actions ops s acts)) = gs_mavlink s
     \<and> gs_depacketizer (fst (route_actions ops s acts)) = gs_depacketizer s \<and> gs_osd (fst (route_actions ops s acts)) = gs_osd s"
proof (induction acts arbitrary: s)
  case (Cons a acts)
  let ?s = "fst (case a of Uplink data \<Rightarrow> SendUplink ops s kPortMavlinkTx data | _ \<Rightarrow> (s, [Routed a]))"
  have "life_inv ?s" using Cons.prems SendUplink_life by (cases a) simp_all
  moreover have "gs_mavlink ?s = gs_mavlink s" "gs_depacketizer ?s = gs_depacketizer s" "gs_osd ?s = gs_osd s"
    by (cases a; simp add: SendUplink_state)+
  moreover have "fst (route_actions ops s (a # acts)) = fst (route_actions ops ?s acts)"
    by (simp add: Let_def split_def)
  ultimately show ?case using Cons.IH [of ?s] by simp
qed simp

lemma poll_ok:
  assumes "parts_inv s" and "life_inv s" and "rt_running (gs_mavlink s)"
    and "fresh_sockets net (gs_mavlink s)" and "fresh_accepts net (gs_mavlink s) result"
  shows "\<exists>s' ev. gs_poll net ops s result = Some (s', ev) \<and> parts_inv s' \<and> life_inv s'"
proof -
  have "router_inv (gs_mavlink s)" using assms(1) by (simp add: parts_inv_def reach_inv_def)
  then obtain m acts go where m: "poll_iteration net (gs_mavlink s) result = Some (m, acts, go)" "router_inv m"
    using poll_step_ok [OF _ assms(4,5)] by blast
  have run: "rt_running m = rt_running (gs_mavlink s)" "rt_telemetry m = rt_telemetry (gs_mavlink s)"
    using poll_iteration_frame [OF m(1)] by simp_all
  let ?s = "s\<lparr>gs_mavlink := m\<rparr>"
  have "reach_inv m" using m(2) run assms(1,3) by (simp add: parts_inv_def reach_inv_def idle_inv_def)
  then have p: "parts_inv ?s" using assms(1) by (simp add: parts_inv_def)
  have l: "life_inv ?s" using assms(2) run by (auto simp: life_inv_def)
  show ?thesis
    using m(1) route_actions_keeps [OF l, of ops acts] p
    by (auto simp: gs_poll_def parts_inv_def intro!: exI [of _ "fst (route_actions ops ?s acts)"] exI [of _ "snd (route_actions ops ?s acts)"])
qed

lemma set_uplink_inv [simp]: "reach_inv (set_uplink_callback r) = reach_inv r"
  by (simp add: set_uplink_callback_def reach_inv_def idle_inv_def router_inv_def framers_inv_def fds_inv_def held_def pipe_fds_def)

lemma prepare_start_state:
  "prepare_start env s config cbs = (s3, ev) \<Longrightarrow>
     gs_config s3 = config \<and> gs_callbacks s3 = cbs \<and> gs_source s3 = gs_source s \<and> gs_receiver s3 = gs_receiver s
     \<and> gs_running s3 = gs_running s \<and> gs_depacketizer s3 = depacketizer_set_callback (gs_depacketizer s)
     \<and> gs_osd s3 = osd_set_callback (gs_osd s) \<and> gs_last_error s3 = gs_last_error s
     \<and> gs_mavlink s3 = fst (router_Start (set_uplink_callback (gs_mavlink s)) (ge_pipe env))"
  by (auto simp: prepare_start_def open_mirror_def Let_def split: prod.splits if_splits option.splits)

lemma source_Start_success:
  assumes "source_inv src" and "\<not> source_holds src" and "source_Start net ops src = (src', calls, None)"
  shows "source_inv src' \<and> source_holds src'"
proof (cases src)
  case (UdpSource u)
  with assms show ?thesis by (auto simp: udp_Start_def Let_def split: prod.splits option.splits if_splits)
next
  case (DevourerSource d)
  with assms obtain d' cs where d: "devourer_Start ops d = (d', cs, None)" "src' = DevourerSource d'"
    by (auto split: prod.splits)
  from devourer_Start_spec [of d ops] d(1) assms(1,2) DevourerSource d(2) show ?thesis by (auto simp: start_outcome_def)
qed

lemma make_source_fresh:
  assumes "make_source env s usb_fd = Some (src, receiver)"
  shows "source_inv src \<and> \<not> source_holds src \<and> (gc_source (gs_config s) \<noteq> kUdp \<longrightarrow> receiver \<noteq> None)"
  using assms
  by (cases "gc_source (gs_config s)") (auto simp: make_source_def MakeUdpSource_def MakeDevourerSource_def)

lemma router_Stop_idle: "router_inv r \<Longrightarrow> \<not> rt_running (fst (router_Stop r))"
  using Stop_releases [of r] by (cases "rt_running r") (auto simp: router_Stop_def)

lemma abort_start_inv:
  assumes "parts_inv s" and "gs_source s = None" and "\<not> gs_running s" and "abort_start s message released = (s', ev)"
  shows "parts_inv s' \<and> life_inv s' \<and> \<not> gs_running s' \<and> gs_last_error s' = message
    \<and> gs_config s' = gs_config s \<and> gs_mirror_fd s' = gs_mirror_fd s \<and> gs_mirrors_open s' = gs_mirrors_open s
    \<and> gs_alink s' = gs_alink s \<and> (cb_on_status (gs_callbacks s) \<longrightarrow> Status message \<in> set ev)"
proof -
  have m: "reach_inv (fst (router_Stop (gs_mavlink s)))" "\<not> rt_running (fst (router_Stop (gs_mavlink s)))"
    using assms(1) Stop_inv router_Stop_idle by (simp_all add: parts_inv_def reach_inv_def)
  have "s' = s\<lparr>gs_last_error := message, gs_receiver := None, gs_mavlink := fst (router_Stop (gs_mavlink s))\<rparr>"
    "cb_on_status (gs_callbacks s) \<longrightarrow> Status message \<in> set ev"
    using assms(4) by (auto simp: abort_start_def SetError_def Let_def split: prod.splits)
  with m assms(1-3) show ?thesis by (simp add: parts_inv_def life_inv_def)
qed

lemma Start_outcome:
  assumes "parts_inv s" and "life_inv s" and "\<not> gs_running s" and "fresh_pipe (gs_mavlink s) (ge_pipe env)"
    and "gs_Start env s config usb_fd cbs = (s', ev, ok)" and "prepare_start env s config cbs = (s3, ev3)"
  shows "parts_inv s' \<and> life_inv s' \<and> gs_running s' = ok \<and> gs_config s' = config
    \<and> gs_mirror_fd s' = gs_mirror_fd s3 \<and> gs_mirrors_open s' = gs_mirrors_open s3 \<and> gs_alink s' = gs_alink s3
    \<and> (\<not> ok \<longrightarrow> cb_on_status cbs \<longrightarrow> Status (gs_last_error s') \<in> set ev)"
proof -
  note s3 = prepare_start_state [OF assms(6)]
  have "fresh_pipe (set_uplink_callback (gs_mavlink s)) (ge_pipe env)"
    using assms(4) by (simp add: fresh_pipe_def set_uplink_callback_def split: option.splits prod.splits)
  then have "reach_inv (gs_mavlink s3)"
    using Start_inv [of "set_uplink_callback (gs_mavlink s)" "ge_pipe env"] assms(1) s3 by (simp add: parts_inv_def)
  then have p3: "parts_inv s3" using s3 assms(1) by (simp add: parts_inv_def osd_set_callback_def)
  have idle: "gs_source s3 = None" "\<not> gs_running s3" using s3 assms(2,3) by (auto simp: life_inv_def)
  show ?thesis
  proof (cases "make_source env s3 usb_fd")
    case None
    obtain s4 ev4 where a: "abort_start s3 (''could not load gs.key: '' @ ge_key_error env) [] = (s4, ev4)" by force
    with None assms(3,5,6) have "s' = s4" "ev = ev3 @ ev4" "\<not> ok" by (simp_all add: gs_Start_def)
    with abort_start_inv [OF p3 idle a] s3 show ?thesis by simp
  next
    case (Some pair)
    then obtain src receiver where mk: "make_source env s3 usb_fd = Some (src, receiver)" by (cases pair) simp
    note fresh = make_source_fresh [OF mk]
    obtain src1 calls err where st: "source_Start (ge_network env) (ge_usb env) src = (src1, calls, err)"
      using prod_cases3 by blast
    show ?thesis
    proof (cases err)
      case (Some error)
      let ?s = "s3\<lparr>gs_source := None, gs_receiver := receiver\<rparr>"
      obtain s4 ev4 where a: "abort_start ?s error (snd (source_Stop src1)) = (s4, ev4)" by force
      have "parts_inv ?s" using p3 by (simp add: parts_inv_def)
      with abort_start_inv [OF this _ _ a] idle s3 st Some mk a assms(3,5,6) show ?thesis
        by (auto simp: gs_Start_def)
    next
      case None
      with st mk assms(3,5,6) have s': "s' = s3\<lparr>gs_source := Some src1, gs_receiver := receiver, gs_running := True\<rparr>" "ok"
        by (simp_all add: gs_Start_def)
      moreover have "source_inv src1 \<and> source_holds src1" using source_Start_success fresh st None by blast
      ultimately show ?thesis using p3 s3 fresh by (simp add: parts_inv_def life_inv_def)
    qed
  qed
qed

lemma Stop_outcome:
  assumes "parts_inv s" and "life_inv s" and "gs_running s" and "gs_Stop s = (s', ev)"
  shows "parts_inv s' \<and> life_inv s' \<and> \<not> gs_running s' \<and> gs_alink s' = None \<and> gs_mirror_fd s' < 0
    \<and> rt_open (gs_mavlink s') = []
    \<and> ev = map SourceCall (snd (source_Stop (the (gs_source s)))) @ map Routed (snd (router_Stop (gs_mavlink s)))
           @ (if 0 \<le> gs_mirror_fd s then [CloseMirror (gs_mirror_fd s)] else [])"
proof -
  obtain src where src: "gs_source s = Some src" using assms(2,3) by (auto simp: life_inv_def)
  obtain m acts where m: "router_Stop (gs_mavlink s) = (m, acts)" by force
  have r: "reach_inv m" "\<not> rt_running m"
    using Stop_inv [of "gs_mavlink s"] router_Stop_idle [of "gs_mavlink s"] assms(1) m
    by (simp_all add: parts_inv_def reach_inv_def)
  then have "rt_endpoints m = []" "pipe_fds m = []" "mset (rt_open m) = mset (held m)"
    by (simp_all add: reach_inv_def idle_inv_def router_inv_def fds_inv_def)
  then have "rt_open m = []" by (simp add: held_def table_fds_def)
  moreover have "s' = s\<lparr>gs_running := False, gs_source := None, gs_mavlink := m, gs_receiver := None, gs_alink := None,
      gs_mirror_fd := (if 0 \<le> gs_mirror_fd s then - 1 else gs_mirror_fd s),
      gs_mirrors_open := (if 0 \<le> gs_mirror_fd s then remove1 (gs_mirror_fd s) (gs_mirrors_open s) else gs_mirrors_open s)\<rparr>"
    and "ev = map SourceCall (snd (source_Stop src)) @ map Routed acts
      @ (if 0 \<le> gs_mirror_fd s then [CloseMirror (gs_mirror_fd s)] else [])"
    using assms(3,4) src m by (auto simp: gs_Stop_def Let_def split: if_splits)
  ultimately show ?thesis using r assms(1) src m by (simp add: parts_inv_def life_inv_def)
qed

lemma stats_iteration_inv:
  assumes "parts_inv s" and "life_inv s" and "stats_iteration aops uops (s, n) input = Some ((s', n'), ev)"
  shows "parts_inv s' \<and> life_inv s'"
proof (cases "gs_running s")
  case False
  with assms show ?thesis by (auto simp: stats_iteration_def split: prod.splits)
next
  case True
  obtain now0 now draws where input: "input = (now0, now, draws)" using prod_cases3 by blast
  obtain s1 sn where s1: "(case gs_receiver s of
        Some r \<Rightarrow> (case TakeSnapshot aops r now0 of (r', sn) \<Rightarrow> (s\<lparr>gs_receiver := Some r'\<rparr>, sn))
      | None \<Rightarrow> (s, link_snapshot_default\<lparr>ls_timestamp_ms := now0\<rparr>)) = (s1, sn)" by force
  let ?s = "s1\<lparr>gs_stats := stats_Publish (gs_stats s1) sn\<rparr>"
  have keep: "same_life s ?s" "parts_inv ?s"
    using s1 assms(1) by (auto simp: same_life_def parts_inv_def split: option.splits prod.splits)
  have life: "life_inv (fst (SendUplink uops (?s\<lparr>gs_alink := c\<rparr>) p data))" for c p data
    using same_life_inv [OF keep(1) assms(2)] by (intro SendUplink_life) (auto simp: life_inv_def split: if_splits)
  have parts: "parts_inv (fst (SendUplink uops (?s\<lparr>gs_alink := c\<rparr>) p data))" for c p data
    using keep(2) by (simp add: SendUplink_state parts_inv_def)
  show ?thesis
    using assms(3) True s1 same_life_inv [OF keep(1) assms(2)] keep(2) life parts
    by (auto simp: stats_iteration_def input Let_def split: option.split_asm if_split_asm Option.bind_split_asm prod.split_asm)
       (metis fst_conv)+
qed

text \<open>
  The states a station can reach by any sequence of the calls of the Android layer and the steps of its three threads. Each
  call and each step is taken as a whole, although the code holds no lock around them; Station_Threads takes the calls that
  share the source and the controller apart. The premises on descriptors are what the operating system guarantees; a poll step runs while the router's
  thread does.
\<close>

inductive gs_reach :: "('a, 'd) ground_station \<Rightarrow> bool" where
  gs_init: "gs_reach ground_station_init"
| gs_start: "gs_reach s \<Longrightarrow> fresh_pipe (gs_mavlink s) (ge_pipe env) \<Longrightarrow> gs_Start env s config usb_fd cbs = (s', ev, ok) \<Longrightarrow> gs_reach s'"
| gs_stop: "gs_reach s \<Longrightarrow> gs_reach (fst (gs_Stop s))"
| gs_frame: "gs_reach s \<Longrightarrow> gs_OnFrame ops now s input = Some (s', ev) \<Longrightarrow> gs_reach s'"
| gs_datagram: "gs_reach s \<Longrightarrow> gs_OnVideoPayload s data = Some (s', ev) \<Longrightarrow> gs_reach s'"
| gs_route: "gs_reach s \<Longrightarrow> rt_running (gs_mavlink s) \<Longrightarrow> fresh_sockets net (gs_mavlink s) \<Longrightarrow>
    fresh_accepts net (gs_mavlink s) result \<Longrightarrow> gs_poll net uops s result = Some (s', ev) \<Longrightarrow> gs_reach s'"
| gs_statistics: "gs_reach s \<Longrightarrow> stats_iteration aops uops (s, n) input = Some ((s', n'), ev) \<Longrightarrow> gs_reach s'"
| gs_endpoints: "gs_reach s \<Longrightarrow> gs_reach (SetMavlinkEndpoints s endpoints)"
| gs_alink: "gs_reach s \<Longrightarrow> gs_reach (SetAlinkConfig s aconfig)"
| gs_codec: "gs_reach s \<Longrightarrow> gs_reach (SetVideoCodec s codec)"
| gs_channel: "gs_reach s \<Longrightarrow> gs_reach (fst (gs_SetChannel uops s channel bw))"

inductive_cases gs_reachE: "gs_reach s"

lemma parts_inv_init: "parts_inv ground_station_init"
  using router_inv_init
  by (simp add: parts_inv_def ground_station_init_def reach_inv_def idle_inv_def msp_decoder_init_def SetCanvas_def
      canvas_size_defs frame_wf_def)
     (simp add: router_init_def pipe_fds_def)

lemma endpoints_inv:
  "parts_inv s \<Longrightarrow> life_inv s \<Longrightarrow> parts_inv (SetMavlinkEndpoints s eps) \<and> life_inv (SetMavlinkEndpoints s eps)"
  by (auto simp: SetMavlinkEndpoints_def parts_inv_def life_inv_def router_SetEndpoints_def reach_inv_def idle_inv_def
      router_inv_def framers_inv_def fds_inv_def held_def pipe_fds_def)

lemma alink_config_inv:
  "parts_inv s \<Longrightarrow> life_inv s \<Longrightarrow> parts_inv (SetAlinkConfig s c) \<and> life_inv (SetAlinkConfig s c)"
  by (auto simp: SetAlinkConfig_def parts_inv_def life_inv_def Let_def split: option.splits if_splits)

lemma SetChannel_state:
  "gs_source s = Some src \<Longrightarrow> fst (gs_SetChannel ops s ch bw) =
     s\<lparr>gs_config := (gs_config s)\<lparr>gc_radio := (gc_radio (gs_config s))\<lparr>rc_channel := ch, rc_bandwidth := bw\<rparr>\<rparr>,
       gs_source := Some (fst (source_SetChannel ops src ch bw))\<rparr>"
  by (simp add: gs_SetChannel_def Let_def split_def)

lemma channel_inv:
  assumes "parts_inv s" and "life_inv s"
  shows "parts_inv (fst (gs_SetChannel ops s ch bw)) \<and> life_inv (fst (gs_SetChannel ops s ch bw))"
proof (cases "gs_source s")
  case None
  with assms show ?thesis by (simp add: gs_SetChannel_def)
next
  case (Some src)
  with assms SetChannel_keeps [of src ops ch bw] show ?thesis
    by (auto simp: SetChannel_state parts_inv_def life_inv_def split: if_splits)
qed

lemma gs_reachable_inv: "gs_reach s \<Longrightarrow> parts_inv s \<and> life_inv s"
proof (induction rule: gs_reach.induct)
  case gs_init
  show ?case using parts_inv_init by (simp add: life_inv_def ground_station_init_def router_init_def)
next
  case (gs_start s env config usb_fd cbs s' ev ok)
  obtain s3 ev3 where "prepare_start env s config cbs = (s3, ev3)" by force
  with gs_start Start_outcome [of s env config usb_fd cbs s' ev ok s3 ev3] show ?case
    by (cases "gs_running s") (auto simp: gs_Start_def)
next
  case (gs_stop s)
  then have "parts_inv (fst (gs_Stop s)) \<and> life_inv (fst (gs_Stop s))" if "gs_running s"
    using Stop_outcome [OF _ _ that surjective_pairing] by blast
  moreover have "gs_Stop s = (s, [])" if "\<not> gs_running s" using that by (simp add: gs_Stop_def)
  ultimately show ?case using gs_stop.IH by (cases "gs_running s") simp_all
next
  case (gs_frame s ops now input s' ev)
  then show ?case using OnFrame_inv same_life_inv by blast
next
  case (gs_datagram s data s' ev)
  then show ?case using video_payload_ok [of s data] by (auto simp: parts_inv_def life_inv_def split: if_splits)
next
  case (gs_route s net result uops s' ev)
  then show ?case using poll_ok [of s net result uops] by auto
next
  case (gs_statistics s aops uops n input s' n' ev)
  then show ?case using stats_iteration_inv by blast
next
  case (gs_endpoints s endpoints)
  then show ?case using endpoints_inv by blast
next
  case (gs_alink s aconfig)
  then show ?case using alink_config_inv by blast
next
  case (gs_codec s codec)
  then show ?case by (auto simp: SetVideoCodec_def parts_inv_def life_inv_def split: if_splits)
next
  case (gs_channel s uops channel bw)
  then show ?case using channel_inv by blast
qed

lemma init_inv: "parts_inv ground_station_init" "life_inv ground_station_init"
  using gs_reachable_inv [OF gs_init] by blast+

subsection \<open>The three pipelines\<close>

text \<open>What a list of events shows of each output, and the payloads delivered on a set of ports.\<close>

definition video_of :: "gs_event list \<Rightarrow> bytes list" where
  "video_of ev = concat (map (\<lambda>e. case e of VideoNal data \<Rightarrow> [data] | _ \<Rightarrow> []) ev)"

definition osd_of :: "gs_event list \<Rightarrow> osd_frame list" where
  "osd_of ev = concat (map (\<lambda>e. case e of OsdShown frame \<Rightarrow> [frame] | _ \<Rightarrow> []) ev)"

definition routed_of :: "gs_event list \<Rightarrow> router_action list" where
  "routed_of ev = concat (map (\<lambda>e. case e of Routed a \<Rightarrow> [a] | _ \<Rightarrow> []) ev)"

definition on_ports :: "u8 set \<Rightarrow> (u8 \<times> bytes) list \<Rightarrow> bytes list" where
  "on_ports ports items = map snd (filter (\<lambda>item. fst item \<in> ports) items)"

lemma events_append [simp]:
  "video_of (xs @ ys) = video_of xs @ video_of ys" "osd_of (xs @ ys) = osd_of xs @ osd_of ys"
  "routed_of (xs @ ys) = routed_of xs @ routed_of ys" "video_of [] = []" "osd_of [] = []" "routed_of [] = []"
  by (simp_all add: video_of_def osd_of_def routed_of_def)

lemma events_Routed [simp]:
  "video_of (map Routed acts) = []" "osd_of (map Routed acts) = []" "routed_of (map Routed acts) = acts"
  by (induction acts) (simp_all add: video_of_def osd_of_def routed_of_def)

lemma events_video [simp]:
  "video_of (concat (map (video_sinks s) nals)) = (if cb_on_video_nal (gs_callbacks s) then map nu_data nals else [])"
  "osd_of (concat (map (video_sinks s) nals)) = []" "routed_of (concat (map (video_sinks s) nals)) = []"
  by (induction nals) (simp_all add: video_of_def osd_of_def routed_of_def video_sinks_def)

lemma events_osd [simp]:
  "video_of (concat (map (osd_sinks s) frames)) = []" "routed_of (concat (map (osd_sinks s) frames)) = []"
  "osd_of (concat (map (osd_sinks s) frames)) = (if cb_on_osd_frame (gs_callbacks s) then frames else [])"
  by (induction frames) (simp_all add: video_of_def osd_of_def routed_of_def osd_sinks_def)

text \<open>One delivery moves the pipelines of its port and no other.\<close>

definition pipelines_step ::
  "u64 \<Rightarrow> ('a, 'd) ground_station \<Rightarrow> (u8 \<times> bytes) list \<Rightarrow> ('a, 'd) ground_station \<Rightarrow> gs_event list \<Rightarrow> bool" where
  "pipelines_step now s items s' ev \<longleftrightarrow>
     (\<exists>nals. run_steps OnVideoPayload (gs_depacketizer s) (on_ports {kPortVideo} items) = Some (gs_depacketizer s', nals)
        \<and> video_of ev = (if cb_on_video_nal (gs_callbacks s) then map nu_data nals else []))
     \<and> (\<exists>frames. run_steps osd_Push (gs_osd s) (on_ports {kPortMavlinkRx, kPortTunnelRx} items) = Some (gs_osd s', frames)
        \<and> osd_of ev = (if cb_on_osd_frame (gs_callbacks s) then frames else []))
     \<and> run_steps (\<lambda>r. FeedDownlink r now) (gs_mavlink s) (on_ports {kPortMavlinkRx} items) = Some (gs_mavlink s', routed_of ev)"

lemma pipelines_append:
  assumes "pipelines_step now s xs s1 ev1" and "pipelines_step now s1 ys s2 ev2" and "same_life s s1"
  shows "pipelines_step now s (xs @ ys) s2 (ev1 @ ev2)"
  using assms unfolding pipelines_step_def on_ports_def
  by (auto simp: run_steps_append same_life_def)

lemmas port_defs = kPortVideo_def kPortMavlinkRx_def kPortTunnelRx_def

lemma deliver_pipelines:
  assumes "parts_inv s" and "gs_deliver now s (port, data) = Some (s', ev)"
  shows "pipelines_step now s [(port, data)] s' ev"
proof -
  consider "port = kPortVideo" | "port = kPortMavlinkRx" | "port = kPortTunnelRx"
    | "port \<notin> {kPortVideo, kPortMavlinkRx, kPortTunnelRx}" by blast
  then show ?thesis
  proof cases
    case 1
    with video_payload_ok [OF assms(1), of data] assms(2) show ?thesis
      by (auto simp: gs_deliver_def pipelines_step_def on_ports_def port_defs)
  next
    case 2
    with telemetry_payload_ok [OF assms(1), of now data] assms(2) show ?thesis
      by (auto simp: gs_deliver_def pipelines_step_def on_ports_def port_defs)
  next
    case 3
    with tunnel_payload_ok [OF assms(1), of data] assms(2) show ?thesis
      by (auto simp: gs_deliver_def pipelines_step_def on_ports_def port_defs)
  next
    case 4
    with assms(2) show ?thesis by (auto simp: gs_deliver_def pipelines_step_def on_ports_def)
  qed
qed

lemma deliver_run_pipelines:
  "parts_inv s \<Longrightarrow> \<exists>s' ev. run_steps (gs_deliver now) s items = Some (s', ev) \<and> pipelines_step now s items s' ev"
proof (induction items arbitrary: s)
  case Nil
  then show ?case by (auto simp: pipelines_step_def on_ports_def)
next
  case (Cons item items)
  obtain s1 ev1 where s1: "gs_deliver now s item = Some (s1, ev1)" "parts_inv s1" "same_life s s1"
    using deliver_ok [OF Cons.prems] by blast
  from Cons.IH [OF s1(2)] obtain s2 ev2 where s2: "run_steps (gs_deliver now) s1 items = Some (s2, ev2)"
    "pipelines_step now s1 items s2 ev2" by blast
  have "pipelines_step now s [item] s1 ev1" using deliver_pipelines [OF Cons.prems] s1(1) by (cases item) blast
  from pipelines_append [OF this s2(2) s1(3)] s1(1) s2(1) show ?case by auto
qed

text \<open>Frames of the radio: the receiver's deliveries of a run, pushed through the pipelines.\<close>

lemma deliver_receiver: "gs_deliver now s item = Some (s', ev) \<Longrightarrow> gs_receiver s' = gs_receiver s"
  by (auto simp: gs_deliver_def gs_OnVideoPayload_def OnTelemetryPayload_def OnTunnelPayload_def
      split: prod.splits if_splits Option.bind_splits)

lemma deliver_run_receiver:
  "run_steps (gs_deliver now) s items = Some (s', ev) \<Longrightarrow> gs_receiver s' = gs_receiver s"
proof (induction items arbitrary: s ev)
  case (Cons item items)
  then obtain s1 ev1 ev2 where "gs_deliver now s item = Some (s1, ev1)" "run_steps (gs_deliver now) s1 items = Some (s', ev2)"
    by (auto split: Option.bind_splits)
  with Cons.IH show ?case using deliver_receiver by metis
qed simp

lemma pipelines_receiver: "pipelines_step now (s\<lparr>gs_receiver := x\<rparr>) items s' ev = pipelines_step now s items s' ev"
  by (simp add: pipelines_step_def)

lemma frames_pipelines:
  "parts_inv s \<Longrightarrow> gs_receiver s = Some r \<Longrightarrow> run_steps (ProcessFrame ops) r frames = Some (r', items) \<Longrightarrow>
     \<exists>s' ev. run_steps (gs_OnFrame ops now) s frames = Some (s', ev) \<and> pipelines_step now s items s' ev
       \<and> gs_receiver s' = Some r'"
proof (induction frames arbitrary: s r items)
  case Nil
  then show ?case by (auto simp: pipelines_step_def on_ports_def)
next
  case (Cons frame frames)
  from Cons.prems(3) obtain r1 items1 items2 where r1: "ProcessFrame ops r frame = Some (r1, items1)"
      "run_steps (ProcessFrame ops) r1 frames = Some (r', items2)" "items = items1 @ items2"
    by (auto split: Option.bind_splits)
  let ?s = "s\<lparr>gs_receiver := Some r1\<rparr>"
  have "parts_inv ?s" using Cons.prems(1) by (simp add: parts_inv_def)
  then obtain s1 ev1 where s1: "run_steps (gs_deliver now) ?s items1 = Some (s1, ev1)" "pipelines_step now s items1 s1 ev1"
    using deliver_run_pipelines [of ?s now items1] by (auto simp: pipelines_receiver)
  have step: "gs_OnFrame ops now s frame = Some (s1, ev1)" using Cons.prems(2) r1(1) s1(1) by (simp add: gs_OnFrame_def)
  have inv: "parts_inv s1" "same_life s s1" using OnFrame_inv [OF Cons.prems(1) step] by simp_all
  have "gs_receiver s1 = Some r1" using deliver_run_receiver [OF s1(1)] by simp
  from Cons.IH [OF inv(1) this r1(2)] obtain s2 ev2 where
    s2: "run_steps (gs_OnFrame ops now) s1 frames = Some (s2, ev2)" "pipelines_step now s1 items2 s2 ev2" "gs_receiver s2 = Some r'"
    by blast
  with step pipelines_append [OF s1(2) s2(2) inv(2)] r1(3) show ?case by auto
qed

subsection \<open>An example station\<close>

text \<open>A station started on a working adapter, with an aggregator that passes payloads through.\<close>

definition example_env :: "(nat, nat) gs_env" where
  "example_env =
     \<lparr>ge_network = quiet_network, ge_mirror_socket = 20, ge_mirror_connect = (\<lambda>addr. True), ge_pipe = Some (3, 4),
      ge_aggregator = plain_aggregator, ge_key_error = '''', ge_usb = working_usb\<rparr>"

definition all_callbacks :: callbacks where
  "all_callbacks = \<lparr>cb_on_video_nal = True, cb_on_osd_frame = True, cb_on_stats = True, cb_on_status = True\<rparr>"

definition example_config :: gs_config where
  "example_config = gs_config_default\<lparr>gc_alink := alink_config_default\<lparr>ac_enabled := True\<rparr>\<rparr>"

definition example_station :: "(nat, nat) ground_station" where
  "example_station = fst (gs_Start example_env ground_station_init example_config 7 all_callbacks)"

definition plain_sink :: "nat sink" where
  "plain_sink = \<lparr>sk_aggregator = 0, sk_callback = True, sk_session_seen = False\<rparr>"

definition plain_receiver :: "nat wfb_receiver \<Rightarrow> bool" where
  "plain_receiver r \<longleftrightarrow> length (wr_paths r) = 4 \<and> wr_primary_port r = kPortVideo \<and> accounts r []
     \<and> wr_sinks r kPortVideo = Some plain_sink \<and> wr_sinks r kPortMavlinkRx = Some plain_sink \<and> wr_sinks r kPortTunnelRx = Some plain_sink"

lemma add_streams_plain:
  "\<exists>r. add_streams plain_aggregator (wfb_receiver_init radio) = Some r \<and> wr_radio r = radio \<and> plain_receiver r"
  by (simp add: plain_receiver_def plain_sink_def add_streams_def AddStream_def sink_new_def plain_aggregator_def
      wfb_receiver_init_def ResetSignal_def port_defs Let_def accounts_def path_samples_def summarise_Nil upt_rec numeral_eq_Suc)

lemma example_started:
  "\<exists>ev. gs_Start example_env ground_station_init example_config 7 all_callbacks = (example_station, ev, True)"
  and example_fields: "gs_running example_station" "gs_callbacks example_station = all_callbacks"
    "gs_config example_station = example_config" "gs_alink example_station = Some (alink_new (gc_alink example_config))"
    "\<exists>dv. gs_source example_station = Some (DevourerSource dv) \<and> dv_device dv = Some 0"
    "\<exists>r. gs_receiver example_station = Some r \<and> wr_radio r = radio_config_default \<and> plain_receiver r"
    "gs_depacketizer example_station = depacketizer_set_callback (depacketizer_init kUnknown)"
    "gs_osd example_station = osd_set_callback msp_decoder_init"
proof -
  obtain r where r: "add_streams plain_aggregator (wfb_receiver_init radio_config_default) = Some r"
      "wr_radio r = radio_config_default" "plain_receiver r"
    using add_streams_plain by blast
  let ?s = "fst (prepare_start example_env ground_station_init example_config all_callbacks)"
  have fields: "gs_config ?s = example_config" "gs_callbacks ?s = all_callbacks"
    using prepare_start_state [OF surjective_pairing, of example_env ground_station_init example_config all_callbacks] by simp_all
  have "gs_Start example_env ground_station_init example_config 7 all_callbacks =
      (?s\<lparr>gs_source := Some (DevourerSource (fst (devourer_Start working_usb ((MakeDevourerSource radio_config_default 7)\<lparr>dv_on_frame := True\<rparr>)))),
          gs_receiver := Some r, gs_running := True\<rparr>,
       snd (prepare_start example_env ground_station_init example_config all_callbacks)
         @ map SourceCall (map Usb [UsbInit, UsbOpen, UsbLock, DriverNew, DeviceNew]) @ [Status ''ground station running''], True)"
    using r(1) fields
    by (simp add: gs_Start_def ground_station_init_def split_def Let_def make_source_def example_config_def
        gs_config_default_def example_env_def working_start_framed all_callbacks_def)
  then show "\<exists>ev. gs_Start example_env ground_station_init example_config 7 all_callbacks = (example_station, ev, True)"
    and "gs_running example_station" "gs_callbacks example_station = all_callbacks" "gs_config example_station = example_config"
    and "\<exists>dv. gs_source example_station = Some (DevourerSource dv) \<and> dv_device dv = Some 0"
    and "\<exists>r. gs_receiver example_station = Some r \<and> wr_radio r = radio_config_default \<and> plain_receiver r"
    and "gs_depacketizer example_station = depacketizer_set_callback (depacketizer_init kUnknown)"
    and "gs_osd example_station = osd_set_callback msp_decoder_init"
    and "gs_alink example_station = Some (alink_new (gc_alink example_config))"
    using fields r(2,3)
    by (simp_all add: example_station_def working_start_framed prepare_start_def open_mirror_def example_config_def
        gs_config_default_def ground_station_init_def Let_def)
qed

lemma example_env_starts:
  assumes "\<not> gs_running s" and "gc_source config \<noteq> kUdp"
  shows "\<exists>s' ev. gs_Start example_env s config fd cbs = (s', ev, True)"
proof -
  let ?s = "fst (prepare_start example_env s config cbs)"
  have "gs_config ?s = config" using prepare_start_state [OF surjective_pairing, of example_env s config cbs] by simp
  with assms add_streams_plain [of "gc_radio config"] show ?thesis
    by (cases "gc_source config")
       (auto simp: gs_Start_def split_def Let_def make_source_def example_env_def working_start_framed)
qed

lemma station_reach: "gs_reach example_station"
proof -
  obtain ev where "gs_Start example_env ground_station_init example_config 7 all_callbacks = (example_station, ev, True)"
    using example_started by blast
  moreover have "fresh_pipe (gs_mavlink (ground_station_init :: (nat, nat) ground_station)) (ge_pipe example_env)"
    by (simp add: fresh_pipe_def example_env_def ground_station_init_def router_init_def)
  ultimately show ?thesis using gs_init gs_start by blast
qed

lemma example_frame:
  assumes "plain_receiver r" and "wr_radio r = radio_config_default" and "p \<in> {kPortVideo, kPortMavlinkRx, kPortTunnelRx}"
  shows "\<exists>r'. ProcessFrame plain_aggregator r (air_frame (ChannelId 7669206 p) payload [0, 0, 0, 0], sample_meta) = Some (r', [(p, payload)])"
proof -
  let ?h = "take 24 (air_frame (ChannelId 7669206 p) [] [])" and ?f = "air_frame (ChannelId 7669206 p) payload [0, 0, 0, 0]"
  have "?f = ?h @ payload @ [0, 0, 0, 0]" "length ?h = 24" by (simp_all add: air_frame_def be32_bytes_def)
  moreover have "carries (ChannelId 7669206 p) ?f" by (rule air_frame_carries) simp
  moreover have "wr_sinks r p = Some plain_sink" "accounts r []" using assms(1,3) by (auto simp: plain_receiver_def)
  ultimately show ?thesis
    using routes_to_port [of r ?f ?h payload "[0, 0, 0, 0]" p plain_sink "[]" sample_meta plain_aggregator] assms(2)
    by (fastforce simp: meta_wf_def sample_meta_def plain_aggregator_def plain_sink_def radio_config_default_def)
qed

text \<open>
  \<open>Start\<close> is one step of \<open>gs_reach\<close>, although the source's thread already runs when the code sets \<open>running_\<close>. A frame
  received in between is handled as it is right after: the handlers of the source's thread neither read the flag nor
  change it.
\<close>

lemma sinks_running [simp]:
  "video_sinks (s\<lparr>gs_running := b\<rparr>) = video_sinks s" "osd_sinks (s\<lparr>gs_running := b\<rparr>) = osd_sinks s"
  by (simp_all add: video_sinks_def osd_sinks_def fun_eq_iff)

lemma tunnel_before_running:
  "OnTunnelPayload (s\<lparr>gs_running := b\<rparr>) data = map_option (\<lambda>(s', ev). (s'\<lparr>gs_running := b\<rparr>, ev)) (OnTunnelPayload s data)"
  by (cases "osd_Push (gs_osd s) data") (auto simp: OnTunnelPayload_def)

lemma telemetry_before_running:
  "OnTelemetryPayload (s\<lparr>gs_running := b\<rparr>) now data =
     map_option (\<lambda>(s', ev). (s'\<lparr>gs_running := b\<rparr>, ev)) (OnTelemetryPayload s now data)"
proof (cases "FeedDownlink (gs_mavlink s) now data")
  case (Some p)
  have swap: "s\<lparr>gs_running := b, gs_mavlink := fst p\<rparr> = s\<lparr>gs_mavlink := fst p, gs_running := b\<rparr>" by simp
  have "OnTunnelPayload (s\<lparr>gs_running := b, gs_mavlink := fst p\<rparr>) data =
      map_option (\<lambda>(s', ev). (s'\<lparr>gs_running := b\<rparr>, ev)) (OnTunnelPayload (s\<lparr>gs_mavlink := fst p\<rparr>) data)"
    unfolding swap by (rule tunnel_before_running)
  with Some show ?thesis
    by (cases "OnTunnelPayload (s\<lparr>gs_mavlink := fst p\<rparr>) data") (auto simp: OnTelemetryPayload_def split_def)
qed (simp add: OnTelemetryPayload_def)

lemma deliver_before_running:
  "gs_deliver now (s\<lparr>gs_running := b\<rparr>) item = map_option (\<lambda>(s', ev). (s'\<lparr>gs_running := b\<rparr>, ev)) (gs_deliver now s item)"
proof -
  have "gs_OnVideoPayload (s\<lparr>gs_running := b\<rparr>) data = map_option (\<lambda>(s', ev). (s'\<lparr>gs_running := b\<rparr>, ev)) (gs_OnVideoPayload s data)" for data
    by (cases "OnVideoPayload (gs_depacketizer s) data") (auto simp: gs_OnVideoPayload_def)
  then show ?thesis
    by (cases item) (simp add: gs_deliver_def tunnel_before_running telemetry_before_running)
qed

lemma deliver_run_before_running:
  "run_steps (gs_deliver now) (s\<lparr>gs_running := b\<rparr>) items =
     map_option (\<lambda>(s', ev). (s'\<lparr>gs_running := b\<rparr>, ev)) (run_steps (gs_deliver now) s items)"
proof (induction items arbitrary: s)
  case (Cons item items)
  show ?case
  proof (cases "gs_deliver now s item")
    case (Some p)
    with Cons.IH [of "fst p"] show ?thesis
      by (cases p; cases "run_steps (gs_deliver now) (fst p) items") (auto simp: deliver_before_running)
  qed (simp add: deliver_before_running)
qed simp

lemma OnFrame_before_running:
  "gs_OnFrame ops now (s\<lparr>gs_running := b\<rparr>) input = map_option (\<lambda>(s', ev). (s'\<lparr>gs_running := b\<rparr>, ev)) (gs_OnFrame ops now s input)"
proof (cases "gs_receiver s")
  case (Some r)
  have swap: "s\<lparr>gs_running := b, gs_receiver := Some r'\<rparr> = s\<lparr>gs_receiver := Some r', gs_running := b\<rparr>" for r' by simp
  have "run_steps (gs_deliver now) (s\<lparr>gs_running := b, gs_receiver := Some r'\<rparr>) delivered =
      map_option (\<lambda>(s', ev). (s'\<lparr>gs_running := b\<rparr>, ev)) (run_steps (gs_deliver now) (s\<lparr>gs_receiver := Some r'\<rparr>) delivered)" for r' delivered
    unfolding swap by (rule deliver_run_before_running)
  with Some show ?thesis
    by (cases "ProcessFrame ops r input") (auto simp: gs_OnFrame_def)
qed (simp add: gs_OnFrame_def)

subsection \<open>Properties\<close>

text \<open>
  C7: in every state the station can reach by any sequence of the Android layer's calls and its threads' steps, each taken
  as one step: a running station has a started source and, unless it listens on UDP, a receiver, so a received frame never
  meets a null pointer; a station that does not run has no source and no receiver, and its router has no descriptor open
  (the mirror socket and the adaptive link's controller may be left over from a start that failed); and every payload
  delivered on any port is processed without a read outside a buffer.
\<close>

theorem gs_reachable_safe:
  assumes "gs_reach s"
  shows "(if gs_running s
      then (\<exists>src. gs_source s = Some src \<and> source_holds src) \<and> (gc_source (gs_config s) \<noteq> kUdp \<longrightarrow> gs_receiver s \<noteq> None)
      else gs_source s = None \<and> gs_receiver s = None \<and> rt_open (gs_mavlink s) = [])
    \<and> (\<exists>s' ev. run_steps (gs_deliver now) s items = Some (s', ev))"
proof -
  from gs_reachable_inv [OF assms] have inv: "parts_inv s" "life_inv s" by simp_all
  have "rt_open (gs_mavlink s) = []" if "\<not> gs_running s"
  proof -
    from that inv have "rt_endpoints (gs_mavlink s) = []" "pipe_fds (gs_mavlink s) = []"
        "mset (rt_open (gs_mavlink s)) = mset (held (gs_mavlink s))"
      by (simp_all add: parts_inv_def life_inv_def reach_inv_def idle_inv_def router_inv_def fds_inv_def)
    then show ?thesis by (simp add: held_def table_fds_def)
  qed
  with inv deliver_run_pipelines [OF inv(1), of now items] show ?thesis by (auto simp: life_inv_def split: if_splits)
qed

theorem gs_reachable_safe_witness:
  "(\<exists>src. gs_source example_station = Some src \<and> source_holds src)
    \<and> (\<exists>s' ev. run_steps (gs_deliver 5) example_station [(0x20, [1, 2]), (0, [])] = Some (s', ev))"
  using gs_reachable_safe [OF station_reach, of 5 "[(0x20, [1, 2]), (0, [])]"] by (simp add: example_fields)

text \<open>
  C9: the three payload pipelines do not interfere. Whatever payloads arrive on whatever ports, in any order, the NAL
  units handed to the video decoder are those the depacketiser makes of the video port's payloads alone, the screens
  shown are those the OSD decoder makes of the telemetry and tunnel payloads in their order of arrival, and the router
  does what it does for the telemetry payloads alone; payloads of other ports change nothing.
\<close>

theorem gs_pipelines_separate:
  assumes "gs_reach s" and "gs_callbacks s = all_callbacks"
  shows "\<exists>s' ev nals. run_steps (gs_deliver now) s items = Some (s', ev)
    \<and> run_steps OnVideoPayload (gs_depacketizer s) (on_ports {kPortVideo} items) = Some (gs_depacketizer s', nals)
    \<and> video_of ev = map nu_data nals
    \<and> run_steps osd_Push (gs_osd s) (on_ports {kPortMavlinkRx, kPortTunnelRx} items) = Some (gs_osd s', osd_of ev)
    \<and> run_steps (\<lambda>r. FeedDownlink r now) (gs_mavlink s) (on_ports {kPortMavlinkRx} items) = Some (gs_mavlink s', routed_of ev)"
  using deliver_run_pipelines [of s now items] gs_reachable_inv [OF assms(1)] assms(2)
  by (auto simp: pipelines_step_def all_callbacks_def)

theorem gs_pipelines_separate_witness:
  "\<exists>s' ev. run_steps (gs_deliver 5) example_station [(0x20, [0x24]), (0x77, [1]), (0x10, [0x4d, 0x3c])] = Some (s', ev)
    \<and> run_steps osd_Push (gs_osd example_station) [[0x24], [0x4d, 0x3c]] = Some (gs_osd s', osd_of ev)"
  using gs_pipelines_separate [OF station_reach, of 5 "[(0x20, [0x24]), (0x77, [1]), (0x10, [0x4d, 0x3c])]"]
  by (auto simp: example_fields on_ports_def port_defs)

text \<open>
  What the station sends up is a well-formed wfb frame of its link. The adapter is given one frame; once the radio
  has appended its four check bytes, a receiver of the same link classifies it to exactly the uplink port, and the bytes
  after the header are the data. Nothing is sent without a source or on a UDP link.
\<close>

theorem gs_uplink_reaches_port:
  assumes "gs_source s = Some (DevourerSource dv)" and "dv_device dv = Some d"
    and "rc_link_id (wr_radio r) = rc_link_id (gc_radio (gs_config s))" and "rc_link_id (wr_radio r) < 2 ^ 24" and "length fcs = 4"
  shows "if gc_source (gs_config s) = kDevourer
    then \<exists>frame. snd (SendUplink ops s port data) = [Injected frame (snd (ub_send_packet ops d frame))]
      \<and> ClassifyFrame r (frame @ fcs) = Some (uint port) \<and> drop kIeee80211HeaderSize frame = data
    else SendUplink ops s port data = (s, [])"
proof (cases "gc_source (gs_config s) = kDevourer")
  case False
  with assms(1) show ?thesis by (simp add: SendUplink_def)
next
  case True
  let ?f = "uplink_frame (ChannelId (rc_link_id (gc_radio (gs_config s))) port) data"
  have "ClassifyFrame r (?f @ fcs) = Some (uint port)"
    using ClassifyFrame_carries [OF assms(4)] uplink_frame_carries [of fcs] assms(3,5) by simp
  moreover have "snd (SendUplink ops s port data) = [Injected ?f (snd (ub_send_packet ops d ?f))]"
    using assms(1,2) True by (simp add: SendUplink_def devourer_Transmit_def Let_def split_def)
  ultimately show ?thesis using True uplink_frame_payload by (auto simp: kIeee80211HeaderSize_def)
qed

theorem gs_uplink_reaches_port_witness:
  "\<exists>frame ok. snd (SendUplink working_usb example_station kPortTunnelTx [1, 2, 3]) = [Injected frame ok]
    \<and> ClassifyFrame (wfb_receiver_init radio_config_default :: nat wfb_receiver) (frame @ [0, 0, 0, 0]) = Some (uint kPortTunnelTx)"
proof -
  obtain dv where dv: "gs_source example_station = Some (DevourerSource dv)" "dv_device dv = Some 0"
    using example_fields by blast
  have "rc_link_id (wr_radio (wfb_receiver_init radio_config_default :: nat wfb_receiver)) = 7669206"
    by (simp add: wfb_receiver_init_def ResetSignal_def radio_config_default_def)
  with gs_uplink_reaches_port [OF dv, of "wfb_receiver_init radio_config_default :: nat wfb_receiver" "[0, 0, 0, 0]"
      working_usb kPortTunnelTx "[1, 2, 3]"]
  show ?thesis by (auto simp: example_fields example_config_def gs_config_default_def radio_config_default_def)
qed



text \<open>
  C37: a start that fails reports its error and leaves the station stopped, but it keeps the mirror socket and the
  adaptive-link controller it made: \<open>Stop\<close> then does nothing, and a later start without a mirror still sends the video
  to the old one.
\<close>

theorem gs_failed_start_keeps_mirror:
  assumes "gs_reach s" and "\<not> gs_running s" and "fresh_pipe (gs_mavlink s) (ge_pipe env)"
    and "gs_Start env s config usb_fd cbs = (s', ev, False)"
    and "gc_video_mirror_host config \<noteq> ''''" and "0 < gc_video_mirror_port config" and "0 \<le> ge_mirror_socket env"
    and "nt_pton (ge_network env) (gc_video_mirror_host config) = Some ip"
    and "ge_mirror_connect env (ip, word_of_int (gc_video_mirror_port config))"
  shows "\<not> gs_running s' \<and> gs_Stop s' = (s', []) \<and> gs_mirrors_open s' = gs_mirrors_open s @ [ge_mirror_socket env]
    \<and> (cb_on_status cbs \<longrightarrow> Status (gs_last_error s') \<in> set ev) \<and> (ac_enabled (gc_alink config) \<longrightarrow> gs_alink s' \<noteq> None)
    \<and> (\<forall>env2 config2 fd2 cbs2 s2 ev2. gc_video_mirror_host config2 = '''' \<longrightarrow> fresh_pipe (gs_mavlink s') (ge_pipe env2) \<longrightarrow>
         gs_Start env2 s' config2 fd2 cbs2 = (s2, ev2, True) \<longrightarrow> gs_mirror_fd s2 = ge_mirror_socket env)"
proof -
  from gs_reachable_inv [OF assms(1)] have inv: "parts_inv s" "life_inv s" by simp_all
  obtain s3 ev3 where p: "prepare_start env s config cbs = (s3, ev3)" by force
  note out = Start_outcome [OF inv assms(2,3,4) p]
  have s3: "gs_mirror_fd s3 = ge_mirror_socket env" "gs_mirrors_open s3 = gs_mirrors_open s @ [ge_mirror_socket env]"
      "ac_enabled (gc_alink config) \<longrightarrow> gs_alink s3 \<noteq> None"
    using p assms(5-9) by (auto simp: prepare_start_def open_mirror_def Let_def)
  have later: "gs_mirror_fd s2 = ge_mirror_socket env"
    if "gc_video_mirror_host config2 = ''''" "fresh_pipe (gs_mavlink s') (ge_pipe env2)"
      "gs_Start env2 s' config2 fd2 cbs2 = (s2, ev2, True)" for env2 :: "('a, 'b) gs_env" and config2 fd2 cbs2 s2 ev2
  proof -
    obtain s4 ev4 where p2: "prepare_start env2 s' config2 cbs2 = (s4, ev4)" by force
    then have "gs_mirror_fd s4 = gs_mirror_fd s'" using that(1) by (auto simp: prepare_start_def open_mirror_def Let_def)
    with Start_outcome [OF _ _ _ that(2,3) p2] out s3(1) show ?thesis by simp
  qed
  from out have "gs_Stop s' = (s', [])" by (simp add: gs_Stop_def)
  with out s3 later show ?thesis by auto
qed

definition no_usb_env :: "(nat, nat) gs_env" where
  "no_usb_env = example_env\<lparr>ge_usb := working_usb\<lparr>ub_no_discovery := False\<rparr>, ge_network := quiet_network\<lparr>nt_pton := (\<lambda>h. Some 1)\<rparr>\<rparr>"

definition mirror_config :: gs_config where
  "mirror_config = gs_config_default\<lparr>gc_video_mirror_host := ''127.0.0.1'', gc_video_mirror_port := 5600\<rparr>"

lemma no_usb_start: "\<exists>s' ev. gs_Start no_usb_env ground_station_init mirror_config 7 all_callbacks = (s', ev, False)"
proof -
  obtain r where r: "add_streams plain_aggregator (wfb_receiver_init radio_config_default) = Some r"
    using add_streams_plain by blast
  have "gs_config (fst (prepare_start no_usb_env ground_station_init mirror_config all_callbacks)) = mirror_config"
    using prepare_start_state [OF surjective_pairing, of no_usb_env ground_station_init mirror_config all_callbacks] by simp
  with r show ?thesis
    by (simp add: gs_Start_def ground_station_init_def split_def Let_def make_source_def mirror_config_def
        gs_config_default_def no_usb_env_def example_env_def devourer_Start_def)
qed

theorem gs_failed_start_keeps_mirror_witness:
  "\<exists>s' ev. gs_Start no_usb_env ground_station_init mirror_config 7 all_callbacks = (s', ev, False)
    \<and> gs_Stop s' = (s', []) \<and> gs_mirrors_open s' = [20] \<and> Status (gs_last_error s') \<in> set ev"
proof -
  obtain s' ev where st: "gs_Start no_usb_env ground_station_init mirror_config 7 all_callbacks = (s', ev, False)"
    using no_usb_start by blast
  have "fresh_pipe (gs_mavlink (ground_station_init :: (nat, nat) ground_station)) (ge_pipe no_usb_env)"
    by (simp add: fresh_pipe_def no_usb_env_def example_env_def ground_station_init_def router_init_def)
  with gs_failed_start_keeps_mirror [OF gs_init _ _ st, of 1] st show ?thesis
    by (auto simp: ground_station_init_def mirror_config_def no_usb_env_def example_env_def all_callbacks_def)
qed

subsection \<open>The adaptive link\<close>

lemma TakeSnapshot_ok:
  assumes "length (wr_paths r) = 4" and "wr_sinks r (wr_primary_port r) = Some sk"
    and "unat (cn_p_lost (ag_counters ops (sk_aggregator sk))) < 2 ^ 31"
    and "unat (cn_p_fec_recovered (ag_counters ops (sk_aggregator sk))) < 2 ^ 31"
  shows "snapshot_ok (snd (TakeSnapshot ops r now))"
proof -
  obtain ants rssi snr n where l: "snapshot_loop (wr_paths r) ([], - 105, 0, 0) = (ants, rssi, snr, n)" using prod_cases4 by blast
  from snapshot_loop_bounds [OF l] assms(1) have "fits_int32 rssi" "fits_int32 snr" "fits_int32 n"
    by (simp_all add: fits_int32_def)
  with l assms(2-4) show ?thesis
    by (simp add: TakeSnapshot_def snapshot_ok_def link_snapshot_default_def Let_def)
qed

text \<open>The alink messages among the events are the injected frames.\<close>

definition injected_of :: "gs_event list \<Rightarrow> bytes list" where
  "injected_of ev = concat (map (\<lambda>e. case e of Injected frame ok \<Rightarrow> [frame] | _ \<Rightarrow> []) ev)"

lemma injected_append [simp]: "injected_of (xs @ ys) = injected_of xs @ injected_of ys" "injected_of [] = []"
  by (simp_all add: injected_of_def)

lemma stats_quiet:
  assumes "now < next_ms"
  shows "\<exists>s' ev. stats_iteration aops uops (s, next_ms) (now0, now, draws) = Some ((s', next_ms), ev) \<and> injected_of ev = []"
  using assms
  by (auto simp: stats_iteration_def injected_of_def Let_def split_def split: option.splits)

lemma stats_run_quiet:
  "\<forall>(now0, now, draws) \<in> set inputs. now < next_ms \<Longrightarrow>
     \<exists>s' ev. run_steps (stats_iteration aops uops) (s, next_ms) inputs = Some ((s', next_ms), ev) \<and> injected_of ev = []"
proof (induction inputs arbitrary: s)
  case (Cons input inputs)
  obtain now0 now draws where input: "input = (now0, now, draws)" using prod_cases3 by blast
  obtain s1 ev1 where s1: "stats_iteration aops uops (s, next_ms) input = Some ((s1, next_ms), ev1)" "injected_of ev1 = []"
    using stats_quiet [of now next_ms aops uops s now0 draws] Cons.prems by (auto simp: input)
  from Cons.IH [of s1] Cons.prems obtain s2 ev2 where
    "run_steps (stats_iteration aops uops) (s1, next_ms) inputs = Some ((s2, next_ms), ev2)" "injected_of ev2 = []" by auto
  with s1 show ?case by auto
qed simp

text \<open>A due round: the snapshot is taken, the controller updated and its message sent on the tunnel port.\<close>

lemma stats_due:
  assumes "gs_running s" and "gs_receiver s = Some r" and "gs_alink s = Some c" and "next_ms \<le> now"
    and "TakeSnapshot aops r now0 = (r', sn)" and "alink_Update c (sn, now div 1000, draws) = Some (c', result)"
  shows "\<exists>s'. stats_iteration aops uops (s, next_ms) (now0, now, draws) =
    Some ((s', now + word_of_int (ac_interval_ms (gc_alink (gs_config s)))),
      (if cb_on_stats (gs_callbacks s) then [StatsShown sn (rt_telemetry (gs_mavlink s))] else [])
      @ snd (SendUplink uops s kPortTunnelTx (alink_Frame (ar_message result))))"
proof -
  have "snd (SendUplink uops (s\<lparr>gs_receiver := x, gs_stats := y, gs_alink := z\<rparr>) p data) = snd (SendUplink uops s p data)" for x y z p data
    by (simp add: SendUplink_def Let_def split_def split: option.split)
  moreover have "\<not> now < next_ms" using assms(4) by (simp add: not_less)
  ultimately show ?thesis
    using assms(1-3,5,6) by (simp add: stats_iteration_def telemetry_Get_def Let_def split_def)
qed

lemma alink_report:
  assumes "gs_running s" and "gs_receiver s = Some r" and "gs_alink s = Some c" and "next_ms \<le> now"
    and "gs_source s = Some (DevourerSource dv)" and "dv_device dv = Some d" and "gc_source (gs_config s) = kDevourer"
    and "alink_inv c" and "length (al_idr_code c) \<le> 4"
    and "length (wr_paths r) = 4" and "wr_sinks r (wr_primary_port r) = Some sk"
    and "unat (cn_p_lost (ag_counters aops (sk_aggregator sk))) < 2 ^ 31"
    and "unat (cn_p_fec_recovered (ag_counters aops (sk_aggregator sk))) < 2 ^ 31"
  shows "\<exists>s' ev frame c' result. stats_iteration aops uops (s, next_ms) (now0, now, draws) =
      Some ((s', now + word_of_int (ac_interval_ms (gc_alink (gs_config s)))), ev)
    \<and> alink_Update c (snd (TakeSnapshot aops r now0), now div 1000, draws) = Some (c', result)
    \<and> injected_of ev = [frame]
    \<and> frame = uplink_frame (ChannelId (rc_link_id (gc_radio (gs_config s))) kPortTunnelTx) (alink_Frame (ar_message result))
    \<and> parse_frame (drop kIeee80211HeaderSize frame) = Some (ar_message result)
    \<and> kAlinkScoreMin \<le> ar_score result \<and> ar_score result \<le> kAlinkScoreMax"
proof -
  obtain r' sn where sn: "TakeSnapshot aops r now0 = (r', sn)" by force
  have ok: "snapshot_ok sn" using TakeSnapshot_ok [OF assms(10-13), of now0] sn by simp
  obtain c' result where u: "alink_Update c (sn, now div 1000, draws) = Some (c', result)"
      "kAlinkScoreMin \<le> ar_score result" "ar_score result \<le> kAlinkScoreMax"
    by (rule alink_Update_describe [OF assms(8) ok, of "now div 1000" draws])
       (auto simp: kAlinkScoreMin_def kAlinkScoreMax_def)
  have "length (al_idr_code (request_idr c sn draws)) \<le> 4"
    using assms(9) by (simp add: request_idr_def MakeIdrCode_def)
  from alink_message_length [OF assms(8) ok this u(1)] have len: "length (ar_message result) < 2 ^ 32" by simp
  let ?f = "uplink_frame (ChannelId (rc_link_id (gc_radio (gs_config s))) kPortTunnelTx) (alink_Frame (ar_message result))"
  have "injected_of (snd (SendUplink uops s kPortTunnelTx (alink_Frame (ar_message result)))) = [?f]"
    using assms(5-7) by (simp add: SendUplink_def devourer_Transmit_def injected_of_def Let_def split_def)
  with stats_due [OF assms(1-4) sn u(1), of uops] u sn parse_Frame [OF len] uplink_frame_payload show ?thesis
    by (fastforce simp: kIeee80211HeaderSize_def injected_of_def split: if_splits)
qed

lemma example_due:
  "\<exists>dv r sk. gs_source example_station = Some (DevourerSource dv) \<and> dv_device dv = Some 0 \<and> gs_receiver example_station = Some r
    \<and> length (wr_paths r) = 4 \<and> wr_sinks r (wr_primary_port r) = Some sk
    \<and> unat (cn_p_lost (ag_counters plain_aggregator (sk_aggregator sk))) < 2 ^ 31
    \<and> unat (cn_p_fec_recovered (ag_counters plain_aggregator (sk_aggregator sk))) < 2 ^ 31"
  "alink_inv (alink_new (gc_alink example_config))" "length (al_idr_code (alink_new (gc_alink example_config))) \<le> 4"
  "gc_source (gs_config example_station) = kDevourer" "ac_interval_ms (gc_alink (gs_config example_station)) = 100"
proof -
  show "\<exists>dv r sk. gs_source example_station = Some (DevourerSource dv) \<and> dv_device dv = Some 0 \<and> gs_receiver example_station = Some r
    \<and> length (wr_paths r) = 4 \<and> wr_sinks r (wr_primary_port r) = Some sk
    \<and> unat (cn_p_lost (ag_counters plain_aggregator (sk_aggregator sk))) < 2 ^ 31
    \<and> unat (cn_p_fec_recovered (ag_counters plain_aggregator (sk_aggregator sk))) < 2 ^ 31"
    using example_fields(5,6) by (fastforce simp: plain_aggregator_def plain_receiver_def plain_sink_def)
  have "config_ok (alink_config_default\<lparr>ac_enabled := True\<rparr>)" by (simp add: config_ok_def alink_config_default_def)
  then show "alink_inv (alink_new (gc_alink example_config))"
    by (simp add: alink_inv_def alink_new_def example_config_def) (simp add: alink_config_default_def)
qed (simp_all add: alink_new_def example_fields(3) example_config_def gs_config_default_def alink_config_default_def)

text \<open>
  C23: when an adaptive-link report is due on a radio link, the statistics thread shows the snapshot and sends exactly one
  frame: addressed to the tunnel uplink port of the link, its payload is the length-prefixed message the controller
  computed from that snapshot, with a score between 1000 and 2000. The next report is due one interval later.
\<close>

theorem gs_alink_report:
  assumes "gs_running s" and "gs_receiver s = Some r" and "gs_alink s = Some c" and "next_ms \<le> now"
    and "gs_source s = Some (DevourerSource dv)" and "dv_device dv = Some d" and "gc_source (gs_config s) = kDevourer"
    and "alink_inv c" and "length (al_idr_code c) \<le> 4"
    and "length (wr_paths r) = 4" and "wr_sinks r (wr_primary_port r) = Some sk"
    and "unat (cn_p_lost (ag_counters aops (sk_aggregator sk))) < 2 ^ 31"
    and "unat (cn_p_fec_recovered (ag_counters aops (sk_aggregator sk))) < 2 ^ 31"
  shows "\<exists>s' ev frame c' result. stats_iteration aops uops (s, next_ms) (now0, now, draws) =
      Some ((s', now + word_of_int (ac_interval_ms (gc_alink (gs_config s)))), ev)
    \<and> alink_Update c (snd (TakeSnapshot aops r now0), now div 1000, draws) = Some (c', result)
    \<and> injected_of ev = [frame]
    \<and> frame = uplink_frame (ChannelId (rc_link_id (gc_radio (gs_config s))) kPortTunnelTx) (alink_Frame (ar_message result))
    \<and> parse_frame (drop kIeee80211HeaderSize frame) = Some (ar_message result)
    \<and> kAlinkScoreMin \<le> ar_score result \<and> ar_score result \<le> kAlinkScoreMax"
  using assms by (rule alink_report)

theorem gs_alink_report_witness:
  "\<exists>s' ev frame. stats_iteration plain_aggregator working_usb (example_station, 0) (1000, 1000, [0, 0, 0, 0]) = Some ((s', 1100), ev)
    \<and> injected_of ev = [frame]"
  using gs_alink_report [of example_station _ _ 0 1000 _ 0 _ plain_aggregator working_usb 1000 "[0, 0, 0, 0]"]
    example_due example_fields(1,4) by fastforce

text \<open>
  After a report was sent, no further one is sent before its interval has passed, however often the statistics
  thread runs in between.
\<close>

theorem gs_alink_rate:
  assumes "stats_iteration aops uops (s, next_ms) (t0, t, draws) = Some ((s', next'), ev)" and "injected_of ev \<noteq> []"
    and "0 \<le> ac_interval_ms (gc_alink (gs_config s))" and "uint t + ac_interval_ms (gc_alink (gs_config s)) < 2 ^ 64"
    and "\<forall>(now0, now, d) \<in> set inputs. uint now < uint t + ac_interval_ms (gc_alink (gs_config s))"
  shows "\<exists>s'' later. run_steps (stats_iteration aops uops) (s', next') inputs = Some ((s'', next'), later) \<and> injected_of later = []"
proof -
  let ?i = "ac_interval_ms (gc_alink (gs_config s))"
  have "next' = t + word_of_int ?i"
  proof -
    have "\<not> t < next_ms" using stats_quiet [of t next_ms aops uops s t0 draws] assms(1,2) by auto
    with assms(1,2) show ?thesis
      by (auto simp: stats_iteration_def injected_of_def Let_def split_def split: option.splits if_splits Option.bind_splits)
  qed
  moreover have "take_bit 64 ?i = ?i" using assms(3,4) uint_ge_0 [of t] by (intro take_bit_int_eq_self) linarith+
  ultimately have "uint next' = uint t + ?i"
    using assms(3,4) by (simp add: uint_word_ariths unsigned_of_int)
  with assms(5) have "\<forall>(now0, now, d) \<in> set inputs. now < next'" by (auto simp: word_less_def)
  then show ?thesis by (rule stats_run_quiet)
qed

lemma example_report:
  "\<exists>s' ev frame. stats_iteration plain_aggregator working_usb (example_station, 0) (1000, 1000, [0, 0, 0, 0]) = Some ((s', 1100), ev)
    \<and> injected_of ev = [frame]"
  using alink_report [of example_station _ _ 0 1000 _ 0 _ plain_aggregator working_usb 1000 "[0, 0, 0, 0]"]
    example_due example_fields(1,4) by fastforce

theorem gs_alink_rate_witness:
  "\<exists>s' ev s'' later. stats_iteration plain_aggregator working_usb (example_station, 0) (1000, 1000, [0, 0, 0, 0]) = Some ((s', 1100), ev)
    \<and> run_steps (stats_iteration plain_aggregator working_usb) (s', 1100) [(1050, 1050, []), (1099, 1099, [])] = Some ((s'', 1100), later)
    \<and> injected_of later = []"
proof -
  obtain s' ev frame where st: "stats_iteration plain_aggregator working_usb (example_station, 0) (1000, 1000, [0, 0, 0, 0]) = Some ((s', 1100), ev)"
      "injected_of ev = [frame]"
    using example_report by blast
  with gs_alink_rate [OF st(1), of "[(1050, 1050, []), (1099, 1099, [])]"] show ?thesis
    by (auto simp: example_due(5))
qed

end
