(* ===== verification/Session_Keys.thy ===== *)
theory Session_Keys
  imports Decimal
begin

section \<open>Key files\<close>

text \<open>
  Model of \<open>core/src/wfb/session_keys.cpp\<close>. Files are a map from paths to contents. What the operating system and
  libsodium decide is an argument: whether a path can be opened for writing, how many bytes a stream holds
  back, how many bytes of a file the device takes, the
  results of \<open>sodium_init\<close> and of the two calls of \<open>crypto_box_keypair\<close>. The nullable \<open>std::string* error\<close> is an
  option: \<open>None\<close> is the null pointer, \<open>Some e\<close> the string it points to. A secret and a public key of
  libsodium's \<open>crypto_box\<close> have 32 bytes each, as \<open>wfb_receiver.h\<close> states. Erasing the local buffers
  (\<open>sodium_memzero\<close>) has no effect outside the function.
\<close>

type_synonym files = "string \<Rightarrow> bytes option"

record file_os =
  os_can_create :: "string \<Rightarrow> bool"
  os_buffer :: nat
  os_accepts :: "string \<Rightarrow> nat"

record sodium =
  so_init :: int
  so_gs_keypair :: "int \<times> bytes \<times> bytes"
  so_drone_keypair :: "int \<times> bytes \<times> bytes"

record key_validation =
  kv_ok :: bool
  kv_error :: string

definition kKeyFileSize :: nat where
  "kKeyFileSize = 32 + 32"

definition set_error :: "string option \<Rightarrow> string \<Rightarrow> string option" where
  "set_error error message = (if error \<noteq> None then Some message else None)"

text \<open>
  \<open>fopen\<close> with mode \<open>wb\<close> truncates. \<open>fwrite\<close> of one item succeeds when the stream can hold the item back or the device
  takes all of it; what the stream holds back reaches the device in \<open>fclose\<close>, whose result the code ignores. The file
  ends up with what the device accepted.
\<close>

definition WriteFile ::
  "file_os \<Rightarrow> files \<Rightarrow> string \<Rightarrow> bytes \<Rightarrow> string option \<Rightarrow> bool \<times> files \<times> string option" where
  "WriteFile os fs path data error =
     (if \<not> os_can_create os path then
        (False, fs, set_error error (''unable to open '' @ path @ '' for writing''))
      else
        let ok = (length data \<le> os_buffer os \<or> length data \<le> os_accepts os path);
            fs' = fs(path \<mapsto> take (os_accepts os path) data)
        in (ok, fs', if \<not> ok then set_error error (''short write to '' @ path) else error))"

definition ValidateGsKey :: "files \<Rightarrow> string \<Rightarrow> key_validation" where
  "ValidateGsKey fs path =
     (case fs path of
        None \<Rightarrow> \<lparr>kv_ok = False, kv_error = ''cannot open key file''\<rparr>
      | Some content \<Rightarrow>
          (let read = length (take (kKeyFileSize + 1) content) in
           if read < kKeyFileSize then
             \<lparr>kv_ok = False, kv_error = ''key file is too short: expected '' @ print_nat kKeyFileSize @ '' bytes, got '' @ print_nat read\<rparr>
           else if read > kKeyFileSize then
             \<lparr>kv_ok = False, kv_error = ''key file is too long: expected exactly '' @ print_nat kKeyFileSize @ '' bytes''\<rparr>
           else \<lparr>kv_ok = True, kv_error = ''''\<rparr>))"

definition GenerateKeyPair ::
  "sodium \<Rightarrow> file_os \<Rightarrow> files \<Rightarrow> string \<Rightarrow> string \<Rightarrow> string option \<Rightarrow> bool \<times> files \<times> string option" where
  "GenerateKeyPair sodium os fs gs_key_path drone_key_path error =
     (if so_init sodium < 0 then (False, fs, set_error error ''libsodium initialisation failed'')
      else case so_gs_keypair sodium of (gs_result, gs_public, gs_secret) \<Rightarrow>
        case so_drone_keypair sodium of (drone_result, drone_public, drone_secret) \<Rightarrow>
          if gs_result \<noteq> 0 \<or> drone_result \<noteq> 0 then (False, fs, set_error error ''key generation failed'')
          else
            let gs_file = gs_secret @ drone_public;
                drone_file = drone_secret @ gs_public
            in case WriteFile os fs gs_key_path gs_file error of
                 (False, fs1, error1) \<Rightarrow> (False, fs1, error1)
               | (True, fs1, error1) \<Rightarrow> WriteFile os fs1 drone_key_path drone_file error1)"

subsection \<open>Lemmas\<close>

lemma WriteFile_ok:
  "WriteFile os fs path data error = (True, fs', error') \<Longrightarrow> fs' = fs(path \<mapsto> take (os_accepts os path) data)"
  by (auto simp: WriteFile_def Let_def split: if_splits)

lemma WriteFile_succeeds:
  "os_can_create os path \<Longrightarrow> length data \<le> os_buffer os \<or> length data \<le> os_accepts os path \<Longrightarrow>
     WriteFile os fs path data error = (True, fs(path \<mapsto> take (os_accepts os path) data), error)"
  by (auto simp: WriteFile_def Let_def)

lemma WriteFile_failed:
  "WriteFile os fs path data error = (False, fs', error') \<Longrightarrow> error \<noteq> None \<Longrightarrow> \<exists>e. error' = Some e \<and> e \<noteq> ''''"
  by (auto simp: WriteFile_def set_error_def Let_def split: if_splits)

lemma WriteFile_error_kept:
  "WriteFile os fs path data error = (ok, fs', error') \<Longrightarrow> error' = None \<longleftrightarrow> error = None"
  by (auto simp: WriteFile_def set_error_def Let_def split: if_splits)

lemma ValidateGsKey_ok: "kv_ok (ValidateGsKey fs path) \<longleftrightarrow> (\<exists>content. fs path = Some content \<and> length content = 64)"
  by (auto simp: ValidateGsKey_def kKeyFileSize_def Let_def split: option.splits)

text \<open>A prefix of a key file passes only if it is the whole file.\<close>

lemma ValidateGsKey_prefix:
  "fs path = Some (take n content) \<Longrightarrow> length content = 64 \<Longrightarrow> kv_ok (ValidateGsKey fs path) \<longleftrightarrow> fs path = Some content"
  by (auto simp: ValidateGsKey_ok min_def split: if_splits)

subsection \<open>Properties\<close>

text \<open>
  A key file is accepted exactly when it can be opened and holds 64 bytes, neither fewer nor more; every
  rejection carries a message.
\<close>

theorem keys_ValidateGsKey_exact:
  "(kv_ok (ValidateGsKey fs path) \<longleftrightarrow> (\<exists>content. fs path = Some content \<and> length content = 64))
   \<and> (kv_ok (ValidateGsKey fs path) \<longleftrightarrow> kv_error (ValidateGsKey fs path) = '''')"
  by (auto simp: ValidateGsKey_def kKeyFileSize_def Let_def split: option.splits)

text \<open>
  C32: generating a key pair. When libsodium works, both files can be opened and the device takes them, the call succeeds,
  each file holds its owner's secret key followed by the other end's public key, both pass validation, and no other
  file changes. A reported success alone means less, because the result of \<open>fclose\<close> is not looked at: each file then holds
  a prefix of its content, and validation accepts a file exactly when it is complete. A reported failure leaves a
  message for a caller that asked for one.
\<close>

theorem keys_GenerateKeyPair_mirrored:
  assumes "GenerateKeyPair sodium os fs gs_path drone_path error = (ok, fs', error')" and "gs_path \<noteq> drone_path"
    and "so_gs_keypair sodium = (r1, gs_public, gs_secret)" and "so_drone_keypair sodium = (r2, drone_public, drone_secret)"
    and "length gs_public = 32" "length gs_secret = 32" "length drone_public = 32" "length drone_secret = 32"
  shows "(0 \<le> so_init sodium \<and> r1 = 0 \<and> r2 = 0 \<and> os_can_create os gs_path \<and> os_can_create os drone_path
          \<and> 64 \<le> os_accepts os gs_path \<and> 64 \<le> os_accepts os drone_path \<longrightarrow>
        ok \<and> fs' = fs(gs_path \<mapsto> gs_secret @ drone_public, drone_path \<mapsto> drone_secret @ gs_public)
        \<and> kv_ok (ValidateGsKey fs' gs_path) \<and> kv_ok (ValidateGsKey fs' drone_path))
    \<and> (ok \<longrightarrow> fs' = fs(gs_path \<mapsto> take (os_accepts os gs_path) (gs_secret @ drone_public),
                       drone_path \<mapsto> take (os_accepts os drone_path) (drone_secret @ gs_public))
        \<and> (kv_ok (ValidateGsKey fs' gs_path) \<longleftrightarrow> fs' gs_path = Some (gs_secret @ drone_public))
        \<and> (kv_ok (ValidateGsKey fs' drone_path) \<longleftrightarrow> fs' drone_path = Some (drone_secret @ gs_public)))
    \<and> (\<not> ok \<and> error \<noteq> None \<longrightarrow> (\<exists>e. error' = Some e \<and> e \<noteq> ''''))"
proof -
  let ?gs = "gs_secret @ drone_public" and ?drone = "drone_secret @ gs_public"
  let ?final = "fs(gs_path \<mapsto> take (os_accepts os gs_path) ?gs, drone_path \<mapsto> take (os_accepts os drone_path) ?drone)"
  have len: "length ?gs = 64" "length ?drone = 64" using assms(5-8) by simp_all
  have stored: "fs' = ?final" if ok
    using assms(1,3,4) that by (auto simp: GenerateKeyPair_def dest!: WriteFile_ok split: if_splits prod.splits bool.splits)
  then have "kv_ok (ValidateGsKey fs' gs_path) \<longleftrightarrow> fs' gs_path = Some ?gs"
      "kv_ok (ValidateGsKey fs' drone_path) \<longleftrightarrow> fs' drone_path = Some ?drone" if ok
    using that assms(2) ValidateGsKey_prefix [OF _ len(1), of fs' gs_path] ValidateGsKey_prefix [OF _ len(2), of fs' drone_path] by auto
  moreover have "ok \<and> fs' = fs(gs_path \<mapsto> ?gs, drone_path \<mapsto> ?drone)
        \<and> kv_ok (ValidateGsKey fs' gs_path) \<and> kv_ok (ValidateGsKey fs' drone_path)"
    if "0 \<le> so_init sodium \<and> r1 = 0 \<and> r2 = 0 \<and> os_can_create os gs_path \<and> os_can_create os drone_path
      \<and> 64 \<le> os_accepts os gs_path \<and> 64 \<le> os_accepts os drone_path"
    using that assms(1-8) by (auto simp: GenerateKeyPair_def WriteFile_succeeds ValidateGsKey_ok)
  moreover have "\<exists>e. error' = Some e \<and> e \<noteq> ''''" if "\<not> ok" "error \<noteq> None"
    using assms(1,3,4) that
    by (auto simp: GenerateKeyPair_def set_error_def dest: WriteFile_error_kept WriteFile_failed split: if_splits prod.splits bool.splits)
  ultimately show ?thesis using stored by blast
qed

definition sample_sodium :: sodium where
  "sample_sodium = \<lparr>so_init = 0, so_gs_keypair = (0, replicate 32 1, replicate 32 2),
     so_drone_keypair = (0, replicate 32 3, replicate 32 4)\<rparr>"

theorem keys_GenerateKeyPair_mirrored_witness:
  "\<exists>fs' e. GenerateKeyPair sample_sodium \<lparr>os_can_create = (\<lambda>_. True), os_buffer = 1024, os_accepts = (\<lambda>_. 4096)\<rparr>
        Map.empty ''gs.key'' ''drone.key'' (Some '''') = (True, fs', e)
    \<and> kv_ok (ValidateGsKey fs' ''gs.key'') \<and> fs' ''drone.key'' = Some (replicate 32 4 @ replicate 32 1)"
proof -
  let ?os = "\<lparr>os_can_create = (\<lambda>_. True), os_buffer = 1024, os_accepts = (\<lambda>_. 4096)\<rparr>"
  obtain ok fs' e where gen: "GenerateKeyPair sample_sodium ?os Map.empty ''gs.key'' ''drone.key'' (Some '''') = (ok, fs', e)"
    using prod_cases3 by blast
  have so: "so_gs_keypair sample_sodium = (0, replicate 32 1, replicate 32 2)"
      "so_drone_keypair sample_sodium = (0, replicate 32 3, replicate 32 4)" "so_init sample_sodium = 0"
    by (simp_all add: sample_sodium_def)
  from keys_GenerateKeyPair_mirrored [OF gen _ so(1,2)] gen so(3) show ?thesis by auto
qed

text \<open>
  A full device goes unnoticed: when the stream can hold the 64 bytes back, the call reports success whatever the device
  takes, and a file it did not take in full is rejected only later, by validation.
\<close>

theorem keys_full_device_unnoticed:
  assumes "so_init sodium = 0" and "so_gs_keypair sodium = (0, gs_public, gs_secret)"
    and "so_drone_keypair sodium = (0, drone_public, drone_secret)"
    and "length gs_public = 32" "length gs_secret = 32" "length drone_public = 32" "length drone_secret = 32"
    and "os_can_create os gs_path" and "os_can_create os drone_path" and "gs_path \<noteq> drone_path"
    and "64 \<le> os_buffer os" and "os_accepts os gs_path < 64"
  shows "\<exists>fs'. GenerateKeyPair sodium os fs gs_path drone_path error = (True, fs', error) \<and> \<not> kv_ok (ValidateGsKey fs' gs_path)"
  using assms by (auto simp: GenerateKeyPair_def WriteFile_succeeds ValidateGsKey_ok)

end
