(* ===== verification/Jni_Bridge.thy ===== *)
theory Jni_Bridge
  imports Ground_Station Session_Keys
begin

section \<open>The JNI bridge\<close>

text \<open>
  Model of \<open>gslib/src/main/cpp/jni_bridge.cpp\<close>: the session behind the handle the Kotlin layer holds, each native
  function, and the callbacks that carry events of the station into the JVM. The unmarshalling of the Kotlin side
  (\<open>NativeGroundStation.kt\<close>) is modelled too, so that the layout of the arrays can be stated as a round trip.

  The JVM is the record \<open>jvm\<close>: what its functions return. A Java string is a string of the model, \<open>None\<close> the null
  reference. A \<open>jint\<close> is an \<open>int\<close> in the range of 32 bits; the casts from unsigned counters are written out. A null
  handle is \<open>None\<close>.
\<close>

subsection \<open>The virtual machine\<close>

record jvm =
  jv_vm :: bool
  jv_GetEnv :: int
  jv_Attach :: bool
  jv_alloc :: bool
  jv_utf :: "string \<Rightarrow> string option"

definition JNI_OK :: int where "JNI_OK = 0"
definition JNI_EDETACHED :: int where "JNI_EDETACHED = - 2"

definition JNI_VERSION_1_6 :: int where "JNI_VERSION_1_6 = 0x00010006"

text \<open>\<open>JNI_OnLoad\<close> keeps the virtual machine; before it, \<open>g_vm\<close> is null.\<close>

definition JNI_OnLoad :: "jvm \<Rightarrow> jvm \<times> int" where
  "JNI_OnLoad vm = (vm\<lparr>jv_vm := True\<rparr>, JNI_VERSION_1_6)"

text \<open>\<open>ScopedEnv\<close>: whether the thread has an environment, and whether leaving the scope detaches it again.\<close>

definition ScopedEnv :: "jvm \<Rightarrow> bool \<times> bool" where
  "ScopedEnv vm =
     (if \<not> jv_vm vm then (False, False)
      else if jv_GetEnv vm = JNI_EDETACHED then (if jv_Attach vm then (True, True) else (False, False))
      else if jv_GetEnv vm \<noteq> JNI_OK then (False, False)
      else (True, False))"

definition ToStdString :: "jvm \<Rightarrow> string option \<Rightarrow> string" where
  "ToStdString vm value =
     (case value of None \<Rightarrow> '''' | Some str \<Rightarrow> (case jv_utf vm str of None \<Rightarrow> '''' | Some chars \<Rightarrow> chars))"

definition ToBandwidth :: "int \<Rightarrow> bandwidth" where
  "ToBandwidth value = (if value = 5 then k5 else if value = 10 then k10 else if value = 40 then k40 else if value = 80 then k80 else k20)"

subsection \<open>The session\<close>

record method_ids =
  mi_on_video :: bool
  mi_on_osd :: bool
  mi_on_stats :: bool
  mi_on_status :: bool

record ('a, 'd) session =
  jn_station :: "('a, 'd) ground_station"
  jn_listener :: "int option"
  jn_methods :: method_ids

datatype ref_call = NewGlobalRef int | DeleteGlobalRef int

definition nativeCreate :: "('a, 'd) session" where
  "nativeCreate =
     \<lparr>jn_station = ground_station_init, jn_listener = None,
      jn_methods = \<lparr>mi_on_video = False, mi_on_osd = False, mi_on_stats = False, mi_on_status = False\<rparr>\<rparr>"

definition release_listener :: "('a, 'd) session \<Rightarrow> ref_call list" where
  "release_listener session = (case jn_listener session of None \<Rightarrow> [] | Some l \<Rightarrow> [DeleteGlobalRef l])"

text \<open>\<open>nativeDestroy\<close>: the events of stopping the station and the references released; the session is gone.\<close>

definition nativeDestroy :: "('a, 'd) session option \<Rightarrow> gs_event list \<times> ref_call list" where
  "nativeDestroy handle =
     (case handle of None \<Rightarrow> ([], []) | Some session \<Rightarrow> (gs_destroy (jn_station session), release_listener session))"

record start_args =
  sa_source_kind :: int
  sa_channel :: int
  sa_bandwidth :: int
  sa_link_id :: int
  sa_key_path :: "string option"
  sa_udp_bind :: "string option"
  sa_udp_port :: int
  sa_mirror_host :: "string option"
  sa_mirror_port :: int
  sa_usb_fd :: int
  sa_listener :: int
  sa_methods :: method_ids

definition start_config :: "jvm \<Rightarrow> start_args \<Rightarrow> gs_config" where
  "start_config vm a =
     gs_config_default\<lparr>
       gc_source := (if sa_source_kind a = 1 then kUdp else kDevourer),
       gc_radio := (gc_radio gs_config_default)\<lparr>rc_channel := sa_channel a, rc_bandwidth := ToBandwidth (sa_bandwidth a),
         rc_link_id := word_of_int (sa_link_id a), rc_key_path := ToStdString vm (sa_key_path a)\<rparr>,
       gc_udp := (gc_udp gs_config_default)\<lparr>us_bind_addr := ToStdString vm (sa_udp_bind a), us_video_port := sa_udp_port a\<rparr>,
       gc_video_mirror_host := ToStdString vm (sa_mirror_host a),
       gc_video_mirror_port := sa_mirror_port a\<rparr>"

definition jni_callbacks :: callbacks where
  "jni_callbacks = \<lparr>cb_on_video_nal = True, cb_on_osd_frame = True, cb_on_stats = True, cb_on_status = True\<rparr>"

definition nativeStart ::
  "('a, 'd) gs_env \<Rightarrow> jvm \<Rightarrow> ('a, 'd) session option \<Rightarrow> start_args
    \<Rightarrow> ('a, 'd) session option \<times> gs_event list \<times> ref_call list \<times> bool" where
  "nativeStart env vm handle a =
     (case handle of
        None \<Rightarrow> (None, [], [], False)
      | Some session \<Rightarrow>
          let refs = release_listener session @ [NewGlobalRef (sa_listener a)];
              session1 = session\<lparr>jn_listener := Some (sa_listener a), jn_methods := sa_methods a\<rparr>
          in case gs_Start env (jn_station session1) (start_config vm a) (sa_usb_fd a) jni_callbacks of
               (station, ev, ok) \<Rightarrow> (Some (session1\<lparr>jn_station := station\<rparr>), ev, refs, ok))"

definition nativeStop :: "('a, 'd) session option \<Rightarrow> ('a, 'd) session option \<times> gs_event list" where
  "nativeStop handle =
     (case handle of
        None \<Rightarrow> (None, [])
      | Some session \<Rightarrow> (case gs_Stop (jn_station session) of (station, ev) \<Rightarrow> (Some (session\<lparr>jn_station := station\<rparr>), ev)))"

definition nativeLastError :: "('a, 'd) session option \<Rightarrow> string" where
  "nativeLastError handle = (case handle of None \<Rightarrow> '''' | Some session \<Rightarrow> last_error (jn_station session))"

definition nativeSetChannel ::
  "'d usb_ops \<Rightarrow> ('a, 'd) session option \<Rightarrow> int \<Rightarrow> int \<Rightarrow> ('a, 'd) session option \<times> bool" where
  "nativeSetChannel ops handle channel bw =
     (case handle of
        None \<Rightarrow> (None, False)
      | Some session \<Rightarrow>
          (case gs_SetChannel ops (jn_station session) channel (ToBandwidth bw) of
             (station, ok) \<Rightarrow> (Some (session\<lparr>jn_station := station\<rparr>), ok)))"

definition nativeSetVideoCodec :: "('a, 'd) session option \<Rightarrow> int \<Rightarrow> ('a, 'd) session option" where
  "nativeSetVideoCodec handle codec =
     map_option (\<lambda>session. session\<lparr>jn_station := SetVideoCodec (jn_station session)
       (if codec = 1 then kH264 else if codec = 2 then kH265 else kUnknown)\<rparr>) handle"

text \<open>
  The endpoint arrays. \<open>None\<close> is the exception of an array that is shorter than \<open>kinds\<close>: the array functions throw it
  and the code goes on with the exception pending.
\<close>

definition endpoint_of :: "jvm \<Rightarrow> int \<Rightarrow> string option \<Rightarrow> int \<Rightarrow> int \<Rightarrow> mavlink_endpoint" where
  "endpoint_of vm kind host port uplink =
     mavlink_endpoint_default\<lparr>me_kind := (if kind = 1 then kUdpServer else if kind = 2 then kTcpServer else kUdpOut),
       me_host := ToStdString vm host, me_port := port, me_allow_uplink := (uplink = 1), me_enabled := True\<rparr>"

definition nativeSetMavlinkEndpoints ::
  "jvm \<Rightarrow> ('a, 'd) session option \<Rightarrow> int list \<Rightarrow> string option list \<Rightarrow> int list \<Rightarrow> int list \<Rightarrow> ('a, 'd) session option option" where
  "nativeSetMavlinkEndpoints vm handle kinds hosts ports uplink_flags =
     (case handle of
        None \<Rightarrow> Some None
      | Some session \<Rightarrow>
          let count = length kinds in
          if length ports < count \<or> length uplink_flags < count \<or> length hosts < count then None
          else
            let endpoints = map (\<lambda>i. endpoint_of vm (kinds ! i) (hosts ! i) (ports ! i) (uplink_flags ! i)) [0..<count]
            in Some (Some (session\<lparr>jn_station := SetMavlinkEndpoints (jn_station session) endpoints\<rparr>)))"

definition nativeSetAlink ::
  "jvm \<Rightarrow> ('a, 'd) session option \<Rightarrow> int \<Rightarrow> string option \<Rightarrow> int \<Rightarrow> int \<Rightarrow> f64 \<Rightarrow> f64 \<Rightarrow> int \<Rightarrow> int \<Rightarrow> int \<Rightarrow> ('a, 'd) session option" where
  "nativeSetAlink vm handle enabled host port interval_ms snr_weight rssi_weight allow_idr allow_penalty allow_fec_increase =
     (case handle of
        None \<Rightarrow> None
      | Some session \<Rightarrow>
          let config = alink_config_default\<lparr>ac_enabled := (enabled = 1), ac_udp_host := ToStdString vm host, ac_udp_port := port,
                ac_interval_ms := interval_ms, ac_snr_weight := snr_weight, ac_rssi_weight := rssi_weight,
                ac_allow_idr := (allow_idr = 1), ac_allow_penalty := (allow_penalty = 1),
                ac_allow_fec_increase := (allow_fec_increase = 1)\<rparr>
          in Some (session\<lparr>jn_station := SetAlinkConfig (jn_station session) config\<rparr>))"

definition nativeGenerateKeyPair ::
  "jvm \<Rightarrow> sodium \<Rightarrow> file_os \<Rightarrow> files \<Rightarrow> string option \<Rightarrow> string option \<Rightarrow> bool \<times> files" where
  "nativeGenerateKeyPair vm sodium os fs gs_path drone_path =
     (case GenerateKeyPair sodium os fs (ToStdString vm gs_path) (ToStdString vm drone_path) (Some '''') of
        (ok, fs', error) \<Rightarrow> (ok, fs'))"

definition nativeValidateKey :: "jvm \<Rightarrow> files \<Rightarrow> string option \<Rightarrow> string" where
  "nativeValidateKey vm fs path =
     (let validation = ValidateGsKey fs (ToStdString vm path) in if kv_ok validation then '''' else kv_error validation)"

subsection \<open>Events into the JVM\<close>

text \<open>The positions of the two statistics arrays.\<close>

datatype stats_int =
    kStatBestRssi
  | kStatBestSnr
  | kStatPacketsAll
  | kStatPacketsLost
  | kStatPacketsRecovered
  | kStatPacketsBad
  | kStatPacketsDecryptErr
  | kStatFecK
  | kStatFecN
  | kStatAntennas
  | kStatSessionEstablished
  | kStatBytesAll
  | kStatArmed
  | kStatGpsFix
  | kStatSatellites
  | kStatIntCount

fun stats_int_index :: "stats_int \<Rightarrow> nat" where
  "stats_int_index kStatBestRssi = 0"
| "stats_int_index kStatBestSnr = 1"
| "stats_int_index kStatPacketsAll = 2"
| "stats_int_index kStatPacketsLost = 3"
| "stats_int_index kStatPacketsRecovered = 4"
| "stats_int_index kStatPacketsBad = 5"
| "stats_int_index kStatPacketsDecryptErr = 6"
| "stats_int_index kStatFecK = 7"
| "stats_int_index kStatFecN = 8"
| "stats_int_index kStatAntennas = 9"
| "stats_int_index kStatSessionEstablished = 10"
| "stats_int_index kStatBytesAll = 11"
| "stats_int_index kStatArmed = 12"
| "stats_int_index kStatGpsFix = 13"
| "stats_int_index kStatSatellites = 14"
| "stats_int_index kStatIntCount = 15"

datatype stats_float =
    kStatRoll
  | kStatPitch
  | kStatYaw
  | kStatLatitude
  | kStatLongitude
  | kStatAltitude
  | kStatRelativeAltitude
  | kStatGroundSpeed
  | kStatAirSpeed
  | kStatClimb
  | kStatHeading
  | kStatThrottle
  | kStatBatteryVoltage
  | kStatBatteryCurrent
  | kStatBatteryRemaining
  | kStatFloatCount

fun stats_float_index :: "stats_float \<Rightarrow> nat" where
  "stats_float_index kStatRoll = 0"
| "stats_float_index kStatPitch = 1"
| "stats_float_index kStatYaw = 2"
| "stats_float_index kStatLatitude = 3"
| "stats_float_index kStatLongitude = 4"
| "stats_float_index kStatAltitude = 5"
| "stats_float_index kStatRelativeAltitude = 6"
| "stats_float_index kStatGroundSpeed = 7"
| "stats_float_index kStatAirSpeed = 8"
| "stats_float_index kStatClimb = 9"
| "stats_float_index kStatHeading = 10"
| "stats_float_index kStatThrottle = 11"
| "stats_float_index kStatBatteryVoltage = 12"
| "stats_float_index kStatBatteryCurrent = 13"
| "stats_float_index kStatBatteryRemaining = 14"
| "stats_float_index kStatFloatCount = 15"

text \<open>
  Filling an array position by position. The cast of an unsigned counter to \<open>jint\<close> keeps its 32 bits; the conversion of
  an integer to \<open>jfloat\<close> is the quotient by one of the symbolic floats.
\<close>

definition jint_of :: "u32 \<Rightarrow> int" where
  "jint_of w = sint w"

definition fill :: "('k \<Rightarrow> nat) \<Rightarrow> 'v list \<Rightarrow> ('k \<times> 'v) list \<Rightarrow> 'v list" where
  "fill index zeros entries = foldl (\<lambda>xs (k, v). xs[index k := v]) zeros entries"

definition stats_ints :: "link_snapshot \<Rightarrow> telemetry_state \<Rightarrow> int list" where
  "stats_ints sn t = fill stats_int_index (replicate (stats_int_index kStatIntCount) 0)
       [(kStatBestRssi, ls_best_rssi sn),
        (kStatBestSnr, ls_best_snr sn),
        (kStatPacketsAll, jint_of (ls_packets_all sn)),
        (kStatPacketsLost, jint_of (ls_packets_lost sn)),
        (kStatPacketsRecovered, jint_of (ls_packets_fec_recovered sn)),
        (kStatPacketsBad, jint_of (ls_packets_bad sn)),
        (kStatPacketsDecryptErr, jint_of (ls_packets_decrypt_err sn)),
        (kStatFecK, ls_fec_k sn),
        (kStatFecN, ls_fec_n sn),
        (kStatAntennas, ls_num_antennas sn),
        (kStatSessionEstablished, if ls_session_established sn then 1 else 0),
        (kStatBytesAll, jint_of (ls_bytes_all sn)),
        (kStatArmed, if ts_armed t then 1 else 0),
        (kStatGpsFix, uint (ts_gps_fix_type t)),
        (kStatSatellites, uint (ts_satellites t))]"

definition stats_floats :: "telemetry_state \<Rightarrow> f32 list" where
  "stats_floats t = fill stats_float_index (replicate (stats_float_index kStatFloatCount) (F32_bits 0))
       [(kStatRoll, ts_roll_rad t),
        (kStatPitch, ts_pitch_rad t),
        (kStatYaw, ts_yaw_rad t),
        (kStatLatitude, F32_quot (ts_latitude_e7 t) 10000000),
        (kStatLongitude, F32_quot (ts_longitude_e7 t) 10000000),
        (kStatAltitude, F32_quot (ts_altitude_mm t) 1000),
        (kStatRelativeAltitude, F32_quot (ts_relative_altitude_mm t) 1000),
        (kStatGroundSpeed, ts_ground_speed_ms t),
        (kStatAirSpeed, ts_air_speed_ms t),
        (kStatClimb, ts_climb_ms t),
        (kStatHeading, ts_heading_deg t),
        (kStatThrottle, F32_quot (uint (ts_throttle_pct t)) 1),
        (kStatBatteryVoltage, ts_battery_voltage_v t),
        (kStatBatteryCurrent, ts_battery_current_a t),
        (kStatBatteryRemaining, F32_quot (ts_battery_remaining_pct t) 1)]"

definition osd_arrays :: "osd_frame \<Rightarrow> int list \<times> int list" where
  "osd_arrays frame = (map (\<lambda>cell. uint (oc_glyph cell)) (of_cells frame), map (\<lambda>cell. uint (oc_attributes cell)) (of_cells frame))"

text \<open>
  The four callbacks. An event reaches the listener when the thread has an environment, the listener has the method and
  the objects to pass could be made; the status text is made without a check.
\<close>

datatype jvm_call =
    OnVideoNal bytes int
  | OnOsdFrame int int "int list" "int list"
  | OnStats "int list" "f32 list"
  | OnStatus string

definition call_jvm :: "jvm \<Rightarrow> ('a, 'd) session \<Rightarrow> gs_event \<Rightarrow> jvm_call list" where
  "call_jvm vm session ev =
     (let attached = fst (ScopedEnv vm); methods = jn_methods session in
      case ev of
        VideoNal data \<Rightarrow>
          (if \<not> attached \<or> \<not> mi_on_video methods \<or> \<not> jv_alloc vm then [] else [OnVideoNal data (jint_of (of_nat (length data)))])
      | OsdShown frame \<Rightarrow>
          (if \<not> attached \<or> \<not> mi_on_osd methods \<or> \<not> jv_alloc vm then []
           else case osd_arrays frame of (glyphs, attributes) \<Rightarrow> [OnOsdFrame (of_rows frame) (of_cols frame) glyphs attributes])
      | StatsShown sn t \<Rightarrow>
          (if \<not> attached \<or> \<not> mi_on_stats methods \<or> \<not> jv_alloc vm then [] else [OnStats (stats_ints sn t) (stats_floats t)])
      | Status message \<Rightarrow> (if \<not> attached \<or> \<not> mi_on_status methods then [] else [OnStatus message])
      | _ \<Rightarrow> [])"

subsection \<open>The Kotlin side\<close>

text \<open>\<open>Bridge.onStats\<close> and \<open>setMavlinkEndpoints\<close> of \<open>NativeGroundStation.kt\<close>: \<open>None\<close> is an index out of bounds.\<close>

definition element_at :: "'v list \<Rightarrow> nat \<Rightarrow> 'v option" where
  "element_at xs i = (if i < length xs then Some (xs ! i) else None)"

record kotlin_stats =
  ks_bestRssi :: int
  ks_bestSnr :: int
  ks_packetsAll :: int
  ks_packetsLost :: int
  ks_packetsRecovered :: int
  ks_packetsBad :: int
  ks_packetsDecryptError :: int
  ks_fecK :: int
  ks_fecN :: int
  ks_antennas :: int
  ks_sessionEstablished :: bool
  ks_bytesAll :: int

record kotlin_telemetry =
  kt_armed :: bool
  kt_gpsFixType :: int
  kt_satellites :: int
  kt_rollRad :: f32
  kt_pitchRad :: f32
  kt_yawRad :: f32
  kt_latitude :: f32
  kt_longitude :: f32
  kt_altitudeM :: f32
  kt_relativeAltitudeM :: f32
  kt_groundSpeedMs :: f32
  kt_airSpeedMs :: f32
  kt_climbMs :: f32
  kt_headingDeg :: f32
  kt_throttlePct :: f32
  kt_batteryVolts :: f32
  kt_batteryAmps :: f32
  kt_batteryRemainingPct :: f32

definition kotlin_onStats :: "int list \<Rightarrow> f32 list \<Rightarrow> (kotlin_stats \<times> kotlin_telemetry) option" where
  "kotlin_onStats ints floats = do {
     i0 \<leftarrow> element_at ints 0;
     i1 \<leftarrow> element_at ints 1;
     i2 \<leftarrow> element_at ints 2;
     i3 \<leftarrow> element_at ints 3;
     i4 \<leftarrow> element_at ints 4;
     i5 \<leftarrow> element_at ints 5;
     i6 \<leftarrow> element_at ints 6;
     i7 \<leftarrow> element_at ints 7;
     i8 \<leftarrow> element_at ints 8;
     i9 \<leftarrow> element_at ints 9;
     i10 \<leftarrow> element_at ints 10;
     i11 \<leftarrow> element_at ints 11;
     i12 \<leftarrow> element_at ints 12;
     i13 \<leftarrow> element_at ints 13;
     i14 \<leftarrow> element_at ints 14;
     f0 \<leftarrow> element_at floats 0;
     f1 \<leftarrow> element_at floats 1;
     f2 \<leftarrow> element_at floats 2;
     f3 \<leftarrow> element_at floats 3;
     f4 \<leftarrow> element_at floats 4;
     f5 \<leftarrow> element_at floats 5;
     f6 \<leftarrow> element_at floats 6;
     f7 \<leftarrow> element_at floats 7;
     f8 \<leftarrow> element_at floats 8;
     f9 \<leftarrow> element_at floats 9;
     f10 \<leftarrow> element_at floats 10;
     f11 \<leftarrow> element_at floats 11;
     f12 \<leftarrow> element_at floats 12;
     f13 \<leftarrow> element_at floats 13;
     f14 \<leftarrow> element_at floats 14;
     Some (\<lparr>ks_bestRssi = i0, ks_bestSnr = i1, ks_packetsAll = i2, ks_packetsLost = i3, ks_packetsRecovered = i4,
        ks_packetsBad = i5, ks_packetsDecryptError = i6, ks_fecK = i7, ks_fecN = i8, ks_antennas = i9,
        ks_sessionEstablished = i10 \<noteq> 0, ks_bytesAll = i11\<rparr>,
       \<lparr>kt_armed = i12 \<noteq> 0, kt_gpsFixType = i13, kt_satellites = i14, kt_rollRad = f0, kt_pitchRad = f1,
        kt_yawRad = f2, kt_latitude = f3, kt_longitude = f4, kt_altitudeM = f5, kt_relativeAltitudeM = f6,
        kt_groundSpeedMs = f7, kt_airSpeedMs = f8, kt_climbMs = f9, kt_headingDeg = f10, kt_throttlePct = f11,
        kt_batteryVolts = f12, kt_batteryAmps = f13, kt_batteryRemainingPct = f14\<rparr>)
   }"

fun kind_value :: "endpoint_kind \<Rightarrow> int" where
  "kind_value kUdpOut = 0"
| "kind_value kUdpServer = 1"
| "kind_value kTcpServer = 2"

definition kotlin_setMavlinkEndpoints ::
  "jvm \<Rightarrow> ('a, 'd) session option \<Rightarrow> mavlink_endpoint list \<Rightarrow> ('a, 'd) session option option" where
  "kotlin_setMavlinkEndpoints vm handle endpoints =
     nativeSetMavlinkEndpoints vm handle (map (\<lambda>e. kind_value (me_kind e)) endpoints) (map (\<lambda>e. Some (me_host e)) endpoints)
       (map me_port endpoints) (map (\<lambda>e. if me_allow_uplink e then 1 else 0) endpoints)"

subsection \<open>Lemmas\<close>

lemma jint_of_small: "uint w < 2 ^ 31 \<Longrightarrow> jint_of w = uint w"
  using signed_take_bit_int_eq_self [of 31 "uint w"] order_trans [OF _ uint_ge_0, of "- (2 ^ 31)" w]
  by (simp add: jint_of_def sint_uint)

lemma jint_of_length: "length data < 2 ^ 31 \<Longrightarrow> jint_of (of_nat (length data)) = int (length data)"
proof -
  assume "length data < 2 ^ 31"
  then have "int (length data) < 2 ^ 31" by simp
  then have "uint (of_nat (length data) :: u32) = int (length data)" by (simp add: uint_nat unat_of_nat)
  with \<open>int (length data) < 2 ^ 31\<close> show ?thesis by (simp add: jint_of_small)
qed

lemma stats_ints_list:
  "stats_ints sn t = [ls_best_rssi sn, ls_best_snr sn, jint_of (ls_packets_all sn), jint_of (ls_packets_lost sn),
     jint_of (ls_packets_fec_recovered sn), jint_of (ls_packets_bad sn), jint_of (ls_packets_decrypt_err sn), ls_fec_k sn,
     ls_fec_n sn, ls_num_antennas sn, if ls_session_established sn then 1 else 0, jint_of (ls_bytes_all sn),
     if ts_armed t then 1 else 0, uint (ts_gps_fix_type t), uint (ts_satellites t)]"
  by (simp add: stats_ints_def fill_def numeral_eq_Suc)

lemma stats_floats_list:
  "stats_floats t = [ts_roll_rad t, ts_pitch_rad t, ts_yaw_rad t, F32_quot (ts_latitude_e7 t) 10000000,
     F32_quot (ts_longitude_e7 t) 10000000, F32_quot (ts_altitude_mm t) 1000, F32_quot (ts_relative_altitude_mm t) 1000,
     ts_ground_speed_ms t, ts_air_speed_ms t, ts_climb_ms t, ts_heading_deg t, F32_quot (uint (ts_throttle_pct t)) 1,
     ts_battery_voltage_v t, ts_battery_current_a t, F32_quot (ts_battery_remaining_pct t) 1]"
  by (simp add: stats_floats_def fill_def numeral_eq_Suc)

text \<open>Before the library is loaded nothing is called; afterwards a thread gets an environment or attaches.\<close>

lemma call_jvm_unloaded: "\<not> jv_vm vm \<Longrightarrow> call_jvm vm session ev = []"
  by (simp add: call_jvm_def ScopedEnv_def Let_def split: gs_event.split)

lemma JNI_OnLoad_attaches:
  "fst (ScopedEnv (fst (JNI_OnLoad vm))) = (jv_GetEnv vm = JNI_OK \<or> jv_GetEnv vm = JNI_EDETACHED \<and> jv_Attach vm)"
  by (auto simp: JNI_OnLoad_def ScopedEnv_def JNI_OK_def JNI_EDETACHED_def)

lemma endpoint_of_marshalled:
  assumes "jv_utf vm (me_host e) = Some (me_host e)"
  shows "endpoint_of vm (kind_value (me_kind e)) (Some (me_host e)) (me_port e) (if me_allow_uplink e then 1 else 0)
    = e\<lparr>me_enabled := True\<rparr>"
  using assms by (cases e; cases "me_kind e") (simp_all add: endpoint_of_def ToStdString_def mavlink_endpoint_default_def)

text \<open>The references a sequence of starts of one session takes and gives back.\<close>

fun start_refs :: "('a, 'd) session \<Rightarrow> (('a, 'd) gs_env \<times> jvm \<times> start_args) list \<Rightarrow> ('a, 'd) session \<times> ref_call list" where
  "start_refs session [] = (session, [])"
| "start_refs session ((env, vm, a) # starts) =
     (case nativeStart env vm (Some session) a of
        (Some session', ev, refs, ok) \<Rightarrow> (case start_refs session' starts of (session'', refs') \<Rightarrow> (session'', refs @ refs'))
      | (None, ev, refs, ok) \<Rightarrow> (session, []))"

definition ref_pairs :: "int list \<Rightarrow> ref_call list" where
  "ref_pairs ls = concat (map (\<lambda>l. [NewGlobalRef l, DeleteGlobalRef l]) ls)"

lemma start_refs_pairs:
  "snd (start_refs session starts) @ release_listener (fst (start_refs session starts))
     = release_listener session @ ref_pairs (map (\<lambda>(env, vm, a). sa_listener a) starts)"
proof (induction starts arbitrary: session)
  case Nil
  then show ?case by (simp add: ref_pairs_def)
next
  case (Cons start starts)
  obtain env vm a where start: "start = (env, vm, a)" using prod_cases3 by blast
  obtain station ev ok where st: "gs_Start env (jn_station session) (start_config vm a) (sa_usb_fd a) jni_callbacks = (station, ev, ok)"
    using prod_cases3 by blast
  let ?s = "session\<lparr>jn_listener := Some (sa_listener a), jn_methods := sa_methods a, jn_station := station\<rparr>"
  obtain s2 refs where rest: "start_refs ?s starts = (s2, refs)" by force
  have "nativeStart env vm (Some session) a = (Some ?s, ev, release_listener session @ [NewGlobalRef (sa_listener a)], ok)"
    using st by (simp add: nativeStart_def)
  then have "start_refs session (start # starts) = (s2, (release_listener session @ [NewGlobalRef (sa_listener a)]) @ refs)"
    using rest by (simp add: start)
  with Cons.IH [of ?s] rest show ?case by (simp add: start ref_pairs_def release_listener_def)
qed

subsection \<open>Properties\<close>

text \<open>
  C31: the Kotlin layer reads out of the two statistics arrays exactly what the station reported: each of the 12 values
  of the snapshot and the 18 of the telemetry that the arrays carry arrives in the Kotlin field of the same meaning, as long
  as the counters are below \<open>2 ^ 31\<close>, and no index is out of bounds.
\<close>

theorem jni_stats_roundtrip:
  assumes "\<forall>w \<in> {ls_packets_all sn, ls_packets_lost sn, ls_packets_fec_recovered sn, ls_packets_bad sn,
      ls_packets_decrypt_err sn, ls_bytes_all sn}. uint w < 2 ^ 31"
  shows "\<exists>ks kt. kotlin_onStats (stats_ints sn t) (stats_floats t) = Some (ks, kt)
    \<and> ks_bestRssi ks = ls_best_rssi sn \<and> ks_bestSnr ks = ls_best_snr sn \<and> ks_packetsAll ks = uint (ls_packets_all sn)
    \<and> ks_packetsLost ks = uint (ls_packets_lost sn) \<and> ks_packetsRecovered ks = uint (ls_packets_fec_recovered sn)
    \<and> ks_packetsBad ks = uint (ls_packets_bad sn) \<and> ks_packetsDecryptError ks = uint (ls_packets_decrypt_err sn)
    \<and> ks_fecK ks = ls_fec_k sn \<and> ks_fecN ks = ls_fec_n sn \<and> ks_antennas ks = ls_num_antennas sn
    \<and> ks_sessionEstablished ks = ls_session_established sn \<and> ks_bytesAll ks = uint (ls_bytes_all sn)
    \<and> kt_armed kt = ts_armed t \<and> kt_gpsFixType kt = uint (ts_gps_fix_type t) \<and> kt_satellites kt = uint (ts_satellites t)
    \<and> kt_rollRad kt = ts_roll_rad t \<and> kt_pitchRad kt = ts_pitch_rad t \<and> kt_yawRad kt = ts_yaw_rad t
    \<and> kt_latitude kt = F32_quot (ts_latitude_e7 t) 10000000 \<and> kt_longitude kt = F32_quot (ts_longitude_e7 t) 10000000
    \<and> kt_altitudeM kt = F32_quot (ts_altitude_mm t) 1000 \<and> kt_relativeAltitudeM kt = F32_quot (ts_relative_altitude_mm t) 1000
    \<and> kt_groundSpeedMs kt = ts_ground_speed_ms t \<and> kt_airSpeedMs kt = ts_air_speed_ms t \<and> kt_climbMs kt = ts_climb_ms t
    \<and> kt_headingDeg kt = ts_heading_deg t \<and> kt_throttlePct kt = F32_quot (uint (ts_throttle_pct t)) 1
    \<and> kt_batteryVolts kt = ts_battery_voltage_v t \<and> kt_batteryAmps kt = ts_battery_current_a t
    \<and> kt_batteryRemainingPct kt = F32_quot (ts_battery_remaining_pct t) 1"
  using assms by (simp add: kotlin_onStats_def element_at_def stats_ints_list stats_floats_list jint_of_small)

theorem jni_stats_roundtrip_witness:
  "\<exists>ks kt. kotlin_onStats (stats_ints lossy_snapshot telemetry_init) (stats_floats telemetry_init) = Some (ks, kt)
    \<and> ks_packetsLost ks = 3 \<and> ks_bestRssi ks = - 55"
  using jni_stats_roundtrip [of lossy_snapshot telemetry_init] by (auto simp: lossy_snapshot_def link_snapshot_default_def)

text \<open>
  C35: the endpoints the Kotlin layer sets are the endpoints the router is configured with, all of them enabled, in the
  same order; the parallel arrays are never read out of bounds.
\<close>

theorem jni_endpoints_roundtrip:
  assumes "\<forall>e \<in> set endpoints. jv_utf vm (me_host e) = Some (me_host e)"
  shows "\<exists>session'. kotlin_setMavlinkEndpoints vm (Some session) endpoints = Some (Some session')
    \<and> rt_configured (gs_mavlink (jn_station session')) = map (\<lambda>e. e\<lparr>me_enabled := True\<rparr>) endpoints
    \<and> rt_dirty (gs_mavlink (jn_station session'))"
proof -
  have "map (\<lambda>i. endpoint_of vm (map (\<lambda>e. kind_value (me_kind e)) endpoints ! i) (map (\<lambda>e. Some (me_host e)) endpoints ! i)
      (map me_port endpoints ! i) (map (\<lambda>e. if me_allow_uplink e then 1 else 0) endpoints ! i)) [0..<length endpoints]
    = map (\<lambda>e. e\<lparr>me_enabled := True\<rparr>) endpoints"
    using assms by (intro nth_equalityI) (simp_all add: endpoint_of_marshalled)
  then show ?thesis
    by (simp add: kotlin_setMavlinkEndpoints_def nativeSetMavlinkEndpoints_def SetMavlinkEndpoints_def router_SetEndpoints_def Let_def)
qed

definition plain_jvm :: jvm where
  "plain_jvm = \<lparr>jv_vm = True, jv_GetEnv = 0, jv_Attach = True, jv_alloc = True, jv_utf = Some\<rparr>"

theorem jni_endpoints_roundtrip_witness:
  "\<exists>session'. kotlin_setMavlinkEndpoints plain_jvm (Some (nativeCreate :: (nat, nat) session)) [udp_config] = Some (Some session')
    \<and> rt_configured (gs_mavlink (jn_station session')) = [udp_config]"
  using jni_endpoints_roundtrip [of "[udp_config]" plain_jvm "nativeCreate :: (nat, nat) session"]
  by (auto simp: plain_jvm_def udp_config_def mavlink_endpoint_default_def)

text \<open>
  Over the life of a session every global reference to a listener is released exactly once, before the next one is
  taken or when the session is destroyed, however often it was started and whether or not the starts succeeded.
\<close>

theorem jni_refs_balanced:
  "snd (start_refs nativeCreate starts) @ snd (nativeDestroy (Some (fst (start_refs nativeCreate starts))))
     = ref_pairs (map (\<lambda>(env, vm, a). sa_listener a) starts)"
  using start_refs_pairs [of nativeCreate starts] by (simp add: nativeDestroy_def nativeCreate_def release_listener_def)

text \<open>
  C39: the report interval set before the start is not the one used. Setting the adaptive link and then starting, in the
  order the app does it, keeps the controller but replaces the configuration the statistics thread takes the interval
  from by the default one.
\<close>

theorem jni_start_forgets_interval:
  assumes "\<not> gs_running (jn_station session)" and "parts_inv (jn_station session)" and "life_inv (jn_station session)"
    and "nativeSetAlink vm (Some session) 1 host port interval_ms snr rssi idr penalty fec = Some session1"
    and "fresh_pipe (gs_mavlink (jn_station session1)) (ge_pipe env)"
    and "nativeStart env vm (Some session1) a = (Some session2, ev, refs, True)"
  shows "gs_alink (jn_station session2) \<noteq> None
    \<and> ac_interval_ms (gc_alink (gs_config (jn_station session2))) = ac_interval_ms alink_config_default"
proof -
  obtain config where config: "session1 = session\<lparr>jn_station := SetAlinkConfig (jn_station session) config\<rparr>" "ac_enabled config"
    using assms(4) by (auto simp: nativeSetAlink_def Let_def)
  let ?s = "jn_station session1"
  have inv: "parts_inv ?s" "life_inv ?s" using alink_config_inv [OF assms(2,3)] config(1) by simp_all
  have alink: "gs_alink ?s \<noteq> None" "\<not> gs_running ?s"
    using config assms(1) by (auto simp: SetAlinkConfig_def Let_def split: option.splits)
  obtain station where st: "gs_Start env ?s (start_config vm a) (sa_usb_fd a) jni_callbacks = (station, ev, True)"
      "jn_station session2 = station"
    using assms(6) by (auto simp: nativeStart_def split: prod.splits)
  obtain s3 ev3 where p: "prepare_start env ?s (start_config vm a) jni_callbacks = (s3, ev3)" by force
  have "ac_enabled (gc_alink (start_config vm a)) = False"
      "gc_alink (start_config vm a) = alink_config_default"
    by (simp_all add: start_config_def gs_config_default_def alink_config_default_def)
  then have "gs_alink s3 = gs_alink ?s"
    using p by (auto simp: prepare_start_def open_mirror_def Let_def split: if_splits option.splits prod.splits)
  with Start_outcome [OF inv alink(2) assms(5) st(1) p] alink(1) st(2) show ?thesis
    by (simp add: start_config_def gs_config_default_def)
qed

definition sample_args :: start_args where
  "sample_args =
     \<lparr>sa_source_kind = 0, sa_channel = 161, sa_bandwidth = 20, sa_link_id = 7669206, sa_key_path = Some ''gs.key'', sa_udp_bind = None,
      sa_udp_port = 5600, sa_mirror_host = None, sa_mirror_port = 0, sa_usb_fd = 7, sa_listener = 1,
      sa_methods = \<lparr>mi_on_video = True, mi_on_osd = True, mi_on_stats = True, mi_on_status = True\<rparr>\<rparr>"

theorem jni_start_forgets_interval_witness:
  "\<exists>session1 session2 ev refs. nativeSetAlink plain_jvm (Some (nativeCreate :: (nat, nat) session)) 1 None 9999 500 (Fin 1) (Fin 0) 1 0 0
      = Some session1
    \<and> nativeStart example_env plain_jvm (Some session1) sample_args = (Some session2, ev, refs, True)
    \<and> ac_interval_ms (gc_alink (gs_config (jn_station session2))) = 100"
proof -
  let ?new = "nativeCreate :: (nat, nat) session"
  obtain session1 where s1: "nativeSetAlink plain_jvm (Some ?new) 1 None 9999 500 (Fin 1) (Fin 0) 1 0 0 = Some session1"
    by (simp add: nativeSetAlink_def)
  then have idle: "\<not> gs_running (jn_station session1)" "gs_mavlink (jn_station session1) = router_init"
    by (auto simp: nativeSetAlink_def nativeCreate_def SetAlinkConfig_def ground_station_init_def Let_def)
  have new: "\<not> gs_running (jn_station ?new)" "parts_inv (jn_station ?new)" "life_inv (jn_station ?new)"
    
    by (simp_all add: nativeCreate_def init_inv) (simp add: ground_station_init_def)
  have pipe: "fresh_pipe (gs_mavlink (jn_station session1)) (ge_pipe example_env)"
    by (simp add: idle(2) fresh_pipe_def example_env_def router_init_def)
  have "gc_source (start_config plain_jvm sample_args) \<noteq> kUdp" by (simp add: start_config_def sample_args_def)
  then obtain station ev where "gs_Start example_env (jn_station session1) (start_config plain_jvm sample_args)
      (sa_usb_fd sample_args) jni_callbacks = (station, ev, True)"
    using example_env_starts idle(1) by blast
  then obtain session2 refs where st: "nativeStart example_env plain_jvm (Some session1) sample_args = (Some session2, ev, refs, True)"
    by (simp add: nativeStart_def)
  from jni_start_forgets_interval [OF new s1 pipe st] s1 st show ?thesis by (auto simp: alink_config_default_def)
qed

end
