(* ===== verification/Stats_Thread.thy ===== *)
theory Stats_Thread
  imports Ground_Station
begin

section \<open>The statistics thread\<close>

text \<open>
  \<open>StatsLoop\<close> of \<open>ground_station.cpp\<close> as a whole, around the rounds \<open>Ground_Station.stats_iteration\<close>: what a round shows of
  the receiver and keeps of it, and the loop with the calls other threads make while it sleeps. The rate at which the
  loop sends adaptive-link messages is bounded, and the loop returns once the station is told to stop.
\<close>

subsection \<open>What a round shows and keeps\<close>

text \<open>A receiver keeps accumulators for four paths, whatever is done to it.\<close>

definition four_paths :: "'a wfb_receiver option \<Rightarrow> bool" where
  "four_paths receiver \<longleftrightarrow> (case receiver of None \<Rightarrow> True | Some r \<Rightarrow> length (wr_paths r) = 4)"

lemma accumulate_loop_length: "accumulate_loop accs meta paths i = Some accs' \<Longrightarrow> length accs' = length accs"
proof (induction accs meta paths i rule: accumulate_loop.induct)
  case (1 accs meta paths i)
  then show ?case
    by (subst (asm) (2) accumulate_loop.simps) (auto split: if_splits Option.bind_splits)
qed

lemma ProcessFrame_paths: "ProcessFrame ops r input = Some (r', out) \<Longrightarrow> length (wr_paths r') = length (wr_paths r)"
  by (auto simp: ProcessFrame_def AccumulateSignal_def Let_def split: prod.splits option.splits if_splits Option.bind_splits
      dest: accumulate_loop_length)

lemma TakeSnapshot_paths: "length (wr_paths (fst (TakeSnapshot ops r now))) = length (wr_paths r)"
  by (simp add: TakeSnapshot_def ResetSignal_def Let_def split_def split: option.split)

lemma AddStream_paths: "AddStream ops r port = Some r' \<Longrightarrow> wr_paths r' = wr_paths r"
  by (auto simp: AddStream_def Let_def split: option.splits Option.bind_splits)

lemma add_streams_paths: "add_streams ops (wfb_receiver_init radio) = Some r \<Longrightarrow> length (wr_paths r) = 4"
  by (auto simp: add_streams_def wfb_receiver_init_def ResetSignal_def dest!: AddStream_paths split: Option.bind_splits)

lemma OnFrame_paths: "four_paths (gs_receiver s) \<Longrightarrow> gs_OnFrame ops now s input = Some (s', ev) \<Longrightarrow> four_paths (gs_receiver s')"
  by (auto simp: gs_OnFrame_def four_paths_def dest!: deliver_run_receiver ProcessFrame_paths split: option.splits Option.bind_splits)

lemma route_receiver: "gs_receiver (fst (route_actions ops s acts)) = gs_receiver s"
  by (induction acts arbitrary: s) (simp_all add: Let_def split_def SendUplink_state split: router_action.split)

lemma poll_receiver:
  assumes "gs_poll net ops s result = Some (s', ev)"
  shows "gs_receiver s' = gs_receiver s"
proof -
  obtain m acts where "route_actions ops (s\<lparr>gs_mavlink := m\<rparr>) acts = (s', ev)"
    using assms by (auto simp: gs_poll_def split: Option.bind_splits)
  with route_receiver [of ops "s\<lparr>gs_mavlink := m\<rparr>" acts] show ?thesis by simp
qed

lemma Start_paths:
  assumes "four_paths (gs_receiver s)" and "gs_Start env s config usb_fd cbs = (s', ev, ok)"
  shows "four_paths (gs_receiver s')"
proof (cases "gs_running s")
  case True
  with assms show ?thesis by (simp add: gs_Start_def)
next
  case False
  obtain s3 ev3 where p: "prepare_start env s config cbs = (s3, ev3)" by force
  then have "gs_receiver s3 = gs_receiver s"
    by (auto simp: prepare_start_def open_mirror_def Let_def split: if_splits option.splits prod.splits)
  with assms(1) have made: "four_paths receiver" if "make_source env s3 usb_fd = Some (src, receiver)" for src receiver
    using that add_streams_paths by (fastforce simp: make_source_def four_paths_def split: source_kind.splits)
  have "four_paths None" by (simp add: four_paths_def)
  with assms(2) False p made show ?thesis
    by (auto simp: gs_Start_def abort_start_def SetError_def Let_def split: option.splits prod.splits)
qed

text \<open>One round of the statistics thread: what it publishes and what it keeps.\<close>

definition snapshot_of :: "'a aggregator_ops \<Rightarrow> 'a wfb_receiver option \<Rightarrow> u64 \<Rightarrow> link_snapshot" where
  "snapshot_of ops receiver now =
     (case receiver of None \<Rightarrow> link_snapshot_default\<lparr>ls_timestamp_ms := now\<rparr> | Some r \<Rightarrow> snd (TakeSnapshot ops r now))"

lemma snapshot_fec: "ls_fec_k (snapshot_of ops receiver now) = - 1 \<and> ls_fec_n (snapshot_of ops receiver now) = - 1"
  by (simp add: snapshot_of_def TakeSnapshot_def link_snapshot_default_def Let_def split_def split: option.split)

definition shown_stats :: "'a aggregator_ops \<Rightarrow> ('a, 'd) ground_station \<Rightarrow> u64 \<Rightarrow> gs_event list" where
  "shown_stats ops s now =
     (if gs_running s \<and> cb_on_stats (gs_callbacks s)
      then [StatsShown (snapshot_of ops (gs_receiver s) now) (telemetry_Get (rt_telemetry (gs_mavlink s)))] else [])"

definition injects :: "gs_event \<Rightarrow> bool" where
  "injects e \<longleftrightarrow> (case e of Injected frame ok \<Rightarrow> True | _ \<Rightarrow> False)"

lemma SendUplink_injects [simp]: "list_all injects (snd (SendUplink ops s p data))"
  by (simp add: SendUplink_def injects_def Let_def split_def split: option.split)

lemma injects_no_stats [simp]: "\<not> injects (StatsShown sn t)"
  by (simp add: injects_def)

lemma stats_iteration_receiver:
  assumes "stats_iteration aops uops (s, n) (now0, now, draws) = Some ((s', n'), ev)"
  shows "gs_receiver s' = (if gs_running s then map_option (\<lambda>r. fst (TakeSnapshot aops r now0)) (gs_receiver s) else gs_receiver s)"
  using assms
  by (auto simp: stats_iteration_def Let_def split_def prod_eq_iff SendUplink_state split: option.split_asm if_split_asm Option.bind_split_asm)

lemma stats_iteration_events:
  assumes "stats_iteration aops uops (s, n) (now0, now, draws) = Some ((s', n'), ev)"
  shows "\<exists>sent. ev = shown_stats aops s now0 @ sent \<and> list_all injects sent"
  using assms
  by (cases "gs_receiver s"; cases "gs_running s"; cases "gs_alink s")
     (auto simp: stats_iteration_def shown_stats_def snapshot_of_def Let_def split_def prod_eq_iff split: if_split_asm Option.bind_split_asm)

lemma reachable_paths: "gs_reach s \<Longrightarrow> four_paths (gs_receiver s)"
proof (induction rule: gs_reach.induct)
  case gs_init
  show ?case by (simp add: four_paths_def ground_station_init_def)
next
  case (gs_start s env config usb_fd cbs s' ev ok)
  then show ?case using Start_paths by blast
next
  case (gs_stop s)
  then show ?case by (auto simp: gs_Stop_def four_paths_def Let_def split: option.splits prod.splits)
next
  case (gs_frame s ops now input s' ev)
  then show ?case using OnFrame_paths by blast
next
  case (gs_datagram s data s' ev)
  then show ?case by (auto simp: gs_OnVideoPayload_def split: Option.bind_splits)
next
  case (gs_route s net result uops s' ev)
  then show ?case by (simp add: poll_receiver)
next
  case (gs_statistics s aops uops n input s' n' ev)
  obtain now0 now draws where "input = (now0, now, draws)" using prod_cases3 by blast
  with gs_statistics stats_iteration_receiver [of aops uops s n now0 now draws s' n' ev] show ?case
    by (auto simp: four_paths_def TakeSnapshot_paths split: option.splits)
next
  case (gs_alink s aconfig)
  then show ?case by (simp add: SetAlinkConfig_def Let_def split: option.split)
next
  case (gs_channel s uops channel bw)
  then show ?case by (simp add: gs_SetChannel_def Let_def split_def split: option.split)
qed (simp_all add: SetMavlinkEndpoints_def SetVideoCodec_def)

text \<open>What the station reports after a round is what the round showed.\<close>

lemma stats_iteration_published:
  assumes "stats_iteration aops uops (s, n) (now0, now, draws) = Some ((s', n'), ev)" and "gs_running s"
  shows "gs_link_stats s' = snapshot_of aops (gs_receiver s) now0"
  using assms
  by (cases "gs_receiver s"; cases "gs_alink s")
     (auto simp: stats_iteration_def gs_link_stats_def stats_Get_def stats_Publish_def snapshot_of_def SendUplink_state Let_def
        split_def prod_eq_iff split: if_split_asm Option.bind_split_asm)

subsection \<open>The loop\<close>

text \<open>
  What other threads do while this one sleeps: the calls of the Android layer, frames of the source's thread, and the
  first step of \<open>Stop\<close>, which clears \<open>running_\<close> and then waits for this thread.
\<close>

datatype station_call =
    Call_SetAlinkConfig alink_config
  | Call_SetMavlinkEndpoints "mavlink_endpoint list"
  | Call_SetVideoCodec video_codec
  | Call_SetChannel int bandwidth
  | Call_OnFrame u64 "bytes \<times> frame_meta"
  | Call_Stop

fun station_call_step ::
  "'a aggregator_ops \<Rightarrow> 'd usb_ops \<Rightarrow> ('a, 'd) ground_station \<Rightarrow> station_call \<Rightarrow> ('a, 'd) ground_station option" where
  "station_call_step aops uops s (Call_SetAlinkConfig config) = Some (SetAlinkConfig s config)"
| "station_call_step aops uops s (Call_SetMavlinkEndpoints endpoints) = Some (SetMavlinkEndpoints s endpoints)"
| "station_call_step aops uops s (Call_SetVideoCodec codec) = Some (SetVideoCodec s codec)"
| "station_call_step aops uops s (Call_SetChannel channel bw) = Some (fst (gs_SetChannel uops s channel bw))"
| "station_call_step aops uops s (Call_OnFrame now input) = map_option fst (gs_OnFrame aops now s input)"
| "station_call_step aops uops s Call_Stop = Some (s\<lparr>gs_running := False\<rparr>)"

fun sleep ::
  "'a aggregator_ops \<Rightarrow> 'd usb_ops \<Rightarrow> ('a, 'd) ground_station \<Rightarrow> station_call list \<Rightarrow> ('a, 'd) ground_station option" where
  "sleep aops uops s [] = Some s"
| "sleep aops uops s (c # cs) = do {
     s1 \<leftarrow> station_call_step aops uops s c;
     sleep aops uops s1 cs
   }"

text \<open>
  The events are those of this thread. The flag tells whether the loop has returned when the rounds are used up.
\<close>

fun StatsLoop ::
  "'a aggregator_ops \<Rightarrow> 'd usb_ops \<Rightarrow> ('a, 'd) ground_station \<times> u64 \<Rightarrow> (station_call list \<times> u64 \<times> u64 \<times> nat list) list
    \<Rightarrow> ((('a, 'd) ground_station \<times> u64) \<times> gs_event list \<times> bool) option" where
  "StatsLoop aops uops (s, next_alink_ms) [] = Some ((s, next_alink_ms), [], False)"
| "StatsLoop aops uops (s, next_alink_ms) ((calls, input) # rounds) =
     (if \<not> gs_running s then Some ((s, next_alink_ms), [], True)
      else do {
        s1 \<leftarrow> sleep aops uops s calls;
        if \<not> gs_running s1 then Some ((s1, next_alink_ms), [], True)
        else do {
          (state2, ev2) \<leftarrow> stats_iteration aops uops (s1, next_alink_ms) input;
          (state3, ev3, returned) \<leftarrow> StatsLoop aops uops state2 rounds;
          Some (state3, ev2 @ ev3, returned)
        }
      })"

subsection \<open>The rate of the adaptive link\<close>

definition interval_of :: "('a, 'd) ground_station \<Rightarrow> int" where
  "interval_of s = ac_interval_ms (gc_alink (gs_config s))"

text \<open>Intervals of at least \<open>i\<close>, in the station and in the settings made while the loop runs.\<close>

definition interval_ok :: "int \<Rightarrow> int \<Rightarrow> bool" where
  "interval_ok i v \<longleftrightarrow> i \<le> v \<and> v < 2 ^ 31"

definition calls_ok :: "int \<Rightarrow> station_call list \<Rightarrow> bool" where
  "calls_ok i calls \<longleftrightarrow> list_all (\<lambda>c. case c of Call_SetAlinkConfig config \<Rightarrow> interval_ok i (ac_interval_ms config) | _ \<Rightarrow> True) calls"

lemma deliver_same: "gs_deliver now s item = Some (s', ev) \<Longrightarrow> gs_config s' = gs_config s \<and> gs_running s' = gs_running s"
  by (auto simp: gs_deliver_def gs_OnVideoPayload_def OnTelemetryPayload_def OnTunnelPayload_def bind_eq_Some_conv
      split: prod.split_asm if_split_asm)

lemma deliver_run_same:
  "run_steps (gs_deliver now) s items = Some (s', ev) \<Longrightarrow> gs_config s' = gs_config s \<and> gs_running s' = gs_running s"
  by (induction items arbitrary: s ev) (auto simp: bind_eq_Some_conv dest!: deliver_same)

lemma OnFrame_same:
  "gs_OnFrame ops now s input = Some (s', ev) \<Longrightarrow> gs_config s' = gs_config s \<and> gs_running s' = gs_running s"
  by (auto simp: gs_OnFrame_def bind_eq_Some_conv dest!: deliver_run_same split: option.split_asm)

lemma call_step_config:
  assumes "station_call_step aops uops s c = Some s'" and "interval_ok i (interval_of s)" and "calls_ok i [c]"
  shows "interval_ok i (interval_of s')"
  using assms
  by (cases c) (auto simp: interval_of_def calls_ok_def SetAlinkConfig_def SetMavlinkEndpoints_def SetVideoCodec_def gs_SetChannel_def
      Let_def split_def dest!: OnFrame_same split: option.splits if_splits)

lemma call_step_running:
  "station_call_step aops uops s c = Some s' \<Longrightarrow> gs_running s' = (gs_running s \<and> c \<noteq> Call_Stop)"
  by (cases c) (auto simp: SetAlinkConfig_def SetMavlinkEndpoints_def SetVideoCodec_def gs_SetChannel_def
      Let_def split_def dest!: OnFrame_same split: option.splits if_splits)

lemma sleep_interval:
  "sleep aops uops s calls = Some s' \<Longrightarrow> interval_ok i (interval_of s) \<Longrightarrow> calls_ok i calls \<Longrightarrow> interval_ok i (interval_of s')"
proof (induction calls arbitrary: s)
  case (Cons c calls)
  then obtain s1 where "station_call_step aops uops s c = Some s1" "sleep aops uops s1 calls = Some s'"
    by (auto simp: bind_eq_Some_conv)
  with Cons call_step_config [of aops uops s c s1 i] show ?case by (auto simp: calls_ok_def)
qed simp

lemma sleep_running: "sleep aops uops s calls = Some s' \<Longrightarrow> gs_running s' = (gs_running s \<and> Call_Stop \<notin> set calls)"
  by (induction calls arbitrary: s) (auto simp: bind_eq_Some_conv dest: call_step_running)

text \<open>A round either leaves the due time alone and sends nothing, or was due, sends at most once and sets the next time.\<close>

lemma stats_iteration_due:
  assumes "stats_iteration aops uops (s, n) (now0, now, draws) = Some ((s', n'), ev)"
  shows "interval_of s' = interval_of s"
    and "n' = n \<and> injected_of ev = [] \<or> n \<le> now \<and> n' = now + word_of_int (interval_of s) \<and> length (injected_of ev) \<le> 1"
proof -
  have sent: "length (injected_of (snd (SendUplink uops s p data))) \<le> 1" for s p data
    by (simp add: SendUplink_def injected_of_def Let_def split_def split: option.split)
  show "interval_of s' = interval_of s"
    using assms
    by (auto simp: stats_iteration_def interval_of_def Let_def split_def prod_eq_iff SendUplink_state
        split: option.split_asm if_split_asm Option.bind_split_asm)
  show "n' = n \<and> injected_of ev = [] \<or> n \<le> now \<and> n' = now + word_of_int (interval_of s) \<and> length (injected_of ev) \<le> 1"
  proof (cases "now < n")
    case True
    with stats_quiet [OF True, of aops uops s now0 draws] assms show ?thesis by auto
  next
    case False
    with assms sent show ?thesis
      by (auto simp: stats_iteration_def interval_of_def injected_of_def Let_def split_def prod_eq_iff
          split: option.split_asm if_split_asm Option.bind_split_asm)
  qed
qed

text \<open>
  From a due time on, every message after the first one takes an interval: with clocks between \<open>t0\<close> and \<open>t1\<close>, which the
  64-bit sum cannot overflow.
\<close>

definition clocks_in :: "int \<Rightarrow> int \<Rightarrow> (station_call list \<times> u64 \<times> u64 \<times> nat list) list \<Rightarrow> bool" where
  "clocks_in t0 t1 rounds \<longleftrightarrow> list_all (\<lambda>(calls, now0, now, draws). t0 \<le> uint now \<and> uint now \<le> t1) rounds"

lemma due_time: "0 \<le> v \<Longrightarrow> v < 2 ^ 31 \<Longrightarrow> uint now < 2 ^ 63 \<Longrightarrow> uint (now + word_of_int v :: u64) = uint now + v"
  by (simp add: uint_word_ariths unsigned_of_int take_bit_int_eq_self)

lemma StatsLoop_rate:
  assumes "StatsLoop aops uops (s, n) rounds = Some (state, ev, returned)"
    and "0 < i" and "interval_ok i (interval_of s)" and "list_all (\<lambda>(calls, input). calls_ok i calls) rounds"
    and "clocks_in t0 t1 rounds" and "t1 < 2 ^ 63"
  shows "injected_of ev = [] \<or> int (length (injected_of ev)) * i \<le> t1 - max t0 (uint n) + i"
  using assms(1,3-5)
proof (induction rounds arbitrary: s n ev)
  case (Cons round rounds)
  obtain calls now0 now draws where rd: "round = (calls, now0, now, draws)" by (cases round) auto
  show ?case
  proof (cases "\<exists>s1. gs_running s \<and> sleep aops uops s calls = Some s1 \<and> gs_running s1")
    case False
    then have "ev = []" using Cons.prems(1) by (auto simp: rd bind_eq_Some_conv split: if_split_asm)
    then show ?thesis by simp
  next
    case True
    then obtain s1 s2 n2 ev2 ev3 where st: "sleep aops uops s calls = Some s1"
        "stats_iteration aops uops (s1, n) (now0, now, draws) = Some ((s2, n2), ev2)"
        "StatsLoop aops uops (s2, n2) rounds = Some (state, ev3, returned)" "ev = ev2 @ ev3"
      using Cons.prems(1) by (auto simp: rd bind_eq_Some_conv)
    have s1: "interval_ok i (interval_of s1)" using sleep_interval [OF st(1)] Cons.prems(2,3) by (simp add: rd)
    note due = stats_iteration_due [OF st(2)]
    have clock: "t0 \<le> uint now" "uint now \<le> t1" "clocks_in t0 t1 rounds"
      using Cons.prems(4) by (simp_all add: rd clocks_in_def)
    have IH: "injected_of ev3 = [] \<or> int (length (injected_of ev3)) * i \<le> t1 - max t0 (uint n2) + i"
      using Cons.IH [OF st(3)] s1 due(1) Cons.prems(3) clock(3) by (simp add: rd)
    show ?thesis
    proof (cases "n2 = n \<and> injected_of ev2 = []")
      case True
      with IH st(4) show ?thesis by simp
    next
      case False
      then have d: "n \<le> now" "n2 = now + word_of_int (interval_of s1)" "length (injected_of ev2) \<le> 1" using due(2) by auto
      have "uint n2 = uint now + interval_of s1"
        using d(2) s1 assms(2,6) clock(2) by (simp add: due_time interval_ok_def)
      with IH s1 clock have "int (length (injected_of ev3)) * i \<le> t1 - uint now" by (auto simp: interval_ok_def)
      moreover have "int (length (injected_of ev2)) * i \<le> i"
        using d(3) assms(2) mult_right_mono [of "int (length (injected_of ev2))" 1 i] by simp
      moreover have "max t0 (uint n) \<le> uint now" using d(1) clock(1) by (simp add: word_le_def)
      ultimately have "int (length (injected_of ev)) * i \<le> t1 - max t0 (uint n) + i" by (simp add: st(4) distrib_right max_def)
      then show ?thesis by blast
    qed
  qed
qed simp

lemma StatsLoop_returns:
  "StatsLoop aops uops (s, n) rounds = Some (state, ev, returned) \<Longrightarrow> \<exists>(calls, input) \<in> set rounds. Call_Stop \<in> set calls \<Longrightarrow> returned"
proof (induction rounds arbitrary: s n ev)
  case (Cons round rounds)
  obtain calls input where rd: "round = (calls, input)" by (cases round)
  show ?case
    using Cons.prems Cons.IH by (fastforce simp: rd bind_eq_Some_conv dest: sleep_running split: if_split_asm)
qed simp

subsection \<open>Properties\<close>

text \<open>
  The FEC parameters are never filled in: neither the snapshot a receiver takes nor the one of a station without a receiver
  has them, and these are the snapshots the application is shown and the adaptive link is updated with; on them the
  scaling of the recovered packets is the identity.
\<close>

theorem gs_fec_parameters_unset:
  "ls_fec_k (snapshot_of ops receiver now) = - 1 \<and> ls_fec_n (snapshot_of ops receiver now) = - 1
    \<and> AdjustFecRecovered x (ls_fec_k (snapshot_of ops receiver now)) (ls_fec_n (snapshot_of ops receiver now)) = x"
  by (simp add: snapshot_fec AdjustFecRecovered_def)

lemma example_round:
  "\<exists>s' ev sent. stats_iteration plain_aggregator working_usb (example_station, 0) (1000, 1000, [0, 0, 0, 0]) = Some ((s', 1100), ev)
    \<and> ev = shown_stats plain_aggregator example_station 1000 @ sent \<and> list_all injects sent"
  using example_report stats_iteration_events by blast

text \<open>
  C19: the rate of the adaptive link over the whole life of the statistics thread. Let the thread run from clock \<open>t0\<close> to
  clock \<open>t1\<close>, with any frames received, settings changed and retunings made while it sleeps, and let every interval that
  is configured in that time be at least \<open>i\<close>. Then it sends at most one message per \<open>i\<close> milliseconds and one more; and it
  has returned once \<open>Stop\<close> is called.
\<close>

theorem stats_loop_rate:
  assumes "StatsLoop aops uops (s, t0) rounds = Some ((s', n'), ev, returned)"
    and "0 < i" and "interval_ok i (ac_interval_ms (gc_alink (gs_config s)))" and "list_all (\<lambda>(calls, input). calls_ok i calls) rounds"
    and "list_all (\<lambda>(calls, now0, now, draws). uint t0 \<le> uint now \<and> uint now \<le> t1) rounds"
    and "uint t0 \<le> t1" and "t1 < 2 ^ 63"
  shows "int (length (injected_of ev)) * i \<le> t1 - uint t0 + i
    \<and> ((\<exists>(calls, input) \<in> set rounds. Call_Stop \<in> set calls) \<longrightarrow> returned)"
  using StatsLoop_rate [OF assms(1,2) _ assms(4), of "uint t0" t1] StatsLoop_returns [OF assms(1)] assms(2,3,5-7)
  by (auto simp: interval_of_def clocks_in_def)

theorem stats_loop_rate_witness:
  "\<exists>s' n' ev. StatsLoop plain_aggregator working_usb (example_station, 0)
      [([], 1000, 1000, [0, 0, 0, 0]), ([Call_Stop], 1100, 1100, [])] = Some ((s', n'), ev, True)
    \<and> length (injected_of ev) = 1 \<and> int (length (injected_of ev)) * 100 \<le> 1200"
proof -
  let ?rounds = "[([], 1000, 1000, [0, 0, 0, 0]), ([Call_Stop], 1100, 1100, [])]"
  obtain s1 ev frame where st: "stats_iteration plain_aggregator working_usb (example_station, 0) (1000, 1000, [0, 0, 0, 0]) = Some ((s1, 1100), ev)"
      "injected_of ev = [frame]"
    using example_report by blast
  then obtain s' n' where loop: "StatsLoop plain_aggregator working_usb (example_station, 0) ?rounds = Some ((s', n'), ev, True)"
    by (cases "gs_running s1") (simp_all add: example_fields(1))
  have "interval_ok 100 (ac_interval_ms (gc_alink (gs_config example_station)))" by (simp add: example_due(5) interval_ok_def)
  from stats_loop_rate [OF loop _ this, of 1100] loop st(2) show ?thesis by (simp add: calls_ok_def)
qed

end
