(* ===== verification/Jni_Types.thy ===== *)
theory Jni_Types
  imports Jni_Bridge Stats_Thread
begin

section \<open>What the listener is called with\<close>

text \<open>
  The types of the calls into the JVM, beyond what the type checker of either language sees: a \<open>jint\<close> is in range, a
  buffer of less than \<open>2 ^ 31\<close> bytes has the length announced (the length is cast from \<open>size_t\<close>, and nothing bounds the
  fragments a unit is put together from), the two arrays of a screen have one entry per cell, the statistics arrays have
  the lengths the Kotlin side indexes. The calls of every step a station can take from a reachable state are of this form.
\<close>

fun call_wf :: "jvm_call \<Rightarrow> bool" where
  "call_wf (OnVideoNal data n) \<longleftrightarrow> take 4 data = kStartCode \<and> 4 < length data \<and> fits_int32 n
     \<and> (length data < 2 ^ 31 \<longrightarrow> n = int (length data))"
| "call_wf (OnOsdFrame rows cols glyphs attributes) \<longleftrightarrow> 0 < rows \<and> 0 < cols \<and> fits_int32 rows \<and> fits_int32 cols \<and> fits_int32 (rows * cols)
     \<and> int (length glyphs) = rows * cols \<and> int (length attributes) = rows * cols
     \<and> list_all (\<lambda>g. 0 \<le> g \<and> g < 65536) glyphs \<and> list_all (\<lambda>a. 0 \<le> a \<and> a < 256) attributes"
| "call_wf (OnStats ints floats) \<longleftrightarrow> length ints = stats_int_index kStatIntCount
     \<and> length floats = stats_float_index kStatFloatCount \<and> list_all fits_int32 ints"
| "call_wf (OnStatus message) \<longleftrightarrow> True"

subsection \<open>The two canvases\<close>

text \<open>The decoder only ever has a canvas of the SD or of the HD size, so a screen's dimensions and cells fit a \<open>jint\<close>.\<close>

definition known_canvas :: "osd_frame \<Rightarrow> bool" where
  "known_canvas f \<longleftrightarrow> (of_rows f, of_cols f) \<in> {(kOsdRowsSd, kOsdColsSd), (kOsdRowsHd, kOsdColsHd)}"

lemma write_loop_canvas:
  "write_loop payload i row col attribute f = Some f' \<Longrightarrow> of_rows f' = of_rows f \<and> of_cols f' = of_cols f"
proof (induction "length payload - i" arbitrary: i f rule: less_induct)
  case less
  have later: "of_rows f' = of_rows f \<and> of_cols f' = of_cols f"
    if "i < length payload" "write_loop payload (Suc i) row col attribute (f\<lparr>of_cells := cells\<rparr>) = Some f'" for cells
    using less.hyps [OF _ that(2)] that(1) by simp
  from less.prems show ?case
    by (subst (asm) write_loop.simps) (auto simp: Let_def bind_eq_Some_conv split: if_split_asm dest: later)
qed

lemma HandleDisplayPort_canvas:
  assumes "HandleDisplayPort s payload = Some (s', out)" and "known_canvas (ms_frame s)"
  shows "known_canvas (ms_frame s') \<and> list_all known_canvas out"
  using assms
  by (auto simp: HandleDisplayPort_def osd_Clear_def SetCanvas_def osd_callback_def known_canvas_def Let_def bind_eq_Some_conv
      split: if_split_asm displayport_cmd.split_asm dest!: write_loop_canvas)

lemma finish_message_canvas:
  "finish_message s byte = Some (s', out) \<Longrightarrow> known_canvas (ms_frame s) \<Longrightarrow> known_canvas (ms_frame s') \<and> list_all known_canvas out"
  by (auto simp: finish_message_def DispatchMessage_def Let_def bind_eq_Some_conv split: if_split_asm dest!: HandleDisplayPort_canvas)

lemma HandleByte_canvas:
  "HandleByte s byte = Some (s', out) \<Longrightarrow> known_canvas (ms_frame s) \<Longrightarrow> known_canvas (ms_frame s') \<and> list_all known_canvas out"
  using finish_message_canvas [of s byte s' out]
  by (cases "ms_state s") (auto simp: HandleByte_def Let_def split: if_split_asm)

lemma osd_Push_canvas:
  "osd_Push s data = Some (s', out) \<Longrightarrow> known_canvas (ms_frame s) \<Longrightarrow> known_canvas (ms_frame s') \<and> list_all known_canvas out"
proof (induction data arbitrary: s out)
  case (Cons byte data)
  then obtain s1 o1 o2 where "HandleByte s byte = Some (s1, o1)" "osd_Push s1 data = Some (s', o2)" "out = o1 @ o2"
    by (auto simp: osd_Push_def bind_eq_Some_conv)
  with HandleByte_canvas Cons.IH Cons.prems(2) show ?case by fastforce
qed (simp add: osd_Push_def)

abbreviation canvas_ok :: "('a, 'd) ground_station \<Rightarrow> bool" where
  "canvas_ok s \<equiv> known_canvas (ms_frame (gs_osd s))"

lemma deliver_canvas: "gs_deliver now s item = Some (s', ev) \<Longrightarrow> canvas_ok s \<Longrightarrow> canvas_ok s'"
  by (cases item)
     (auto simp: gs_deliver_def gs_OnVideoPayload_def OnTelemetryPayload_def OnTunnelPayload_def bind_eq_Some_conv
       split: if_split_asm dest!: osd_Push_canvas)

lemma deliver_run_canvas: "run_steps (gs_deliver now) s items = Some (s', ev) \<Longrightarrow> canvas_ok s \<Longrightarrow> canvas_ok s'"
proof (induction items arbitrary: s ev)
  case (Cons item items)
  then obtain s1 o1 o2 where "gs_deliver now s item = Some (s1, o1)" "run_steps (gs_deliver now) s1 items = Some (s', o2)"
    by (auto simp: bind_eq_Some_conv)
  with deliver_canvas Cons.IH Cons.prems(2) show ?case by blast
qed simp

lemma Start_osd:
  assumes "gs_Start env s config usb_fd cbs = (s', ev, ok)"
  shows "ms_frame (gs_osd s') = ms_frame (gs_osd s)"
proof (cases "gs_running s")
  case True
  with assms show ?thesis by (simp add: gs_Start_def)
next
  case False
  obtain s3 ev3 where p: "prepare_start env s config cbs = (s3, ev3)" by force
  then have "ms_frame (gs_osd s3) = ms_frame (gs_osd s)"
    by (auto simp: prepare_start_def open_mirror_def osd_set_callback_def Let_def split: if_splits option.splits prod.splits)
  with assms False p show ?thesis
    by (auto simp: gs_Start_def abort_start_def SetError_def Let_def split: option.splits prod.splits)
qed

lemma route_osd: "gs_osd (fst (route_actions ops s acts)) = gs_osd s"
  by (induction acts arbitrary: s) (simp_all add: Let_def split_def SendUplink_state split: router_action.split)

lemma poll_osd:
  assumes "gs_poll net ops s result = Some (s', ev)"
  shows "gs_osd s' = gs_osd s"
proof -
  obtain m acts where "route_actions ops (s\<lparr>gs_mavlink := m\<rparr>) acts = (s', ev)"
    using assms by (auto simp: gs_poll_def split: Option.bind_splits)
  with route_osd [of ops "s\<lparr>gs_mavlink := m\<rparr>" acts] show ?thesis by simp
qed

lemma stats_iteration_osd:
  assumes "stats_iteration aops uops (s, n) (now0, now, draws) = Some ((s', n'), ev)"
  shows "gs_osd s' = gs_osd s"
  using assms
  by (auto simp: stats_iteration_def Let_def split_def prod_eq_iff SendUplink_state split: option.split_asm if_split_asm Option.bind_split_asm)

lemma reachable_canvas: "gs_reach s \<Longrightarrow> canvas_ok s"
proof (induction rule: gs_reach.induct)
  case gs_init
  show ?case by (simp add: ground_station_init_def msp_decoder_init_def SetCanvas_def known_canvas_def canvas_size_defs)
next
  case (gs_start s env config usb_fd cbs s' ev ok)
  then show ?case using Start_osd by metis
next
  case (gs_stop s)
  then show ?case by (auto simp: gs_Stop_def Let_def split: option.splits prod.splits)
next
  case (gs_frame s ops now input s' ev)
  from gs_frame(2) obtain r items where "run_steps (gs_deliver now) (s\<lparr>gs_receiver := Some r\<rparr>) items = Some (s', ev)"
    by (auto simp: gs_OnFrame_def split: option.splits Option.bind_splits)
  from deliver_run_canvas [OF this] gs_frame(3) show ?case by simp
next
  case (gs_datagram s data s' ev)
  then show ?case by (auto simp: gs_OnVideoPayload_def split: Option.bind_splits)
next
  case (gs_route s net result uops s' ev)
  then show ?case by (simp add: poll_osd)
next
  case (gs_statistics s aops uops n input s' n' ev)
  obtain now0 now draws where "input = (now0, now, draws)" using prod_cases3 by blast
  with gs_statistics stats_iteration_osd [of aops uops s n now0 now draws s' n' ev] show ?case by simp
next
  case (gs_alink s aconfig)
  then show ?case by (simp add: SetAlinkConfig_def Let_def split: option.split)
next
  case (gs_channel s uops channel bw)
  then show ?case by (simp add: gs_SetChannel_def Let_def split_def split: option.split)
qed (simp_all add: SetMavlinkEndpoints_def SetVideoCodec_def)

subsection \<open>Events\<close>

definition snapshot_wf :: "link_snapshot \<Rightarrow> bool" where
  "snapshot_wf sn \<longleftrightarrow> list_all fits_int32 [ls_best_rssi sn, ls_best_snr sn, ls_fec_k sn, ls_fec_n sn, ls_num_antennas sn]"

fun event_wf :: "gs_event \<Rightarrow> bool" where
  "event_wf (VideoNal data) \<longleftrightarrow> take 4 data = kStartCode \<and> 4 < length data"
| "event_wf (OsdShown frame) \<longleftrightarrow> frame_wf frame \<and> known_canvas frame"
| "event_wf (StatsShown sn t) \<longleftrightarrow> snapshot_wf sn"
| "event_wf _ \<longleftrightarrow> True"

lemma fits_int32_words:
  "fits_int32 (sint (w :: u32))" "fits_int32 (uint (b :: u8))"
  using sint_ge [of w] sint_lt [of w] uint_lt2p [of b] order_trans [OF _ uint_ge_0, of "- (2 ^ 31)" b]
  by (simp_all add: fits_int32_def)

lemma jint_of_fits: "fits_int32 (jint_of w)"
  by (simp add: jint_of_def fits_int32_words)

lemma stats_ints_wf: "snapshot_wf sn \<Longrightarrow> list_all fits_int32 (stats_ints sn t)"
  by (simp add: stats_ints_list snapshot_wf_def jint_of_def fits_int32_words) (simp add: fits_int32_def)

lemma call_jvm_wf: "event_wf ev \<Longrightarrow> list_all call_wf (call_jvm vm session ev)"
proof (cases ev)
  case (OsdShown frame)
  assume "event_wf ev"
  with OsdShown have "frame_wf frame" "fits_int32 (of_rows frame)" "fits_int32 (of_cols frame)" "fits_int32 (of_rows frame * of_cols frame)"
    by (auto simp: known_canvas_def canvas_size_defs fits_int32_def)
  moreover have "uint (oc_glyph c) < 65536" "uint (oc_attributes c) < 256" for c
    using uint_lt2p [of "oc_glyph c"] uint_lt2p [of "oc_attributes c"] by simp_all
  ultimately show ?thesis
    by (auto simp: OsdShown call_jvm_def osd_arrays_def Let_def frame_wf_def list_all_iff)
next
  case (StatsShown sn t)
  assume "event_wf ev"
  with StatsShown stats_ints_wf [of sn t] show ?thesis
    by (simp add: call_jvm_def Let_def) (simp add: stats_ints_list stats_floats_list)
qed (simp_all add: call_jvm_def jint_of_fits jint_of_length Let_def)

lemma calls_wf: "list_all event_wf evs \<Longrightarrow> list_all call_wf (concat (map (call_jvm vm session) evs))"
  by (induction evs) (simp_all add: call_jvm_wf)

subsection \<open>Events of the data path\<close>

lemma video_sinks_wf: "list_all annexb nals \<Longrightarrow> list_all event_wf (concat (map (video_sinks s) nals))"
  by (induction nals) (simp_all add: video_sinks_def annexb_def)

lemma osd_sinks_wf: "list_all frame_wf frames \<Longrightarrow> list_all known_canvas frames \<Longrightarrow> list_all event_wf (concat (map (osd_sinks s) frames))"
  by (induction frames) (simp_all add: osd_sinks_def)

lemma Routed_wf: "list_all event_wf (map Routed acts)"
  by (induction acts) simp_all

lemma osd_Push_wf: "osd_inv d \<Longrightarrow> osd_Push d data = Some (d', frames) \<Longrightarrow> list_all frame_wf frames"
  using msp.run_good [of d data] by (auto simp: osd_Push_def)

lemma deliver_wf:
  assumes "parts_inv s" and "gs_deliver now s item = Some (s', ev)" and "canvas_ok s"
  shows "list_all event_wf ev"
proof -
  obtain port data where item: "item = (port, data)" by force
  have osd: "osd_inv (gs_osd s)" using assms(1) by (simp add: parts_inv_def)
  consider "port = kPortVideo" | "port = kPortMavlinkRx" | "port = kPortTunnelRx"
    | "port \<notin> {kPortVideo, kPortMavlinkRx, kPortTunnelRx}" by blast
  then show ?thesis
  proof cases
    case 1
    from video_payload_ok [OF assms(1), of data] obtain d nals where
      v: "OnVideoPayload (gs_depacketizer s) data = Some (d, nals)"
      "gs_OnVideoPayload s data = Some (s\<lparr>gs_depacketizer := d\<rparr>, concat (map (video_sinks s) nals))" by blast
    have "list_all annexb nals" using rtp.step_good [OF _ v(1)] assms(1) by (simp add: parts_inv_def)
    with 1 v(2) assms(2) video_sinks_wf [of nals s] show ?thesis by (simp add: item gs_deliver_def)
  next
    case 2
    from telemetry_payload_ok [OF assms(1), of now data] obtain m d frames acts where
      f: "osd_Push (gs_osd s) data = Some (d, frames)" "OnTelemetryPayload s now data =
        Some (s\<lparr>gs_mavlink := m, gs_osd := d\<rparr>, map Routed acts @ concat (map (osd_sinks s) frames))" by blast
    with 2 assms(2) osd_sinks_wf [OF osd_Push_wf [OF osd f(1)] conjunct2 [OF osd_Push_canvas [OF f(1) assms(3)]], of s] Routed_wf [of acts] show ?thesis
      by (auto simp: item gs_deliver_def port_defs)
  next
    case 3
    from tunnel_payload_ok [OF assms(1), of data] obtain d frames where
      f: "osd_Push (gs_osd s) data = Some (d, frames)" "OnTunnelPayload s data =
        Some (s\<lparr>gs_osd := d\<rparr>, concat (map (osd_sinks s) frames))" by blast
    with 3 assms(2) osd_sinks_wf [OF osd_Push_wf [OF osd f(1)] conjunct2 [OF osd_Push_canvas [OF f(1) assms(3)]], of s] show ?thesis
      by (simp add: item gs_deliver_def port_defs)
  next
    case 4
    with assms(2) show ?thesis by (simp add: item gs_deliver_def)
  qed
qed

interpretation deliver_events: checked_emitter "gs_deliver now" "\<lambda>s. parts_inv s \<and> canvas_ok s" event_wf for now
proof
  fix s item
  assume "parts_inv s \<and> canvas_ok s"
  with deliver.step_safe [of s now item] deliver_canvas show "\<exists>s' os. gs_deliver now s item = Some (s', os) \<and> parts_inv s' \<and> canvas_ok s'"
    by blast
qed (blast intro: deliver_wf)

lemma OnFrame_wf:
  assumes "parts_inv s" and "canvas_ok s" and "gs_OnFrame ops now s input = Some (s', ev)"
  shows "list_all event_wf ev"
proof -
  obtain r' items where r: "run_steps (gs_deliver now) (s\<lparr>gs_receiver := Some r'\<rparr>) items = Some (s', ev)"
    using assms(3) by (auto simp: gs_OnFrame_def split: option.splits Option.bind_splits)
  have "parts_inv (s\<lparr>gs_receiver := Some r'\<rparr>) \<and> canvas_ok (s\<lparr>gs_receiver := Some r'\<rparr>)" using assms(1,2) by (simp add: parts_inv_def)
  from deliver_events.run_good [OF this, of now items] r show ?thesis by auto
qed

subsection \<open>Events of the statistics thread\<close>

lemma snapshot_of_wf:
  assumes "four_paths receiver"
  shows "snapshot_wf (snapshot_of ops receiver now)"
proof (cases receiver)
  case None
  then show ?thesis by (simp add: snapshot_of_def snapshot_wf_def link_snapshot_default_def fits_int32_def)
next
  case (Some r)
  obtain ants rssi snr n where l: "snapshot_loop (wr_paths r) ([], - 105, 0, 0) = (ants, rssi, snr, n)" using prod_cases4 by blast
  from snapshot_loop_bounds [OF l] assms Some have "fits_int32 rssi" "fits_int32 snr" "fits_int32 n" "fits_int32 (- 1)"
    by (simp_all add: fits_int32_def four_paths_def)
  with l Some show ?thesis
    by (simp add: snapshot_of_def TakeSnapshot_def snapshot_wf_def link_snapshot_default_def Let_def split: option.split)
qed

lemma injects_wf: "injects e \<Longrightarrow> event_wf e"
  by (cases e) (simp_all add: injects_def)

lemma injects_no_call: "list_all injects sent \<Longrightarrow> concat (map (call_jvm vm session) sent) = []"
  by (induction sent) (auto simp: injects_def call_jvm_def Let_def split: gs_event.splits)

lemma stats_iteration_wf:
  assumes "four_paths (gs_receiver s)" and "stats_iteration aops uops (s, n) (now0, now, draws) = Some ((s', n'), ev)"
  shows "list_all event_wf ev"
proof -
  have "list_all event_wf (shown_stats aops s now0)"
    using snapshot_of_wf [OF assms(1)] by (simp add: shown_stats_def)
  with stats_iteration_events [OF assms(2)] show ?thesis by (auto simp: list_all_iff injects_wf)
qed

subsection \<open>Properties\<close>

text \<open>
  C17: every call into the JVM is well typed. In every state the station can reach, a received frame, a datagram and a
  round of the statistics thread call the listener only with NAL units that start with the Annex-B code and are announced
  with a \<open>jint\<close> that is their length if they are shorter than \<open>2 ^ 31\<close> bytes, with screens whose dimensions fit a \<open>jint\<close>
  and whose two arrays have one entry in range per cell, and with statistics arrays of the agreed lengths whose integers
  fit a \<open>jint\<close>.
\<close>

theorem jni_calls_well_typed:
  assumes "gs_reach (jn_station session)"
  shows "(\<forall>s' ev. gs_OnFrame ops now (jn_station session) frame = Some (s', ev)
        \<longrightarrow> list_all call_wf (concat (map (call_jvm vm session) ev)))
    \<and> (\<forall>s' ev. gs_OnVideoPayload (jn_station session) data = Some (s', ev)
        \<longrightarrow> list_all call_wf (concat (map (call_jvm vm session) ev)))
    \<and> (\<forall>s' n' ev. stats_iteration aops uops (jn_station session, n) clocks = Some ((s', n'), ev)
        \<longrightarrow> list_all call_wf (concat (map (call_jvm vm session) ev)))"
proof (intro conjI allI impI)
  let ?s = "jn_station session"
  have inv: "parts_inv ?s" "canvas_ok ?s" using gs_reachable_inv [OF assms] reachable_canvas [OF assms] by blast+
  show "list_all call_wf (concat (map (call_jvm vm session) ev))" if "gs_OnFrame ops now ?s frame = Some (s', ev)" for s' ev
    by (rule calls_wf [OF OnFrame_wf [OF inv that]])
  show "list_all call_wf (concat (map (call_jvm vm session) ev))" if "gs_OnVideoPayload ?s data = Some (s', ev)" for s' ev
    by (rule calls_wf [OF deliver_wf [OF inv(1) _ inv(2), of _ "(kPortVideo, data)"]]) (simp add: gs_deliver_def that)
  obtain now0 now1 draws where "clocks = (now0, now1, draws)" using prod_cases3 by blast
  with stats_iteration_wf [OF reachable_paths [OF assms]]
  show "list_all call_wf (concat (map (call_jvm vm session) ev))"
    if "stats_iteration aops uops (?s, n) clocks = Some ((s', n'), ev)" for s' n' ev
    using that by (blast intro: calls_wf)
qed

definition example_session :: "(nat, nat) session" where
  "example_session = \<lparr>jn_station = example_station, jn_listener = Some 1, jn_methods = sa_methods sample_args\<rparr>"

lemma example_round_calls:
  "\<exists>s' ev ints floats. stats_iteration plain_aggregator working_usb (example_station, 0) (1000, 1000, [0, 0, 0, 0]) = Some ((s', 1100), ev)
    \<and> concat (map (call_jvm plain_jvm example_session) ev) = [OnStats ints floats]"
proof -
  obtain s' ev sent where st: "stats_iteration plain_aggregator working_usb (example_station, 0) (1000, 1000, [0, 0, 0, 0]) = Some ((s', 1100), ev)"
      "ev = shown_stats plain_aggregator example_station 1000 @ sent" "list_all injects sent"
    using example_round by blast
  have "\<exists>ints floats. concat (map (call_jvm plain_jvm example_session) ev) = [OnStats ints floats]"
    by (simp add: st(2) shown_stats_def example_fields(1,2) all_callbacks_def injects_no_call [OF st(3)])
       (simp add: call_jvm_def ScopedEnv_def plain_jvm_def example_session_def sample_args_def JNI_OK_def JNI_EDETACHED_def)
  with st(1) show ?thesis by blast
qed

theorem jni_calls_well_typed_witness:
  "\<exists>s' ev ints floats. stats_iteration plain_aggregator working_usb (example_station, 0) (1000, 1000, [0, 0, 0, 0]) = Some ((s', 1100), ev)
    \<and> concat (map (call_jvm plain_jvm example_session) ev) = [OnStats ints floats] \<and> call_wf (OnStats ints floats)"
proof -
  obtain s' ev ints floats where
    st: "stats_iteration plain_aggregator working_usb (example_station, 0) (1000, 1000, [0, 0, 0, 0]) = Some ((s', 1100), ev)"
      "concat (map (call_jvm plain_jvm example_session) ev) = [OnStats ints floats]"
    using example_round_calls by blast
  have "gs_reach (jn_station example_session)" by (simp add: example_session_def station_reach)
  from jni_calls_well_typed [OF this, where vm = plain_jvm and aops = plain_aggregator and uops = working_usb and n = 0
      and clocks = "(1000, 1000, [0, 0, 0, 0])"] st
  have "list_all call_wf [OnStats ints floats]" by (simp add: example_session_def)
  with st show ?thesis by (simp del: call_wf.simps)
qed

end
