(* ===== verification/Router_Loop.thy ===== *)
theory Router_Loop
  imports Mavlink_Router
begin

section \<open>The router's thread\<close>

text \<open>
  \<open>PollLoop\<close> of \<open>core/src/mavlink/router.cpp\<close> as a whole, with the calls other threads make while it runs. One round is a
  test of \<open>running_\<close>, the rebuilding of the endpoints, the wait in \<open>poll\<close> and the handling of what it reported. Other
  threads may call \<open>SetEndpoints\<close>, \<open>FeedDownlink\<close> and \<open>Stop\<close> before the test and, because the mutex is released, during
  the wait: the polled descriptors were collected before those calls and are handled after them. A call between the test
  and the rebuilding has the effect it would have before the test or during the wait.

  \<open>Stop\<close> is in two parts here. The first clears \<open>running_\<close> (and wakes the thread); then it waits for the thread; the
  second closes the pipe and the endpoints. Between the two the loop must come to its end: that is the theorem of this
  theory.
\<close>

subsection \<open>Calls of other threads\<close>

datatype router_call =
    CallSetEndpoints "mavlink_endpoint list"
  | CallFeedDownlink u64 bytes
  | CallStop

text \<open>
  \<open>Stop\<close> up to the wait for the thread, and after it. The byte the first part writes to the wake pipe is no state of the
  router: what it does is to make the pipe readable, and \<open>poll\<close> may report that (\<open>Poll_woken\<close>) in any round of the model,
  whether or not a byte was written. The theorems hold for every report, so none of them relies on the wake-up.
\<close>

definition request_stop :: "router \<Rightarrow> router" where
  "request_stop r = r\<lparr>rt_running := False\<rparr>"

definition finish_stop :: "router \<Rightarrow> router \<times> router_action list" where
  "finish_stop r =
     (let fds = filter (\<lambda>fd. fd \<ge> 0) (rt_wake_pipe r);
          r1 = r\<lparr>rt_wake_pipe := map (\<lambda>fd. if fd \<ge> 0 then - 1 else fd) (rt_wake_pipe r),
                 rt_open := filter (\<lambda>fd. fd \<notin> set fds) (rt_open r)\<rparr>;
          (r2, acts) = CloseEndpoints r1
      in (r2, map CloseFd fds @ acts))"

fun other_call :: "router \<Rightarrow> router_call \<Rightarrow> (router \<times> router_action list) option" where
  "other_call r (CallSetEndpoints endpoints) = Some (router_SetEndpoints r endpoints, [])"
| "other_call r (CallFeedDownlink now data) = FeedDownlink r now data"
| "other_call r CallStop = Some (request_stop r, [])"

subsection \<open>The loop\<close>

record poll_round =
  pr_before :: "router_call list"
  pr_network :: network
  pr_during :: "router_call list"
  pr_result :: poll_result

text \<open>What follows \<open>poll\<close>; \<open>slots\<close> were collected before it. The last component tells whether the loop goes on.\<close>

definition after_poll :: "router \<Rightarrow> slot list \<Rightarrow> poll_result \<Rightarrow> (router \<times> router_action list \<times> bool) option" where
  "after_poll r slots result =
     (case result of
        Poll_interrupted \<Rightarrow> Some (r, [], True)
      | Poll_failed \<Rightarrow> Some (r, [], False)
      | _ \<Rightarrow>
        if \<not> rt_running r then Some (r, [], False)
        else case result of
          Poll_events events \<Rightarrow> do {
            (r1, to_close, acts) \<leftarrow> handle_slots r (zip slots events);
            let (r2, acts') = close_clients r1 to_close;
            Some (r2, acts @ acts', True)
          }
        | _ \<Rightarrow> Some (r, [], True))"

definition loop_body :: "router \<Rightarrow> poll_round \<Rightarrow> (router \<times> router_action list \<times> bool) option" where
  "loop_body r rd = do {
     let (r1, shut) = RebuildEndpoints (pr_network rd) r;
     let slots = build_slots (rt_endpoints r1);
     (r2, sent) \<leftarrow> run_steps other_call r1 (pr_during rd);
     (r3, acts, continues) \<leftarrow> after_poll r2 slots (pr_result rd);
     Some (r3, shut @ sent @ acts, continues)
   }"

text \<open>
  The loop over the rounds the outside provides. The last component is \<open>None\<close> while the loop has not returned when the
  rounds are used up, and otherwise the rounds left when it returned.
\<close>

fun PollLoop :: "router \<Rightarrow> poll_round list \<Rightarrow> (router \<times> router_action list \<times> poll_round list option) option" where
  "PollLoop r [] = Some (r, [], None)"
| "PollLoop r (rd # rds) = do {
     (r0, a0) \<leftarrow> run_steps other_call r (pr_before rd);
     if \<not> rt_running r0 then Some (r0, a0, Some rds)
     else do {
       (r1, a1, continues) \<leftarrow> loop_body r0 rd;
       if \<not> continues then Some (r1, a0 @ a1, Some rds)
       else do {
         (r2, a2, left) \<leftarrow> PollLoop r1 rds;
         Some (r2, a0 @ a1 @ a2, left)
       }
     }
   }"

text \<open>What the operating system guarantees of new descriptors, along the run.\<close>

fun fresh_rounds :: "router \<Rightarrow> poll_round list \<Rightarrow> bool" where
  "fresh_rounds r [] = True"
| "fresh_rounds r (rd # rds) =
     (case run_steps other_call r (pr_before rd) of
        None \<Rightarrow> True
      | Some (r0, a0) \<Rightarrow> rt_running r0 \<longrightarrow>
          fresh_sockets (pr_network rd) r0 \<and> fresh_accepts (pr_network rd) r0 (pr_result rd)
          \<and> (case loop_body r0 rd of Some (r1, a1, True) \<Rightarrow> fresh_rounds r1 rds | _ \<Rightarrow> True))"

subsection \<open>The parts of the coarser model\<close>

text \<open>Without calls during the wait a round is an iteration of the atomic model, and the two parts of \<open>Stop\<close> are \<open>Stop\<close>.\<close>

lemma loop_body_atomic: "pr_during rd = [] \<Longrightarrow> loop_body r rd = poll_iteration (pr_network rd) r (pr_result rd)"
  by (cases "pr_result rd")
     (auto simp: loop_body_def after_poll_def poll_iteration_def Let_def split_def Option.bind_assoc intro!: Option.bind_cong)

lemma Stop_parts: "router_Stop r = (if rt_running r then finish_stop (request_stop r) else (r, []))"
  by (simp add: router_Stop_def finish_stop_def request_stop_def Let_def)

subsection \<open>The loop keeps the invariant and returns\<close>

definition loop_inv :: "router \<Rightarrow> bool" where
  "loop_inv r \<longleftrightarrow> router_inv r \<and> armed_inv (rt_telemetry r)"

lemma other_call_ok:
  assumes "loop_inv r"
  shows "\<exists>r' acts. other_call r c = Some (r', acts) \<and> loop_inv r' \<and> list_all whole_uplink acts
    \<and> rt_endpoints r' = rt_endpoints r \<and> rt_open r' = rt_open r \<and> rt_running r' = (rt_running r \<and> c \<noteq> CallStop)"
proof (cases c)
  case (CallFeedDownlink now data)
  with FeedDownlink_ok [of r now data] assms show ?thesis
    by (auto simp: loop_inv_def FeedDownlink_def endpoint_sends_def whole_uplink_def list_all_iff bind_eq_Some_conv)
next
  case (CallSetEndpoints endpoints)
  with assms show ?thesis
    by (simp add: loop_inv_def router_SetEndpoints_def router_inv_def framers_inv_def fds_inv_def held_def pipe_fds_def)
next
  case CallStop
  with assms show ?thesis
    by (simp add: loop_inv_def request_stop_def router_inv_def framers_inv_def fds_inv_def held_def pipe_fds_def)
qed

lemma other_calls_ok:
  assumes "loop_inv r"
  shows "\<exists>r' acts. run_steps other_call r cs = Some (r', acts) \<and> loop_inv r' \<and> list_all whole_uplink acts
    \<and> rt_endpoints r' = rt_endpoints r \<and> rt_open r' = rt_open r \<and> rt_running r' = (rt_running r \<and> CallStop \<notin> set cs)"
  using assms
proof (induction cs arbitrary: r)
  case (Cons c cs)
  from other_call_ok [OF Cons.prems, of c] obtain r1 a1 where "other_call r c = Some (r1, a1)" "loop_inv r1"
      "list_all whole_uplink a1" "rt_endpoints r1 = rt_endpoints r" "rt_open r1 = rt_open r"
      "rt_running r1 = (rt_running r \<and> c \<noteq> CallStop)" by auto
  with Cons.IH [of r1] show ?case by auto
qed simp

lemma handle_events_ok:
  assumes "loop_inv r" and "distinct (accepted_fds events)" and "set (accepted_fds events) \<inter> set (rt_open r) = {}"
  shows "\<exists>r' fds acts. handle_slots r (zip slots events) = Some (r', fds, acts) \<and> loop_inv r' \<and> list_all whole_uplink acts
    \<and> rt_running r' = rt_running r"
proof -
  have "accepted_fds events = accepted_fds (take (length slots) events) @ accepted_fds (drop (length slots) events)"
    by (metis accepted_fds_append append_take_drop_id)
  moreover have "map snd (zip slots events) = take (length slots) events" by (simp add: map_snd_zip_take min_def)
  ultimately have "distinct (accepted_fds (map snd (zip slots events)))"
      "set (accepted_fds (map snd (zip slots events))) \<inter> set (rt_open r) = {}" using assms(2,3) by auto
  with handle_slots_inv [of r "zip slots events"] assms(1) obtain r' fds acts where
    h: "handle_slots r (zip slots events) = Some (r', fds, acts)" "router_inv r'" "list_all whole_uplink acts"
    by (auto simp: loop_inv_def)
  with handle_slots_frame [OF h(1)] assms(1) show ?thesis by (simp add: loop_inv_def)
qed

lemma after_poll_ok:
  assumes "loop_inv r" and "\<And>events. result = Poll_events events \<Longrightarrow>
      distinct (accepted_fds events) \<and> set (accepted_fds events) \<inter> set (rt_open r) = {}"
  shows "\<exists>r' acts continues. after_poll r slots result = Some (r', acts, continues) \<and> loop_inv r'
    \<and> list_all whole_uplink acts \<and> rt_running r' = rt_running r"
proof (cases "\<exists>events. result = Poll_events events \<and> rt_running r")
  case True
  then obtain events where ev: "result = Poll_events events" "rt_running r" by blast
  from handle_events_ok [OF assms(1), of events slots] assms(2) [OF ev(1)] obtain r1 fds acts where
    h: "handle_slots r (zip slots events) = Some (r1, fds, acts)" "loop_inv r1" "list_all whole_uplink acts" "rt_running r1 = rt_running r"
    by auto
  with ev close_clients_inv [of r1 fds] close_clients_frame [of r1 fds] show ?thesis
    by (auto simp: after_poll_def loop_inv_def split_def Let_def)
qed (use assms in \<open>cases result; auto simp: after_poll_def\<close>)

lemma loop_body_ok:
  assumes "loop_inv r" and "fresh_sockets (pr_network rd) r" and "fresh_accepts (pr_network rd) r (pr_result rd)"
  shows "\<exists>r' acts continues. loop_body r rd = Some (r', acts, continues) \<and> loop_inv r' \<and> list_all whole_uplink acts
    \<and> rt_running r' = (rt_running r \<and> CallStop \<notin> set (pr_during rd))"
proof -
  obtain r1 shut where reb: "RebuildEndpoints (pr_network rd) r = (r1, shut)" by force
  have r1: "loop_inv r1" "list_all whole_uplink shut" "rt_running r1 = rt_running r"
    using Rebuild_inv [OF _ assms(2) reb] Rebuild_frame [of "pr_network rd" r] reb assms(1) by (auto simp: loop_inv_def list_all_iff)
  from other_calls_ok [OF r1(1)] obtain r2 sent where
    r2: "run_steps other_call r1 (pr_during rd) = Some (r2, sent)" "loop_inv r2" "list_all whole_uplink sent"
      "rt_open r2 = rt_open r1" "rt_running r2 = (rt_running r1 \<and> CallStop \<notin> set (pr_during rd))" by blast
  have acc: "distinct (accepted_fds events) \<and> set (accepted_fds events) \<inter> set (rt_open r2) = {}" if "pr_result rd = Poll_events events" for events
    using assms(3) that reb r2(4) by (simp add: fresh_accepts_def)
  from after_poll_ok [OF r2(2), of "pr_result rd" "build_slots (rt_endpoints r1)"] acc obtain r3 acts continues where
    "after_poll r2 (build_slots (rt_endpoints r1)) (pr_result rd) = Some (r3, acts, continues)" "loop_inv r3"
    "list_all whole_uplink acts" "rt_running r3 = rt_running r2" by blast
  with reb r1 r2 show ?thesis by (simp add: loop_body_def)
qed

text \<open>A loop whose flag is cleared returns at the next test.\<close>

lemma PollLoop_stopped:
  assumes "loop_inv r" and "\<not> rt_running r" and "rds \<noteq> []"
  shows "\<exists>r' acts. PollLoop r rds = Some (r', acts, Some (tl rds)) \<and> loop_inv r' \<and> list_all whole_uplink acts"
proof (cases rds)
  case (Cons rd rest)
  with other_calls_ok [OF assms(1), of "pr_before rd"] assms(2) show ?thesis by auto
qed (use assms(3) in simp)

lemma PollLoop_returns:
  assumes "loop_inv r" and "fresh_rounds r rds" and "i + 1 < length rds"
    and "CallStop \<in> set (pr_before (rds ! i)) \<union> set (pr_during (rds ! i))"
  shows "\<exists>r' acts k. PollLoop r rds = Some (r', acts, Some (drop k rds)) \<and> k \<le> i + 2 \<and> loop_inv r' \<and> list_all whole_uplink acts"
  using assms
proof (induction rds arbitrary: r i)
  case (Cons rd rds)
  from other_calls_ok [OF Cons.prems(1), of "pr_before rd"] obtain r0 a0 where
    r0: "run_steps other_call r (pr_before rd) = Some (r0, a0)" "loop_inv r0" "list_all whole_uplink a0"
      "rt_running r0 = (rt_running r \<and> CallStop \<notin> set (pr_before rd))" by blast
  show ?case
  proof (cases "rt_running r0")
    case False
    with r0 show ?thesis by (intro exI [of _ r0] exI [of _ a0] exI [of _ 1]) simp
  next
    case True
    with Cons.prems(2) r0(1) have fresh: "fresh_sockets (pr_network rd) r0" "fresh_accepts (pr_network rd) r0 (pr_result rd)"
      by simp_all
    from loop_body_ok [OF r0(2) fresh] obtain r1 a1 c where
      r1: "loop_body r0 rd = Some (r1, a1, c)" "loop_inv r1" "list_all whole_uplink a1"
        "rt_running r1 = (rt_running r0 \<and> CallStop \<notin> set (pr_during rd))" by blast
    have ne: "rds \<noteq> []" using Cons.prems(3) by auto
    show ?thesis
    proof (cases c)
      case False
      with r0 r1 True show ?thesis by (intro exI [of _ r1] exI [of _ "a0 @ a1"] exI [of _ 1]) simp
    next
      case c: True
      have "\<exists>r' acts k. PollLoop r1 rds = Some (r', acts, Some (drop k rds)) \<and> k \<le> i + 1 \<and> loop_inv r' \<and> list_all whole_uplink acts"
      proof (cases i)
        case 0
        with Cons.prems(4) r0(4) r1(4) True have "\<not> rt_running r1" by auto
        from PollLoop_stopped [OF r1(2) this ne] 0 show ?thesis by (metis add.commute drop_Suc drop_0 le_refl plus_1_eq_Suc One_nat_def)
      next
        case (Suc j)
        have "fresh_rounds r1 rds" using Cons.prems(2) r0(1) r1(1) True c by simp
        from Cons.IH [OF r1(2) this, of j] Cons.prems(3,4) Suc show ?thesis by auto
      qed
      then obtain r' acts k where "PollLoop r1 rds = Some (r', acts, Some (drop k rds))" "k \<le> i + 1" "loop_inv r'" "list_all whole_uplink acts"
        by blast
      with r0 r1 True c show ?thesis by (intro exI [of _ r'] exI [of _ "a0 @ a1 @ acts"] exI [of _ "Suc k"]) simp
    qed
  qed
qed simp

lemma finish_releases:
  assumes "loop_inv r"
  shows "\<exists>r' fds. finish_stop r = (r', map CloseFd fds) \<and> mset fds = mset (rt_open r) \<and> distinct fds \<and> rt_open r' = []"
proof -
  have "router_inv (r\<lparr>rt_running := True\<rparr>)"
    using assms by (simp add: loop_inv_def router_inv_def framers_inv_def fds_inv_def held_def pipe_fds_def)
  from Stop_releases [OF this] obtain r' fds where
    "finish_stop (request_stop (r\<lparr>rt_running := True\<rparr>)) = (r', map CloseFd fds)" "mset fds = mset (rt_open r)" "distinct fds" "rt_open r' = []"
    by (auto simp: Stop_parts)
  then show ?thesis by (auto simp: finish_stop_def request_stop_def CloseEndpoints_def clear_endpoints_def Let_def)
qed

subsection \<open>Properties\<close>

text \<open>
  C13: stopping the router ends its thread. If another thread calls \<open>Stop\<close> before or during the wait of round \<open>i\<close>, under any
  interleaving with \<open>SetEndpoints\<close> and \<open>FeedDownlink\<close> and whatever \<open>poll\<close> reports, the poll loop returns without a fault
  after at most that wait (its last test of the flag belongs to the next round), has sent up whole frames only, and the
  rest of \<open>Stop\<close> then closes every open descriptor exactly once.
\<close>

theorem router_Stop_ends_loop:
  assumes "router_reach r" and "fresh_rounds r rds" and "i + 1 < length rds"
    and "CallStop \<in> set (pr_before (rds ! i)) \<union> set (pr_during (rds ! i))"
  shows "\<exists>r' acts k r'' fds. PollLoop r rds = Some (r', acts, Some (drop k rds)) \<and> k \<le> i + 2 \<and> list_all whole_uplink acts
    \<and> finish_stop r' = (r'', map CloseFd fds) \<and> mset fds = mset (rt_open r') \<and> distinct fds \<and> rt_open r'' = []"
proof -
  have "loop_inv r" using reachable_inv [OF assms(1)] by (simp add: loop_inv_def reach_inv_def)
  from PollLoop_returns [OF this assms(2-4)] finish_releases show ?thesis by metis
qed

definition stop_rounds :: "poll_round list" where
  "stop_rounds =
     [\<lparr>pr_before = [CallSetEndpoints [mavlink_endpoint_default]], pr_network = quiet_network,
       pr_during = [CallFeedDownlink 5 [1, 2, 3], CallStop], pr_result = Poll_interrupted\<rparr>,
      \<lparr>pr_before = [], pr_network = quiet_network, pr_during = [], pr_result = Poll_timeout\<rparr>]"

theorem router_Stop_ends_loop_witness:
  "\<exists>r' acts k r'' fds. PollLoop (fst (router_Start router_init (Some (3, 4)))) stop_rounds = Some (r', acts, Some (drop k stop_rounds))
    \<and> k \<le> 2 \<and> finish_stop r' = (r'', map CloseFd fds) \<and> rt_open r'' = []"
proof -
  let ?r = "fst (router_Start router_init (Some (3, 4)))"
  have "fresh_pipe router_init (Some (3, 4))" by (simp add: fresh_pipe_def router_init_def)
  then have reach: "router_reach ?r" by (intro reach_Start reach_init)
  have fresh: "fresh_rounds ?r stop_rounds"
    by code_simp
  have "0 + 1 < length stop_rounds" "CallStop \<in> set (pr_before (stop_rounds ! 0)) \<union> set (pr_during (stop_rounds ! 0))"
    by (simp_all add: stop_rounds_def)
  from router_Stop_ends_loop [OF reach fresh this] show ?thesis unfolding add_0 by blast
qed

end
