(* ===== verification/Station_Threads.thy ===== *)
theory Station_Threads
  imports Ground_Station Router_Loop
begin

section \<open>The threads of a station at its end\<close>

text \<open>
  \<open>Ground_Station\<close> takes each operation of the station as one atomic step. The members \<open>source_\<close> and \<open>alink_\<close> are not
  protected by a mutex, though: \<open>SendUplink\<close> tests \<open>source_\<close> and later calls through it, the statistics thread tests
  \<open>alink_\<close> and later calls through it, while the owner of the station may reset them in \<open>Stop\<close> and in
  \<open>SetAlinkConfig\<close>. This theory splits those operations where the code does and lets the owner, the statistics thread and
  the router thread take turns. A call through an empty pointer is a fault.

  What is shown: \<open>Stop\<close> is the sequence of its parts; the statistics thread is safe from \<open>Stop\<close>, which joins it before
  it touches the source; the router thread is not, since it is stopped after the source is gone; and the statistics
  thread is not safe from \<open>SetAlinkConfig\<close>.
\<close>

subsection \<open>The uplink in two parts\<close>

definition uplink_ready :: "('a, 'd) ground_station \<Rightarrow> bool" where
  "uplink_ready s \<longleftrightarrow> gs_source s \<noteq> None \<and> gc_source (gs_config s) = kDevourer"

definition uplink_transmit ::
  "'d usb_ops \<Rightarrow> ('a, 'd) ground_station \<Rightarrow> u8 \<Rightarrow> bytes \<Rightarrow> (('a, 'd) ground_station \<times> gs_event list) option" where
  "uplink_transmit ops s radio_port data =
     (case gs_source s of
        None \<Rightarrow> None
      | Some src \<Rightarrow>
          let frame = uplink_frame (ChannelId (rc_link_id (gc_radio (gs_config s))) radio_port) data;
              (src', ok) = source_Transmit ops src frame
          in Some (s\<lparr>gs_source := Some src'\<rparr>, [Injected frame ok]))"

text \<open>Without a step of another thread in between, the two parts are \<open>SendUplink\<close>.\<close>

lemma SendUplink_parts:
  "Some (SendUplink ops s port data) = (if uplink_ready s then uplink_transmit ops s port data else Some (s, []))"
  by (auto simp: SendUplink_def uplink_ready_def uplink_transmit_def Let_def split: option.split prod.split)

subsection \<open>\<open>Stop\<close> in its parts\<close>

datatype stop_point =
    Not_called | Requested | Stats_joined | Source_stopped | Source_reset | Router_requested | Router_joined | Done

definition stop_source :: "('a, 'd) ground_station \<Rightarrow> ('a, 'd) ground_station \<times> gs_event list" where
  "stop_source s =
     (case gs_source s of
        None \<Rightarrow> (s, [])
      | Some src \<Rightarrow> (s\<lparr>gs_source := Some (fst (source_Stop src))\<rparr>, map SourceCall (snd (source_Stop src))))"

definition stop_router :: "('a, 'd) ground_station \<Rightarrow> ('a, 'd) ground_station \<times> gs_event list" where
  "stop_router s = (case finish_stop (gs_mavlink s) of (m, acts) \<Rightarrow> (s\<lparr>gs_mavlink := m\<rparr>, map Routed acts))"

definition release_rest :: "('a, 'd) ground_station \<Rightarrow> ('a, 'd) ground_station \<times> gs_event list" where
  "release_rest s =
     (let s1 = s\<lparr>gs_receiver := None, gs_alink := None\<rparr> in
      if gs_mirror_fd s1 \<ge> 0
      then (s1\<lparr>gs_mirror_fd := - 1, gs_mirrors_open := remove1 (gs_mirror_fd s1) (gs_mirrors_open s1)\<rparr>,
            [CloseMirror (gs_mirror_fd s1)])
      else (s1, []))"

text \<open>The owner's thread: what it does at a point of \<open>Stop\<close>, apart from the two joins, and where it gets to.\<close>

fun stop_part :: "('a, 'd) ground_station \<Rightarrow> stop_point \<Rightarrow> ('a, 'd) ground_station \<times> gs_event list \<times> stop_point" where
  "stop_part s Not_called = (s\<lparr>gs_running := False\<rparr>, [], Requested)"
| "stop_part s Requested = (s, [], Stats_joined)"
| "stop_part s Stats_joined = (case stop_source s of (s', ev) \<Rightarrow> (s', ev, Source_stopped))"
| "stop_part s Source_stopped = (s\<lparr>gs_source := None\<rparr>, [], Source_reset)"
| "stop_part s Source_reset = (s\<lparr>gs_mavlink := request_stop (gs_mavlink s)\<rparr>, [], Router_requested)"
| "stop_part s Router_requested = (case stop_router s of (s', ev) \<Rightarrow> (s', ev, Router_joined))"
| "stop_part s Router_joined = (case release_rest s of (s', ev) \<Rightarrow> (s', ev, Done))"
| "stop_part s Done = (s, [], Done)"

fun stop_parts :: "nat \<Rightarrow> ('a, 'd) ground_station \<times> stop_point \<Rightarrow> (('a, 'd) ground_station \<times> stop_point) \<times> gs_event list" where
  "stop_parts 0 (s, p) = ((s, p), [])"
| "stop_parts (Suc n) (s, p) =
     (case stop_part s p of (s1, ev1, p1) \<Rightarrow> case stop_parts n (s1, p1) of (sp, ev2) \<Rightarrow> (sp, ev1 @ ev2))"

lemma Stop_is_parts:
  assumes "gs_running s" and "rt_running (gs_mavlink s)" and "gs_Stop s = (s', ev)"
  shows "stop_parts 7 (s, Not_called) = ((s', Done), ev)"
proof -
  have m: "router_Stop (gs_mavlink s) = finish_stop (request_stop (gs_mavlink s))" using assms(2) by (simp add: Stop_parts)
  obtain r acts where r: "finish_stop (request_stop (gs_mavlink s)) = (r, acts)" by force
  show ?thesis
  proof (cases "gs_source s")
    case None
    with assms(1,3) m r show ?thesis
      by (auto simp: numeral_eq_Suc gs_Stop_def stop_source_def stop_router_def release_rest_def Let_def split: if_splits)
  next
    case (Some src)
    with assms(1,3) m r show ?thesis
      by (auto simp: numeral_eq_Suc gs_Stop_def stop_source_def stop_router_def release_rest_def Let_def split: if_splits)
  qed
qed

subsection \<open>Taking turns\<close>

text \<open>
  Where the two worker threads are. The router's thread is waiting, or between the test and the use of \<open>source_\<close> in the
  uplink callback, or has returned; the statistics thread sleeps or does work that touches neither pointer, has passed
  the test of \<open>alink_\<close>, has passed the test of \<open>source_\<close>, or has returned.
\<close>

datatype router_point = Router_waits | Router_sends bytes | Router_returned

datatype stats_point = Stats_sleeps | Stats_updates | Stats_sends bytes | Stats_returned

datatype pointer_fault = Router_null_source | Stats_null_source | Stats_null_alink

record ('a, 'd) threads =
  th_station :: "('a, 'd) ground_station"
  th_stop :: stop_point
  th_router :: router_point
  th_stats :: stats_point
  th_fault :: "pointer_fault option"
  th_events :: "gs_event list"

text \<open>A thread whose \<open>join\<close> the owner waits for.\<close>

fun may_pass :: "('a, 'd) threads \<Rightarrow> bool" where
  "may_pass w \<longleftrightarrow>
     (case th_stop w of
        Not_called \<Rightarrow> gs_running (th_station w)
      | Requested \<Rightarrow> th_stats w = Stats_returned
      | Router_requested \<Rightarrow> th_router w = Router_returned
      | Done \<Rightarrow> False
      | _ \<Rightarrow> True)"

definition owner_stops :: "('a, 'd) threads \<Rightarrow> ('a, 'd) threads" where
  "owner_stops w =
     (case stop_part (th_station w) (th_stop w) of
        (s, ev, p) \<Rightarrow> w\<lparr>th_station := s, th_stop := p, th_events := th_events w @ ev\<rparr>)"

definition transmits :: "'d usb_ops \<Rightarrow> ('a, 'd) threads \<Rightarrow> u8 \<Rightarrow> bytes \<Rightarrow> pointer_fault \<Rightarrow> ('a, 'd) threads" where
  "transmits ops w port data fault =
     (case uplink_transmit ops (th_station w) port data of
        None \<Rightarrow> w\<lparr>th_fault := Some fault\<rparr>
      | Some (s, ev) \<Rightarrow> w\<lparr>th_station := s, th_events := th_events w @ ev\<rparr>)"

text \<open>\<open>alink_->Update\<close> and the test of \<open>SendUplink\<close> that follows it.\<close>

definition updates :: "('a, 'd) threads \<Rightarrow> link_snapshot \<times> u64 \<times> nat list \<Rightarrow> ('a, 'd) threads option" where
  "updates w input =
     (case gs_alink (th_station w) of
        None \<Rightarrow> Some (w\<lparr>th_fault := Some Stats_null_alink\<rparr>)
      | Some c \<Rightarrow> do {
          (c', result) \<leftarrow> alink_Update c input;
          let w1 = w\<lparr>th_station := (th_station w)\<lparr>gs_alink := Some c'\<rparr>\<rparr>;
          Some (w1\<lparr>th_stats := (if uplink_ready (th_station w1) then Stats_sends (alink_Frame (ar_message result))
                               else Stats_sleeps)\<rparr>)
        })"

inductive turn :: "'d usb_ops \<Rightarrow> ('a, 'd) threads \<Rightarrow> ('a, 'd) threads \<Rightarrow> bool" for ops where
  owner_Stop: "may_pass w \<Longrightarrow> turn ops w (owner_stops w)"
| owner_SetAlinkConfig: "th_stop w = Not_called \<Longrightarrow>
    turn ops w (w\<lparr>th_station := SetAlinkConfig (th_station w) config\<rparr>)"
| router_tests: "th_router w = Router_waits \<Longrightarrow> rt_running (gs_mavlink (th_station w)) \<Longrightarrow> uplink_ready (th_station w) \<Longrightarrow>
    turn ops w (w\<lparr>th_router := Router_sends data\<rparr>)"
| router_uses: "th_router w = Router_sends data \<Longrightarrow>
    turn ops w ((transmits ops w kPortMavlinkTx data Router_null_source)\<lparr>th_router := Router_waits\<rparr>)"
| router_returns: "th_router w = Router_waits \<Longrightarrow> \<not> rt_running (gs_mavlink (th_station w)) \<Longrightarrow>
    turn ops w (w\<lparr>th_router := Router_returned\<rparr>)"
| stats_tests: "th_stats w = Stats_sleeps \<Longrightarrow> gs_running (th_station w) \<Longrightarrow>
    gs_alink (th_station w) \<noteq> None \<Longrightarrow> gs_receiver (th_station w) \<noteq> None \<Longrightarrow> turn ops w (w\<lparr>th_stats := Stats_updates\<rparr>)"
| stats_uses_alink: "th_stats w = Stats_updates \<Longrightarrow> updates w input = Some w' \<Longrightarrow> turn ops w w'"
| stats_uses_source: "th_stats w = Stats_sends data \<Longrightarrow>
    turn ops w ((transmits ops w kPortTunnelTx data Stats_null_source)\<lparr>th_stats := Stats_sleeps\<rparr>)"
| stats_returns: "th_stats w = Stats_sleeps \<Longrightarrow> \<not> gs_running (th_station w) \<Longrightarrow>
    turn ops w (w\<lparr>th_stats := Stats_returned\<rparr>)"

inductive_cases turnE: "turn ops w w'"

text \<open>A fault ends the program.\<close>

inductive turns :: "'d usb_ops \<Rightarrow> ('a, 'd) threads \<Rightarrow> ('a, 'd) threads \<Rightarrow> bool" for ops where
  turns_refl: "turns ops w w"
| turns_step: "turns ops w w1 \<Longrightarrow> th_fault w1 = None \<Longrightarrow> turn ops w1 w2 \<Longrightarrow> turns ops w w2"

definition at_work :: "('a, 'd) ground_station \<Rightarrow> ('a, 'd) threads" where
  "at_work s = \<lparr>th_station = s, th_stop = Not_called, th_router = Router_waits, th_stats = Stats_sleeps, th_fault = None,
                th_events = []\<rparr>"

subsection \<open>What holds between two turns\<close>

text \<open>Before and after the owner has taken the source away.\<close>

definition source_there :: "stop_point set" where
  "source_there = {Not_called, Requested, Stats_joined, Source_stopped}"

fun router_at :: "router \<Rightarrow> stop_point \<Rightarrow> router" where
  "router_at m Router_requested = request_stop m"
| "router_at m Router_joined = fst (finish_stop (request_stop m))"
| "router_at m Done = fst (finish_stop (request_stop m))"
| "router_at m p = m"

definition fault_inv :: "('a, 'd) threads \<Rightarrow> bool" where
  "fault_inv w \<longleftrightarrow> (case th_fault w of
       None \<Rightarrow> True
     | Some Stats_null_source \<Rightarrow> False
     | Some Router_null_source \<Rightarrow>
         th_stop w \<in> {Source_reset, Router_requested} \<and> gc_source (gs_config (th_station w)) = kDevourer
     | Some Stats_null_alink \<Rightarrow> gs_alink (th_station w) = None \<and> \<not> ac_enabled (gc_alink (gs_config (th_station w))))"

definition released :: "('a, 'd) ground_station \<Rightarrow> bool" where
  "released s \<longleftrightarrow> gs_source s = None \<and> gs_receiver s = None \<and> gs_alink s = None \<and> gs_mirror_fd s < 0"

definition turn_inv :: "('a, 'd) ground_station \<Rightarrow> ('a, 'd) threads \<Rightarrow> bool" where
  "turn_inv s0 w \<longleftrightarrow>
     gc_source (gs_config (th_station w)) = gc_source (gs_config s0)
     \<and> (gs_source (th_station w) \<noteq> None \<longleftrightarrow> th_stop w \<in> source_there)
     \<and> (th_stop w \<in> {Not_called, Requested} \<or> th_stats w = Stats_returned)
     \<and> (\<forall>d. th_router w = Router_sends d \<longrightarrow> gc_source (gs_config s0) = kDevourer)
     \<and> (th_stop w \<in> {Router_joined, Done} \<longrightarrow> th_router w = Router_returned)
     \<and> gs_mavlink (th_station w) = router_at (gs_mavlink s0) (th_stop w)
     \<and> (th_stop w \<noteq> Done \<longrightarrow> gs_alink (th_station w) = None \<longrightarrow> \<not> ac_enabled (gc_alink (gs_config (th_station w))))
     \<and> (th_stop w = Done \<longrightarrow> released (th_station w))
     \<and> fault_inv w"

lemma owner_keeps:
  assumes "turn_inv s0 w" and "th_fault w = None" and "may_pass w"
  shows "turn_inv s0 (owner_stops w)"
proof (cases "th_stop w")
  case Stats_joined
  then obtain src where "gs_source (th_station w) = Some src" using assms(1) by (auto simp: turn_inv_def source_there_def)
  with Stats_joined assms show ?thesis
    by (simp add: turn_inv_def owner_stops_def source_there_def fault_inv_def stop_source_def)
next
  case Router_requested
  with assms show ?thesis
    by (simp add: turn_inv_def owner_stops_def source_there_def fault_inv_def stop_router_def split_def)
next
  case Router_joined
  with assms show ?thesis
    by (simp add: turn_inv_def owner_stops_def source_there_def fault_inv_def release_rest_def released_def Let_def)
qed (use assms in \<open>simp_all add: turn_inv_def owner_stops_def source_there_def fault_inv_def\<close>)

lemma SetAlinkConfig_frame:
  "gs_source (SetAlinkConfig s c) = gs_source s" "gs_mavlink (SetAlinkConfig s c) = gs_mavlink s"
  "gs_config (SetAlinkConfig s c) = (gs_config s)\<lparr>gc_alink := c\<rparr>" "gs_alink (SetAlinkConfig s c) = None \<longleftrightarrow> \<not> ac_enabled c"
  by (auto simp: SetAlinkConfig_def Let_def split: option.split)

lemma transmits_keeps:
  assumes "turn_inv s0 w" and "th_fault w = None" and "th_stop w \<in> source_there"
  shows "turn_inv s0 (transmits ops w port data fault)"
proof -
  obtain src where src: "gs_source (th_station w) = Some src" using assms(1,3) by (auto simp: turn_inv_def)
  define frame where "frame = uplink_frame (ChannelId (rc_link_id (gc_radio (gs_config (th_station w)))) port) data"
  have "transmits ops w port data fault =
      w\<lparr>th_station := (th_station w)\<lparr>gs_source := Some (fst (source_Transmit ops src frame))\<rparr>,
        th_events := th_events w @ [Injected frame (snd (source_Transmit ops src frame))]\<rparr>"
    by (simp add: src frame_def transmits_def uplink_transmit_def Let_def split_def)
  moreover have "th_stop w \<noteq> Done" using assms(3) by (auto simp: source_there_def)
  ultimately show ?thesis using assms src by (simp add: turn_inv_def fault_inv_def)
qed

lemma transmits_frame [simp]:
  "th_stop (transmits ops w port data fault) = th_stop w" "th_stats (transmits ops w port data fault) = th_stats w"
  "th_router (transmits ops w port data fault) = th_router w"
  by (cases "uplink_transmit ops (th_station w) port data"; simp add: transmits_def split_def)+

lemma transmits_null:
  "gs_source (th_station w) = None \<Longrightarrow> transmits ops w port data fault = w\<lparr>th_fault := Some fault\<rparr>"
  by (simp add: transmits_def uplink_transmit_def)

lemma fault_inv_points [simp]:
  "fault_inv (w\<lparr>th_stats := p\<rparr>) = fault_inv w" "fault_inv (w\<lparr>th_router := q\<rparr>) = fault_inv w"
  by (simp_all add: fault_inv_def split: option.split pointer_fault.split)

lemma turn_inv_points:
  "turn_inv s0 w \<Longrightarrow> th_stop w \<in> {Not_called, Requested} \<Longrightarrow> turn_inv s0 (w\<lparr>th_stats := p\<rparr>)"
  "turn_inv s0 w \<Longrightarrow> turn_inv s0 (w\<lparr>th_stats := Stats_returned\<rparr>)"
  "turn_inv s0 w \<Longrightarrow> th_stop w \<notin> {Router_joined, Done} \<Longrightarrow> turn_inv s0 (w\<lparr>th_router := Router_waits\<rparr>)"
  "turn_inv s0 w \<Longrightarrow> turn_inv s0 (w\<lparr>th_router := Router_returned\<rparr>)"
  "turn_inv s0 w \<Longrightarrow> th_stop w \<notin> {Router_joined, Done} \<Longrightarrow> gc_source (gs_config s0) = kDevourer \<Longrightarrow> turn_inv s0 (w\<lparr>th_router := q\<rparr>)"
  by (simp_all add: turn_inv_def)

lemma updates_keeps:
  assumes "turn_inv s0 w" and "th_fault w = None" and "th_stop w \<in> {Not_called, Requested}" and "updates w input = Some w'"
  shows "turn_inv s0 w'"
proof (cases "gs_alink (th_station w)")
  case None
  with assms have "w' = w\<lparr>th_fault := Some Stats_null_alink\<rparr>" by (simp add: updates_def)
  with None assms(1-3) show ?thesis by (elim insertE; simp add: turn_inv_def fault_inv_def)
next
  case (Some c)
  with assms(4) obtain c' p where w': "w' = w\<lparr>th_station := (th_station w)\<lparr>gs_alink := Some c'\<rparr>, th_stats := p\<rparr>"
    by (auto simp: updates_def Let_def split: Option.bind_split_asm)
  have "turn_inv s0 (w\<lparr>th_station := (th_station w)\<lparr>gs_alink := Some c'\<rparr>\<rparr>)"
    using assms(1-3) by (elim insertE; simp add: turn_inv_def fault_inv_def)
  then show ?thesis using turn_inv_points(1) [of s0 "w\<lparr>th_station := (th_station w)\<lparr>gs_alink := Some c'\<rparr>\<rparr>" p] assms(3) by (simp add: w')
qed

lemma turn_keeps:
  assumes "turn ops w w'" and "turn_inv s0 w" and "th_fault w = None"
  shows "turn_inv s0 w'"
  using assms(1)
proof cases
  case owner_Stop
  then show ?thesis using owner_keeps assms(2,3) by blast
next
  case (owner_SetAlinkConfig config)
  then show ?thesis using assms(2,3)
    by (auto simp: turn_inv_def fault_inv_def SetAlinkConfig_frame source_there_def)
next
  case (router_tests data)
  then show ?thesis
    using assms(2) turn_inv_points(5) [OF assms(2), of "Router_sends data"]
    by (auto simp: turn_inv_def uplink_ready_def)
next
  case (router_uses data)
  have kind: "gc_source (gs_config (th_station w)) = kDevourer" and late: "th_stop w \<notin> {Router_joined, Done}"
    using assms(2) router_uses(2) by (auto simp: turn_inv_def)
  have "turn_inv s0 (transmits ops w kPortMavlinkTx data Router_null_source)"
  proof (cases "th_stop w \<in> source_there")
    case True
    then show ?thesis using transmits_keeps assms(2,3) by blast
  next
    case False
    then have "gs_source (th_station w) = None" "th_stop w \<in> {Source_reset, Router_requested}"
      using assms(2) late by (cases "th_stop w"; simp add: turn_inv_def source_there_def)+
    then show ?thesis using assms(2) kind by (simp add: transmits_null) (simp add: turn_inv_def fault_inv_def)
  qed
  from turn_inv_points(3) [OF this] late show ?thesis by (simp add: router_uses(1))
next
  case router_returns
  then show ?thesis using turn_inv_points(4) assms(2) by blast
next
  case stats_tests
  then have "th_stop w \<in> {Not_called, Requested}" using assms(2) by (auto simp: turn_inv_def)
  then show ?thesis using turn_inv_points(1) assms(2) stats_tests(1) by blast
next
  case (stats_uses_alink input)
  then have "th_stop w \<in> {Not_called, Requested}" using assms(2) by (auto simp: turn_inv_def)
  then show ?thesis using updates_keeps stats_uses_alink(2) assms(2,3) by blast
next
  case (stats_uses_source data)
  then have early: "th_stop w \<in> {Not_called, Requested}" using assms(2) by (auto simp: turn_inv_def)
  then have "turn_inv s0 (transmits ops w kPortTunnelTx data Stats_null_source)"
    using transmits_keeps [OF assms(2,3)] by (auto simp: source_there_def)
  from turn_inv_points(1) [OF this] early show ?thesis by (simp add: stats_uses_source(1))
next
  case stats_returns
  then show ?thesis using turn_inv_points(2) assms(2) by blast
qed

lemma turns_keeps:
  assumes "turns ops (at_work s) w" and "gs_source s \<noteq> None" and "ac_enabled (gc_alink (gs_config s)) \<longrightarrow> gs_alink s \<noteq> None"
  shows "turn_inv s w"
  using assms(1)
proof (induction "at_work s" w rule: turns.induct)
  case turns_refl
  then show ?case using assms(2,3) by (auto simp: turn_inv_def at_work_def source_there_def fault_inv_def)
next
  case (turns_step w1 w2)
  then show ?case using turn_keeps by blast
qed

lemma stopped_router_holds_nothing:
  assumes "reach_inv m"
  shows "rt_open (fst (finish_stop (request_stop m))) = []"
proof -
  have "loop_inv (request_stop m)"
    using assms
    by (simp add: loop_inv_def request_stop_def reach_inv_def router_inv_def framers_inv_def fds_inv_def held_def pipe_fds_def)
  from finish_releases [OF this] show ?thesis by auto
qed

subsection \<open>Two runs that fault\<close>

text \<open>The router thread has passed the test when \<open>Stop\<close> takes the source away.\<close>

lemma router_fault_run:
  assumes "gs_running s" and "uplink_ready s" and "rt_running (gs_mavlink s)"
  shows "\<exists>w. turns ops (at_work s) w \<and> th_fault w = Some Router_null_source \<and> th_stop w = Source_reset"
proof -
  obtain src where src: "gs_source s = Some src" using assms(2) by (auto simp: uplink_ready_def)
  define w1 where "w1 = (at_work s)\<lparr>th_router := Router_sends []\<rparr>"
  define w2 where "w2 = owner_stops w1"
  define w3 where "w3 = w2\<lparr>th_stats := Stats_returned\<rparr>"
  define w4 where "w4 = owner_stops w3"
  define w5 where "w5 = owner_stops w4"
  define w6 where "w6 = owner_stops w5"
  define w7 where "w7 = (transmits ops w6 kPortMavlinkTx [] Router_null_source)\<lparr>th_router := Router_waits\<rparr>"
  have w2: "w2 = w1\<lparr>th_station := s\<lparr>gs_running := False\<rparr>, th_stop := Requested\<rparr>"
    by (simp add: w2_def w1_def owner_stops_def at_work_def)
  have w4: "w4 = w3\<lparr>th_stop := Stats_joined\<rparr>" by (simp add: w4_def w3_def w2 w1_def at_work_def owner_stops_def)
  have w5: "th_stop w5 = Source_stopped \<and> th_fault w5 = None \<and> th_router w5 = Router_sends []"
    by (simp add: w5_def w4 w3_def w2 w1_def at_work_def owner_stops_def stop_source_def src)
  then have w6: "th_stop w6 = Source_reset \<and> th_fault w6 = None \<and> th_router w6 = Router_sends [] \<and> gs_source (th_station w6) = None"
    by (simp add: w6_def owner_stops_def)
  have f: "th_fault (at_work s) = None" "th_fault w1 = None" "th_fault w2 = None" "th_fault w3 = None" "th_fault w4 = None"
    by (simp_all add: w4 w3_def w2 w1_def at_work_def)
  have "turn ops (at_work s) w1" unfolding w1_def using assms by (intro router_tests) (simp_all add: at_work_def)
  note run = turns_step [OF turns_refl f(1) this]
  have "turn ops w1 w2" unfolding w2_def using assms(1) by (intro owner_Stop) (simp add: w1_def at_work_def)
  note run = turns_step [OF run f(2) this]
  have "turn ops w2 w3" unfolding w3_def by (intro stats_returns) (simp_all add: w2 w1_def at_work_def)
  note run = turns_step [OF run f(3) this]
  have "turn ops w3 w4" unfolding w4_def by (intro owner_Stop) (simp add: w3_def w2 w1_def at_work_def)
  note run = turns_step [OF run f(4) this]
  have "turn ops w4 w5" unfolding w5_def by (intro owner_Stop) (simp add: w4)
  note run = turns_step [OF run f(5) this]
  have "turn ops w5 w6" unfolding w6_def using w5 by (intro owner_Stop) simp
  note run = turns_step [OF run _ this]
  have "turn ops w6 w7" unfolding w7_def using w6 by (intro router_uses) simp
  note run = turns_step [OF run _ this]
  have "turns ops (at_work s) w7" using run w5 w6 by simp
  moreover have "th_fault w7 = Some Router_null_source" "th_stop w7 = Source_reset" using w6 by (simp_all add: w7_def transmits_null)
  ultimately show ?thesis by blast
qed

text \<open>The statistics thread has passed the test when the settings switch the controller off.\<close>

lemma stats_fault_run:
  assumes "gs_running s" and "gs_alink s \<noteq> None" and "gs_receiver s \<noteq> None"
  shows "\<exists>w. turns ops (at_work s) w \<and> th_fault w = Some Stats_null_alink \<and> th_stop w = Not_called"
proof -
  let ?off = "alink_config_default\<lparr>ac_enabled := False\<rparr>"
  define w1 where "w1 = (at_work s)\<lparr>th_stats := Stats_updates\<rparr>"
  define w2 where "w2 = w1\<lparr>th_station := SetAlinkConfig s ?off\<rparr>"
  define w3 where "w3 = w2\<lparr>th_fault := Some Stats_null_alink\<rparr>"
  have off: "gs_alink (SetAlinkConfig s ?off) = None" by (simp add: SetAlinkConfig_frame)
  have f: "th_fault (at_work s) = None" "th_fault w1 = None" "th_fault w2 = None" by (simp_all add: w2_def w1_def at_work_def)
  have "turn ops (at_work s) w1" unfolding w1_def using assms by (intro stats_tests) (simp_all add: at_work_def)
  note run = turns_step [OF turns_refl f(1) this]
  have "turn ops w1 w2"
    using owner_SetAlinkConfig [of w1 ops ?off] by (simp add: w2_def w1_def at_work_def)
  note run = turns_step [OF run f(2) this]
  have "turn ops w2 w3"
    by (rule stats_uses_alink [of _ undefined]) (simp_all add: w3_def w2_def w1_def at_work_def updates_def off)
  from turns_step [OF run f(3) this] show ?thesis by (intro exI [of _ w3]) (simp add: w3_def w2_def w1_def at_work_def)
qed

lemma Start_router:
  assumes "gs_Start env s config usb_fd cbs = (s', ev, True)" and "\<not> gs_running s"
  shows "gs_mavlink s' = fst (router_Start (set_uplink_callback (gs_mavlink s)) (ge_pipe env))"
proof -
  obtain s3 ev3 where s3: "prepare_start env s config cbs = (s3, ev3)" by force
  obtain src receiver where mk: "make_source env s3 usb_fd = Some (src, receiver)"
    using assms s3 by (cases "make_source env s3 usb_fd") (auto simp: gs_Start_def split_def)
  obtain src1 calls err where st: "source_Start (ge_network env) (ge_usb env) src = (src1, calls, err)"
    using prod_cases3 by blast
  have "s' = s3\<lparr>gs_source := Some src1, gs_receiver := receiver, gs_running := True\<rparr>"
    using assms s3 mk st by (cases err) (simp_all add: gs_Start_def split_def Let_def)
  then show ?thesis using prepare_start_state [OF s3] by simp
qed

lemma example_threads:
  "uplink_ready example_station" "rt_running (gs_mavlink example_station)" "gs_receiver example_station \<noteq> None"
proof -
  show "uplink_ready example_station" "gs_receiver example_station \<noteq> None"
    using example_fields(3,5,6) by (auto simp: uplink_ready_def example_config_def gs_config_default_def)
  obtain ev where "gs_Start example_env ground_station_init example_config 7 all_callbacks = (example_station, ev, True)"
    using example_started by blast
  from Start_router [OF this] show "rt_running (gs_mavlink example_station)"
    by (simp add: ground_station_init_def example_env_def router_Start_def set_uplink_callback_def router_init_def)
qed

subsection \<open>Properties\<close>

text \<open>
  C15: pointer faults are confined. Let the owner of a running station, its statistics thread and its router thread take
  turns in any way, with the owner changing the adaptive-link settings and then stopping the station. The statistics
  thread never calls through an empty source. The router thread can do so only while \<open>Stop\<close> is between the reset of the
  source and the end of that thread, and only on a radio link. The statistics thread calls through an empty adaptive-link
  controller only after the owner has switched it off. If none of this happens, \<open>Stop\<close> ends with every descriptor of the
  router, the source, the receiver, the controller and the mirror socket released.
\<close>

theorem thread_faults_confined:
  assumes "gs_reach s" and "gs_running s" and "ac_enabled (gc_alink (gs_config s)) \<longrightarrow> gs_alink s \<noteq> None"
    and "turns ops (at_work s) w"
  shows "th_fault w \<noteq> Some Stats_null_source
    \<and> (th_fault w = Some Router_null_source \<longrightarrow>
         th_stop w \<in> {Source_reset, Router_requested} \<and> gc_source (gs_config s) = kDevourer)
    \<and> (th_fault w = Some Stats_null_alink \<longrightarrow>
         gs_alink (th_station w) = None \<and> \<not> ac_enabled (gc_alink (gs_config (th_station w))))
    \<and> (th_stop w = Done \<longrightarrow> released (th_station w) \<and> rt_open (gs_mavlink (th_station w)) = [])"
proof -
  have parts: "reach_inv (gs_mavlink s)" "gs_source s \<noteq> None"
    using gs_reachable_inv [OF assms(1)] assms(2) by (auto simp: parts_inv_def life_inv_def)
  from turns_keeps [OF assms(4) parts(2) assms(3)] have inv: "turn_inv s w" .
  then have "fault_inv w" "gc_source (gs_config (th_station w)) = gc_source (gs_config s)"
      "th_stop w = Done \<longrightarrow> released (th_station w)" by (simp_all add: turn_inv_def)
  moreover have "th_stop w = Done \<longrightarrow> rt_open (gs_mavlink (th_station w)) = []"
    using inv stopped_router_holds_nothing [OF parts(1)] by (simp add: turn_inv_def)
  ultimately show ?thesis
    by (cases "th_fault w"; cases "the (th_fault w)") (simp_all add: fault_inv_def)
qed

theorem thread_faults_confined_witness:
  "\<exists>w. turns working_usb (at_work example_station) w \<and> th_fault w = Some Router_null_source
    \<and> th_stop w \<in> {Source_reset, Router_requested} \<and> gc_source (gs_config example_station) = kDevourer"
proof -
  obtain w where w: "turns working_usb (at_work example_station) w" "th_fault w = Some Router_null_source"
    using router_fault_run [OF example_fields(1) example_threads(1,2)] by blast
  with thread_faults_confined [OF station_reach example_fields(1) _ w(1)] example_fields(4) show ?thesis by auto
qed

text \<open>
  C40: both faults happen. From a running station with a radio link there is an order of turns in which the router thread
  has passed the test of the source, \<open>Stop\<close> joins the statistics thread and resets the source, and the router thread then
  calls through the empty pointer; and there is one in which the statistics thread has passed the test of the
  adaptive-link controller, the settings switch it off, and the thread calls through the empty pointer.
\<close>

theorem thread_faults_happen:
  "(\<exists>w. turns working_usb (at_work example_station) w \<and> th_fault w = Some Router_null_source \<and> th_stop w = Source_reset)
   \<and> (\<exists>w. turns working_usb (at_work example_station) w \<and> th_fault w = Some Stats_null_alink \<and> th_stop w = Not_called)"
  using router_fault_run [OF example_fields(1) example_threads(1,2)] stats_fault_run [OF example_fields(1) _ example_threads(3)]
    example_fields(4) by simp

end
