(* ===== verification/Rtp_Streams.thy ===== *)
theory Rtp_Streams
  imports Rtp
begin

section \<open>Video streams with loss\<close>

text \<open>
  What the depacketiser makes of a whole stream of which any packets may be missing. A stream is a list of units, each
  sent in one of the three ways of RFC 6184 and RFC 7798: as a packet of its own, as the fragments of one NAL unit, or as
  several NAL units in one aggregation packet. Each unit comes with its time stamp, the RTP marker of its last packet,
  and a mask that tells which of its packets arrive.

  The locale \<open>video_format\<close> extends \<open>fragment_format\<close> with the two forms that take one packet; the theorem on streams is
  proved once in it and holds for both codecs by interpretation. The bound on a gap, fewer than 65536 packets in a row,
  is where the 16-bit sequence number wraps around.
\<close>

subsection \<open>Streams\<close>

datatype 'h video_unit =
    Single bytes
  | Fragments 'h "bytes list"
  | Aggregate "bytes list"

text \<open>The fragments after the first one, and all of them, each with its marker.\<close>

fun later_fragments :: "('h \<Rightarrow> bool \<Rightarrow> bool \<Rightarrow> bytes \<Rightarrow> bytes) \<Rightarrow> bool \<Rightarrow> 'h \<Rightarrow> bytes list \<Rightarrow> (bool \<times> bytes) list" where
  "later_fragments fu m h [] = []"
| "later_fragments fu m h (c # cs) = (cs = [] \<and> m, fu h False (cs = []) c) # later_fragments fu m h cs"

fun unit_packets ::
  "('h \<Rightarrow> bool \<Rightarrow> bool \<Rightarrow> bytes \<Rightarrow> bytes) \<Rightarrow> (bytes list \<Rightarrow> bytes) \<Rightarrow> bool \<Rightarrow> 'h video_unit \<Rightarrow> (bool \<times> bytes) list" where
  "unit_packets fu agg m (Single p) = [(m, p)]"
| "unit_packets fu agg m (Aggregate nals) = [(m, agg nals)]"
| "unit_packets fu agg m (Fragments h []) = []"
| "unit_packets fu agg m (Fragments h (c # cs)) = (cs = [] \<and> m, fu h True (cs = []) c) # later_fragments fu m h cs"

text \<open>The packets that arrive, with consecutive sequence numbers given to all that were sent.\<close>

fun arriving :: "u16 \<Rightarrow> u32 \<Rightarrow> bool list \<Rightarrow> (bool \<times> bytes) list \<Rightarrow> bytes list" where
  "arriving q t (a # as) ((m, p) # ps) = (if a then [MakeRtp q t m p] else []) @ arriving (q + 1) t as ps"
| "arriving q t as ps = []"

fun stream_packets ::
  "('h \<Rightarrow> bool \<Rightarrow> bool \<Rightarrow> bytes \<Rightarrow> bytes) \<Rightarrow> (bytes list \<Rightarrow> bytes) \<Rightarrow> u16
    \<Rightarrow> (u32 \<times> bool \<times> 'h video_unit \<times> bool list) list \<Rightarrow> bytes list" where
  "stream_packets fu agg q [] = []"
| "stream_packets fu agg q ((t, m, u, arr) # us) =
     arriving q t arr (unit_packets fu agg m u) @ stream_packets fu agg (q + of_nat (length arr)) us"

text \<open>What should come out: the NAL units of every unit that arrived whole.\<close>

fun unit_nals :: "('h \<Rightarrow> bytes) \<Rightarrow> 'h video_unit \<Rightarrow> bytes list" where
  "unit_nals hdr (Single p) = [p]"
| "unit_nals hdr (Aggregate nals) = nals"
| "unit_nals hdr (Fragments h cs) = [hdr h @ concat cs]"

definition intact_nals :: "('h \<Rightarrow> bytes) \<Rightarrow> (u32 \<times> bool \<times> 'h video_unit \<times> bool list) list \<Rightarrow> nal_unit list" where
  "intact_nals hdr us = concat (map (\<lambda>(t, m, u, arr).
     if False \<in> set arr then []
     else map (\<lambda>n. \<lparr>nu_data = kStartCode @ n, nu_rtp_timestamp = t, nu_marker = m\<rparr>) (unit_nals hdr u)) us)"

text \<open>Gaps: how many packets are missing at the end of a mask, and that no gap reaches the wrap-around.\<close>

fun gap_after :: "nat \<Rightarrow> bool list \<Rightarrow> nat" where
  "gap_after g [] = g"
| "gap_after g (a # as) = gap_after (if a then 0 else Suc g) as"

fun short_gaps :: "nat \<Rightarrow> bool list \<Rightarrow> bool" where
  "short_gaps g [] = True"
| "short_gaps g (a # as) = (if a then short_gaps 0 as else Suc g < 65536 \<and> short_gaps (Suc g) as)"

lemma short_gaps_append: "short_gaps g (xs @ ys) \<longleftrightarrow> short_gaps g xs \<and> short_gaps (gap_after g xs) ys"
  by (induction xs arbitrary: g) auto

lemma length_later_fragments [simp]: "length (later_fragments fu m h cs) = length cs"
  by (induction cs) auto

text \<open>Units a sender can send: which payloads may be a packet of their own, which NAL units may be aggregated.\<close>

fun sendable :: "(bytes \<Rightarrow> bool) \<Rightarrow> (bytes \<Rightarrow> bool) \<Rightarrow> 'h video_unit \<Rightarrow> bool" where
  "sendable whole packable (Single p) = whole p"
| "sendable whole packable (Aggregate nals) = list_all packable nals"
| "sendable whole packable (Fragments h cs) = (cs \<noteq> [])"

subsection \<open>Streams of any format\<close>

locale video_format = fragment_format codec fu hdr
  for codec :: video_codec and fu :: "'h \<Rightarrow> bool \<Rightarrow> bool \<Rightarrow> bytes \<Rightarrow> bytes" and hdr :: "'h \<Rightarrow> bytes" +
  fixes whole :: "bytes \<Rightarrow> bool"
    and agg :: "bytes list \<Rightarrow> bytes"
    and packable :: "bytes \<Rightarrow> bool"
  assumes whole_nonempty: "whole p \<Longrightarrow> p \<noteq> []"
    and whole_dispatch: "dp_codec s = codec \<Longrightarrow> whole p \<Longrightarrow>
      dispatch_payload s data p rh =
        Some (case EmitNal s p (rh_timestamp rh) (rh_marker rh) of (s1, out) \<Rightarrow> (s1, out, True))"
    and agg_nonempty: "agg nals \<noteq> []"
    and agg_dispatch: "dp_codec s = codec \<Longrightarrow> dp_callback s \<Longrightarrow> list_all packable nals \<Longrightarrow>
      dispatch_payload s data (agg nals) rh =
        Some (s\<lparr>dp_nals := dp_nals s + of_nat (length nals)\<rparr>,
              map (\<lambda>n. \<lparr>nu_data = kStartCode @ n, nu_rtp_timestamp = rh_timestamp rh, nu_marker = rh_marker rh\<rparr>) nals, True)"
begin

text \<open>
  Between two units, before sequence number \<open>q\<close> and with \<open>g\<close> packets missing just now: a partial unit can only be left
  over from before the gap, and the sequence number tells.
\<close>

definition between :: "depacketizer \<Rightarrow> u16 \<Rightarrow> nat \<Rightarrow> bool" where
  "between s q g \<longleftrightarrow> ready s \<and> (dp_in_fragment s \<longrightarrow> 0 < g \<and> g < 65536 \<and> dp_expected_seq s + of_nat g = q)"

lemma between_stale:
  assumes "between s q g" and "dp_in_fragment s"
  shows "dp_expected_seq s \<noteq> q"
proof
  assume "dp_expected_seq s = q"
  with assms have "of_nat g = (0 :: u16)" "0 < g" "g < 65536" by (auto simp: between_def)
  then show False using nat_dvd_not_less [of g 65536] by (simp add: word_of_nat_eq_0_iff)
qed

lemma between_gap: "between s q g \<Longrightarrow> Suc g < 65536 \<Longrightarrow> between s (q + 1) (Suc g)"
  by (auto simp: between_def algebra_simps)

lemma between_clean: "ready s \<Longrightarrow> \<not> dp_in_fragment s \<Longrightarrow> between s q g"
  by (simp add: between_def)

text \<open>The later fragments of a unit that has already lost a packet give nothing.\<close>

lemma damaged_rest:
  assumes "between s q g" and "length arr = length cs" and "short_gaps g arr"
  shows "\<exists>s'. run_steps OnVideoPayload s (arriving q t arr (later_fragments fu m h cs)) = Some (s', [])
    \<and> between s' (q + of_nat (length cs)) (gap_after g arr)"
  using assms
proof (induction cs arbitrary: s q g arr)
  case Nil
  then show ?case by simp
next
  case (Cons c cs)
  from Cons.prems(2) obtain a as where arr: "arr = a # as" "length as = length cs" by (cases arr) auto
  show ?case
  proof (cases a)
    case True
    from fragment_orphan [of s q t "cs = [] \<and> m" h "cs = []" c] between_stale [OF Cons.prems(1)] Cons.prems(1)
    obtain s1 where "OnVideoPayload s (MakeRtp q t (cs = [] \<and> m) (fu h False (cs = []) c)) = Some (s1, [])"
      and "ready s1" "\<not> dp_in_fragment s1" by (auto simp: between_def)
    with Cons.IH [OF between_clean arr(2), of s1 0 "q + 1"] Cons.prems(3) True arr show ?thesis by (auto simp: add.assoc)
  next
    case False
    with Cons.IH [OF between_gap [OF Cons.prems(1)] arr(2)] Cons.prems(3) arr show ?thesis by (auto simp: add.assoc)
  qed
qed

text \<open>The later fragments of a unit that is whole so far.\<close>

lemma intact_rest:
  assumes "ready s" and "dp_in_fragment s" and "dp_fragment s \<noteq> []" and "dp_expected_seq s = q" and "cs \<noteq> []"
    and "length arr = length cs" and "short_gaps 0 arr"
  shows "\<exists>s'. run_steps OnVideoPayload s (arriving q t arr (later_fragments fu m h cs)) =
      Some (s', if False \<in> set arr then []
                else [\<lparr>nu_data = kStartCode @ dp_fragment s @ concat cs, nu_rtp_timestamp = t, nu_marker = m\<rparr>])
    \<and> between s' (q + of_nat (length cs)) (gap_after 0 arr)"
  using assms
proof (induction cs arbitrary: s q arr)
  case (Cons c cs)
  from Cons.prems(6) obtain a as where arr: "arr = a # as" "length as = length cs" by (cases arr) auto
  show ?case
  proof (cases a)
    case False
    then have "between s (q + 1) 1" using Cons.prems by (simp add: between_def)
    from damaged_rest [OF this arr(2), of t m h] Cons.prems(7) False arr show ?thesis by (auto simp: add.assoc)
  next
    case True
    from fragment_next [OF Cons.prems(1-4), of t "cs = [] \<and> m" h "cs = []" c]
    obtain s1 where s1: "OnVideoPayload s (MakeRtp q t (cs = [] \<and> m) (fu h False (cs = []) c)) =
        Some (s1, if cs = [] then [\<lparr>nu_data = kStartCode @ dp_fragment s @ c, nu_rtp_timestamp = t, nu_marker = m\<rparr>] else [])"
      "ready s1" "dp_in_fragment s1 = (cs \<noteq> [])" "dp_expected_seq s1 = q + 1" "cs \<noteq> [] \<longrightarrow> dp_fragment s1 = dp_fragment s @ c"
      by (auto split: if_splits)
    show ?thesis
    proof (cases "cs = []")
      case True
      with s1 arr \<open>a\<close> show ?thesis by (auto intro: between_clean)
    next
      case False
      with s1 Cons.prems(3) have "dp_in_fragment s1" "dp_fragment s1 \<noteq> []" by auto
      from Cons.IH [OF s1(2) this s1(4) False arr(2)] Cons.prems(7) s1 False arr \<open>a\<close>
      show ?thesis by (auto simp: add.assoc)
    qed
  qed
qed simp

text \<open>A unit of one packet.\<close>

lemma single_packet:
  assumes "between s q g" and "\<And>s. ready s \<Longrightarrow> \<not> dp_in_fragment s \<Longrightarrow>
      \<exists>s'. dispatch_payload s (MakeRtp q t m p) p
        \<lparr>rh_payload_type = 96, rh_sequence = q, rh_timestamp = t, rh_marker = m, rh_payload_offset = 12\<rparr> = Some (s', out, True)
      \<and> ready s' \<and> \<not> dp_in_fragment s'" and "p \<noteq> []"
  shows "\<exists>s'. OnVideoPayload s (MakeRtp q t m p) = Some (s', out) \<and> ready s' \<and> \<not> dp_in_fragment s'"
proof -
  have "ready (start_push s q)" "\<not> dp_in_fragment (start_push s q)"
    using assms(1) between_stale [OF assms(1)] by (auto simp: between_def ready_def)
  from assms(2) [OF this] show ?thesis by (auto simp: OnVideoPayload_MakeRtp [OF assms(3)])
qed

lemma one_packet_unit:
  assumes "between s q g" and "length arr = 1" and "short_gaps g arr" and "unit_packets fu agg m u = [(m, p)]"
    and "\<exists>s'. OnVideoPayload s (MakeRtp q t m p) = Some (s', out) \<and> ready s' \<and> \<not> dp_in_fragment s'"
  shows "\<exists>s'. run_steps OnVideoPayload s (arriving q t arr (unit_packets fu agg m u)) =
      Some (s', if False \<in> set arr then [] else out)
    \<and> between s' (q + of_nat (length arr)) (gap_after g arr)"
proof -
  from assms(2) obtain a where a: "arr = [a]" by (cases arr) auto
  show ?thesis
  proof (cases a)
    case True
    with a assms(4,5) show ?thesis by (auto intro: between_clean)
  next
    case False
    with a assms(1,3,4) show ?thesis by (auto intro: between_gap)
  qed
qed

lemma unit_run:
  assumes "between s q g" and "sendable whole packable u" and "length arr = length (unit_packets fu agg m u)" and "short_gaps g arr"
  shows "\<exists>s'. run_steps OnVideoPayload s (arriving q t arr (unit_packets fu agg m u)) =
      Some (s', intact_nals hdr [(t, m, u, arr)])
    \<and> between s' (q + of_nat (length arr)) (gap_after g arr)"
proof (cases u)
  case (Single p)
  have "\<exists>s'. OnVideoPayload s (MakeRtp q t m p) = Some (s', [\<lparr>nu_data = kStartCode @ p, nu_rtp_timestamp = t, nu_marker = m\<rparr>])
      \<and> ready s' \<and> \<not> dp_in_fragment s'"
    using assms(2) Single
    by (intro single_packet [OF assms(1)]) (auto simp: whole_dispatch whole_nonempty ready_def EmitNal_def)
  from one_packet_unit [OF assms(1) _ assms(4) _ this, of u] assms(3) Single show ?thesis
    by (auto simp: intact_nals_def split: if_splits)
next
  case (Aggregate nals)
  have "\<exists>s'. OnVideoPayload s (MakeRtp q t m (agg nals)) =
        Some (s', map (\<lambda>n. \<lparr>nu_data = kStartCode @ n, nu_rtp_timestamp = t, nu_marker = m\<rparr>) nals)
      \<and> ready s' \<and> \<not> dp_in_fragment s'"
    using assms(2) Aggregate
    by (intro single_packet [OF assms(1)]) (auto simp: agg_dispatch agg_nonempty ready_def)
  from one_packet_unit [OF assms(1) _ assms(4) _ this, of u] assms(3) Aggregate show ?thesis
    by (auto simp: intact_nals_def split: if_splits)
next
  case (Fragments h chunks)
  with assms(2) obtain c cs where u: "u = Fragments h (c # cs)" by (cases chunks) auto
  with assms(3) obtain a as where arr: "arr = a # as" "length as = length cs" by (cases arr) auto
  show ?thesis
  proof (cases a)
    case False
    with damaged_rest [OF between_gap [OF assms(1)] arr(2), of t m h] assms(4) u arr show ?thesis
      by (auto simp: intact_nals_def add.assoc)
  next
    case True
    have "ready s" using assms(1) by (simp add: between_def)
    from fragment_start [OF this, of q t "cs = [] \<and> m" h "cs = []" c]
    obtain s1 where s1: "OnVideoPayload s (MakeRtp q t (cs = [] \<and> m) (fu h True (cs = []) c)) =
        Some (s1, if cs = [] then [\<lparr>nu_data = kStartCode @ hdr h @ c, nu_rtp_timestamp = t, nu_marker = m\<rparr>] else [])"
      "ready s1" "dp_in_fragment s1 = (cs \<noteq> [])" "dp_expected_seq s1 = q + 1" "cs \<noteq> [] \<longrightarrow> dp_fragment s1 = hdr h @ c"
      by (auto split: if_splits)
    show ?thesis
    proof (cases "cs = []")
      case True
      with s1 u arr \<open>a\<close> show ?thesis by (auto simp: intact_nals_def intro: between_clean)
    next
      case False
      with s1 hdr_nonempty [of h] have "dp_in_fragment s1" "dp_fragment s1 \<noteq> []" by auto
      from intact_rest [OF s1(2) this s1(4) False arr(2), of t m h] assms(4) s1 False u arr \<open>a\<close>
      show ?thesis by (auto simp: intact_nals_def add.assoc)
    qed
  qed
qed

lemma intact_nals_Cons: "intact_nals hdr (x # us) = intact_nals hdr [x] @ intact_nals hdr us"
  by (simp add: intact_nals_def)

lemma stream_run:
  assumes "between s q g"
    and "\<forall>(t, m, u, arr) \<in> set us. sendable whole packable u \<and> length arr = length (unit_packets fu agg m u)"
    and "short_gaps g (concat (map (\<lambda>(t, m, u, arr). arr) us))"
  shows "\<exists>s'. run_steps OnVideoPayload s (stream_packets fu agg q us) = Some (s', intact_nals hdr us)"
  using assms
proof (induction us arbitrary: s q g)
  case Nil
  then show ?case by (simp add: intact_nals_def)
next
  case (Cons x us)
  obtain t m u arr where x: "x = (t, m, u, arr)" by (cases x)
  from unit_run [OF Cons.prems(1), of u arr m t] Cons.prems(2,3) x
  obtain s1 where s1: "run_steps OnVideoPayload s (arriving q t arr (unit_packets fu agg m u)) =
      Some (s1, intact_nals hdr [x])" "between s1 (q + of_nat (length arr)) (gap_after g arr)"
    by (auto simp: short_gaps_append)
  from Cons.IH [OF s1(2)] Cons.prems(2,3) x s1(1) intact_nals_Cons [of x us] show ?case
    by (auto simp: run_steps_append short_gaps_append)
qed

end

subsection \<open>The two codecs\<close>

definition h264_whole :: "bytes \<Rightarrow> bool" where
  "h264_whole p \<longleftrightarrow> p \<noteq> [] \<and> 1 \<le> p ! 0 AND 0x1f \<and> p ! 0 AND 0x1f \<le> 23"

definition h265_whole :: "bytes \<Rightarrow> bool" where
  "h265_whole p \<longleftrightarrow> 2 \<le> length p \<and> drop_bit 1 (p ! 0) AND 0x3f \<le> 47"

definition aggregable :: "bytes \<Rightarrow> bool" where
  "aggregable n \<longleftrightarrow> n \<noteq> [] \<and> length n < 65536"

definition stap_a :: "bytes list \<Rightarrow> bytes" where
  "stap_a nals = 0x78 # aggregate nals"

definition ap_h265 :: "bytes list \<Rightarrow> bytes" where
  "ap_h265 nals = 0x60 # 0x01 # aggregate nals"

lemma HandleH264_stap_a:
  assumes "dp_callback s" and "list_all aggregable nals"
  shows "HandleH264 s (stap_a nals) t m =
    Some (s\<lparr>dp_nals := dp_nals s + of_nat (length nals)\<rparr>,
          map (\<lambda>n. \<lparr>nu_data = kStartCode @ n, nu_rtp_timestamp = t, nu_marker = m\<rparr>) nals, True)"
proof -
  have "\<forall>n \<in> set nals. n \<noteq> [] \<and> length n < 65536" using assms(2) by (simp add: list_all_iff aggregable_def)
  from aggregation_loop_aggregate [OF assms(1) this, of "[0x78]" t m] show ?thesis
    by (simp add: HandleH264_def stap_a_def)
qed

lemma HandleH265_ap:
  assumes "dp_callback s" and "list_all aggregable nals"
  shows "HandleH265 s (ap_h265 nals) t m =
    Some (s\<lparr>dp_nals := dp_nals s + of_nat (length nals)\<rparr>,
          map (\<lambda>n. \<lparr>nu_data = kStartCode @ n, nu_rtp_timestamp = t, nu_marker = m\<rparr>) nals, True)"
proof -
  have "\<forall>n \<in> set nals. n \<noteq> [] \<and> length n < 65536" using assms(2) by (simp add: list_all_iff aggregable_def)
  from aggregation_loop_aggregate [OF assms(1) this, of "[0x60, 0x01]" t m, simplified, folded numeral_2_eq_2] show ?thesis
    by (simp add: HandleH265_def ap_h265_def)
qed

interpretation h264_video: video_format kH264 fu_a "\<lambda>h. [h]" h264_whole stap_a aggregable
proof (unfold_locales, goal_cases)
  case (2 s p data rh)
  then show ?case by (simp add: dispatch_payload_def HandleH264_def h264_whole_def Suc_le_eq)
next
  case (4 s nals data rh)
  then show ?case by (simp add: dispatch_payload_def HandleH264_stap_a)
qed (simp_all add: h264_whole_def stap_a_def)

interpretation h265_video: video_format kH265 fu_h265 hdr_h265 h265_whole ap_h265 aggregable
proof (unfold_locales, goal_cases)
  case (2 s p data rh)
  then have "0 < length p" "\<not> length p < 2" by (auto simp: h265_whole_def)
  with 2 show ?case by (simp add: dispatch_payload_def HandleH265_def h265_whole_def)
next
  case (4 s nals data rh)
  then show ?case by (simp add: dispatch_payload_def HandleH265_ap)
qed (auto simp: h265_whole_def ap_h265_def)

subsection \<open>Properties\<close>

text \<open>
  C2: H.264 video under loss. Let a sender put any sequence of NAL units on the wire, each as a packet of its own, as
  FU-A fragments or in a STAP-A packet, with consecutive 16-bit sequence numbers from any start, and let any of the
  packets be lost, with fewer than 65536 missing in a row. Then the decoder is handed exactly the NAL units of the units
  that arrived whole, unchanged, in order, behind a start code and with their time stamp and marker: a loss costs the
  units it hits and no other, and nothing of a damaged unit gets through.
\<close>

theorem rtp_h264_loss_is_local:
  assumes "dp_codec s = kH264" and "dp_callback s" and "\<not> dp_in_fragment s"
    and "\<forall>(t, m, u, arr) \<in> set us. sendable h264_whole aggregable u \<and> length arr = length (unit_packets fu_a stap_a m u)"
    and "short_gaps 0 (concat (map (\<lambda>(t, m, u, arr). arr) us))"
  shows "\<exists>s'. run_steps OnVideoPayload s (stream_packets fu_a stap_a q us) = Some (s', intact_nals (\<lambda>h. [h]) us)"
  using h264_video.stream_run [OF _ assms(4,5), of s q] assms(1-3)
  by (simp add: h264_video.between_def h264.ready_def)

theorem rtp_h264_loss_is_local_witness:
  "\<exists>s'. run_steps OnVideoPayload (depacketizer_set_callback (depacketizer_init kH264))
      (stream_packets fu_a stap_a 65534
         [(100, False, Single [0x67, 0x42], [True]),
          (200, True, Fragments 0x65 [[0xaa], [0xbb], [0xcc]], [True, False, True]),
          (300, True, Fragments 0x41 [[0x11], [0x22]], [True, True]),
          (400, True, Aggregate [[0x41, 1], [0x41, 2]], [True])]) =
    Some (s', [\<lparr>nu_data = [0, 0, 0, 1, 0x67, 0x42], nu_rtp_timestamp = 100, nu_marker = False\<rparr>,
               \<lparr>nu_data = [0, 0, 0, 1, 0x41, 0x11, 0x22], nu_rtp_timestamp = 300, nu_marker = True\<rparr>,
               \<lparr>nu_data = [0, 0, 0, 1, 0x41, 1], nu_rtp_timestamp = 400, nu_marker = True\<rparr>,
               \<lparr>nu_data = [0, 0, 0, 1, 0x41, 2], nu_rtp_timestamp = 400, nu_marker = True\<rparr>])"
  using rtp_h264_loss_is_local [of "depacketizer_set_callback (depacketizer_init kH264)"
      "[(100, False, Single [0x67, 0x42], [True]),
        (200, True, Fragments 0x65 [[0xaa], [0xbb], [0xcc]], [True, False, True]),
        (300, True, Fragments 0x41 [[0x11], [0x22]], [True, True]),
        (400, True, Aggregate [[0x41, 1], [0x41, 2]], [True])]" 65534]
  by (simp add: depacketizer_set_callback_def depacketizer_init_def intact_nals_def kStartCode_def h264_whole_def aggregable_def)

text \<open>
  C21: H.265 video under loss: the same with two-byte NAL headers, fragmentation units and aggregation packets of
  RFC 7798.
\<close>

theorem rtp_h265_loss_is_local:
  assumes "dp_codec s = kH265" and "dp_callback s" and "\<not> dp_in_fragment s"
    and "\<forall>(t, m, u, arr) \<in> set us. sendable h265_whole aggregable u \<and> length arr = length (unit_packets fu_h265 ap_h265 m u)"
    and "short_gaps 0 (concat (map (\<lambda>(t, m, u, arr). arr) us))"
  shows "\<exists>s'. run_steps OnVideoPayload s (stream_packets fu_h265 ap_h265 q us) = Some (s', intact_nals (\<lambda>(h0, h1). [h0, h1]) us)"
proof -
  have "hdr_h265 = (\<lambda>(h0, h1). [h0, h1])" by (simp add: fun_eq_iff hdr_h265_def)
  with h265_video.stream_run [OF _ assms(4,5), of s q] assms(1-3) show ?thesis
    by (simp add: h265_video.between_def h265.ready_def)
qed

theorem rtp_h265_loss_is_local_witness:
  "\<exists>s'. run_steps OnVideoPayload (depacketizer_set_callback (depacketizer_init kH265))
      (stream_packets fu_h265 ap_h265 7
         [(100, False, Aggregate [[0x40, 1], [0x42, 1]], [True]),
          (200, True, Fragments (0x26, 1) [[0xaa], [0xbb]], [True, False]),
          (300, True, Fragments (0x02, 1) [[0x11], [0x22]], [True, True])]) =
    Some (s', [\<lparr>nu_data = [0, 0, 0, 1, 0x40, 1], nu_rtp_timestamp = 100, nu_marker = False\<rparr>,
               \<lparr>nu_data = [0, 0, 0, 1, 0x42, 1], nu_rtp_timestamp = 100, nu_marker = False\<rparr>,
               \<lparr>nu_data = [0, 0, 0, 1, 0x02, 1, 0x11, 0x22], nu_rtp_timestamp = 300, nu_marker = True\<rparr>])"
  using rtp_h265_loss_is_local [of "depacketizer_set_callback (depacketizer_init kH265)"
      "[(100, False, Aggregate [[0x40, 1], [0x42, 1]], [True]),
        (200, True, Fragments (0x26, 1) [[0xaa], [0xbb]], [True, False]),
        (300, True, Fragments (0x02, 1) [[0x11], [0x22]], [True, True])]" 7]
  by (simp add: depacketizer_set_callback_def depacketizer_init_def intact_nals_def kStartCode_def aggregable_def)

end
