(* ===== verification/Pcap_Stub.thy ===== *)
theory Pcap_Stub
  imports Prelude
begin

section \<open>The packet-capture stub\<close>

text \<open>
  Model of \<open>gslib/src/main/cpp/compat/pcap_stub.c\<close> and \<open>compat/pcap.h\<close>: the functions that stand in for libpcap so
  that wfb-ng's \<open>rx.cpp\<close> links on Android. Each fails: \<open>pcap_create\<close> returns
  \<open>None\<close>, the null handle, and the handle type is left open because no value of it is ever made. The error buffer is the caller's array, \<open>None\<close> the null pointer; a
  write past its end is the outer \<open>None\<close>.
\<close>

definition PCAP_ERRBUF_SIZE :: nat where "PCAP_ERRBUF_SIZE = 256"

record pcap_pkthdr =
  ph_ts :: "int \<times> int"
  ph_caplen :: u32
  ph_len :: u32

definition g_error :: string where
  "g_error = ''libpcap is not available on Android; frames come from devourer''"

text \<open>
  \<open>strncpy\<close>: at most \<open>n\<close> characters of the source up to its end, then zeros up to \<open>n\<close>; it does not terminate a source
  of \<open>n\<close> characters or more.
\<close>

definition c_strncpy :: "string \<Rightarrow> string \<Rightarrow> nat \<Rightarrow> string option" where
  "c_strncpy dst src n =
     (if length dst < n then None
      else Some (take n src @ replicate (n - length src) (CHR 0x00) @ drop n dst))"

text \<open>What a reader of a C string sees: the characters before the first zero, if there is one.\<close>

definition c_string :: "string \<Rightarrow> string option" where
  "c_string buf = (if CHR 0x00 \<in> set buf then Some (takeWhile (\<lambda>c. c \<noteq> CHR 0x00) buf) else None)"

definition write_error :: "string option \<Rightarrow> string option option" where
  "write_error errbuf =
     (case errbuf of
        None \<Rightarrow> Some None
      | Some buf \<Rightarrow> do {
          buf1 \<leftarrow> c_strncpy buf g_error (PCAP_ERRBUF_SIZE - 1);
          if PCAP_ERRBUF_SIZE - 1 < length buf1 then Some (Some (buf1[PCAP_ERRBUF_SIZE - 1 := CHR 0x00])) else None
        })"

definition pcap_create :: "string \<Rightarrow> string option \<Rightarrow> ('h option \<times> string option) option" where
  "pcap_create source errbuf = map_option (Pair None) (write_error errbuf)"

definition pcap_set_snaplen :: "'h option \<Rightarrow> int \<Rightarrow> int" where "pcap_set_snaplen p snaplen = - 1"
definition pcap_set_promisc :: "'h option \<Rightarrow> int \<Rightarrow> int" where "pcap_set_promisc p promisc = - 1"
definition pcap_set_timeout :: "'h option \<Rightarrow> int \<Rightarrow> int" where "pcap_set_timeout p timeout_ms = - 1"
definition pcap_set_immediate_mode :: "'h option \<Rightarrow> int \<Rightarrow> int" where "pcap_set_immediate_mode p immediate = - 1"
definition pcap_set_buffer_size :: "'h option \<Rightarrow> int \<Rightarrow> int" where "pcap_set_buffer_size p bytes = - 1"
definition pcap_activate :: "'h option \<Rightarrow> int" where "pcap_activate p = - 1"

definition pcap_setnonblock :: "'h option \<Rightarrow> int \<Rightarrow> string option \<Rightarrow> (int \<times> string option) option" where
  "pcap_setnonblock p nonblock errbuf = map_option (Pair (- 1)) (write_error errbuf)"

definition pcap_datalink :: "'h option \<Rightarrow> int" where "pcap_datalink p = - 1"
definition pcap_compile :: "'h option \<Rightarrow> 'f \<Rightarrow> string \<Rightarrow> int \<Rightarrow> int \<Rightarrow> 'f \<times> int" where
  "pcap_compile p fp str optimize netmask = (fp, - 1)"
definition pcap_setfilter :: "'h option \<Rightarrow> 'f \<Rightarrow> int" where "pcap_setfilter p fp = - 1"
definition pcap_freecode :: "'f \<Rightarrow> 'f" where "pcap_freecode fp = fp"
definition pcap_get_selectable_fd :: "'h option \<Rightarrow> int" where "pcap_get_selectable_fd p = - 1"
definition pcap_close :: "'h option \<Rightarrow> unit" where "pcap_close p = ()"
definition pcap_next :: "'h option \<Rightarrow> pcap_pkthdr \<Rightarrow> bytes option \<times> pcap_pkthdr" where "pcap_next p h = (None, h)"
definition pcap_geterr :: "'h option \<Rightarrow> string" where "pcap_geterr p = g_error"

subsection \<open>The error buffer\<close>

text \<open>
  The copy and the terminating zero together: in a buffer of the documented size the text read back is the source cut to
  the size, for a source of any length, and nothing past that size is touched.
\<close>

lemma c_string_prefix: "CHR 0x00 \<notin> set src \<Longrightarrow> c_string (src @ CHR 0x00 # rest) = Some src"
  by (induction src) (auto simp: c_string_def)

lemma strncpy_terminated:
  assumes "CHR 0x00 \<notin> set src" and "n < length dst"
  shows "\<exists>buf. c_strncpy dst src n = Some buf \<and> length buf = length dst
    \<and> c_string (buf[n := CHR 0x00]) = Some (take n src) \<and> drop (Suc n) (buf[n := CHR 0x00]) = drop (Suc n) dst"
proof -
  let ?pad = "replicate (n - length src) (CHR 0x00)"
  obtain c rest where d: "drop n dst = c # rest" "rest = drop (Suc n) dst"
    using assms(2) by (metis Cons_nth_drop_Suc)
  have len: "length (take n src @ ?pad) = n" by simp
  have buf: "c_strncpy dst src n = Some (take n src @ ?pad @ c # rest)"
    using assms(2) d(1) by (simp add: c_strncpy_def)
  have upd: "(take n src @ ?pad @ c # rest)[n := CHR 0x00] = take n src @ ?pad @ CHR 0x00 # rest"
    using list_update_length [of "take n src @ ?pad" c rest "CHR 0x00"] len by simp
  have "CHR 0x00 \<notin> set (take n src)" using assms(1) by (meson in_set_takeD)
  then have "c_string (take n src @ ?pad @ CHR 0x00 # rest) = Some (take n src)"
    by (cases "n - length src") (simp_all add: c_string_prefix)
  moreover have "drop (Suc n) (take n src @ ?pad @ CHR 0x00 # rest) = rest" using len by simp
  ultimately show ?thesis using buf upd d assms(2) len by simp
qed

text \<open>
  No entry point opens anything, and the two that fill an error buffer leave in it the whole message as a C string, without
  writing past \<open>PCAP_ERRBUF_SIZE\<close>. The null buffer is accepted.
\<close>

lemma write_error_message:
  assumes "PCAP_ERRBUF_SIZE \<le> length buf"
  shows "\<exists>buf'. write_error (Some buf) = Some (Some buf') \<and> length buf' = length buf \<and> c_string buf' = Some g_error
    \<and> drop PCAP_ERRBUF_SIZE buf' = drop PCAP_ERRBUF_SIZE buf"
proof -
  have g: "CHR 0x00 \<notin> set g_error" "take 255 g_error = g_error" by (simp_all add: g_error_def)
  from strncpy_terminated [OF g(1), of 255 buf] assms g(2) show ?thesis
    by (auto simp: write_error_def PCAP_ERRBUF_SIZE_def)
qed

lemma pcap_create_fails:
  "PCAP_ERRBUF_SIZE \<le> length buf \<Longrightarrow>
     \<exists>buf'. pcap_create source (Some buf) = Some (None, Some buf') \<and> c_string buf' = Some (pcap_geterr None)"
  "pcap_create source None = Some (None, None)"
  using write_error_message [of buf] by (auto simp: pcap_create_def pcap_geterr_def) (simp add: write_error_def)

end
