(* ===== verification/Spec2Isabelle.thy ===== *)
theory Spec2Isabelle
  imports Jni_Types Station_Threads Rtp_Streams Router_Loop Pcap_Stub
begin

text \<open>
  \<^bold>\<open>OpenIPC mobile ground station: a verification development\<close>

  The program turns an Android phone into a ground station for an OpenIPC drone. A Wi-Fi adapter (or a UDP socket)
  delivers frames; the wfb layer selects those of the configured link, decrypts them (in wfb-ng, a submodule) and hands
  out payloads per radio port. Video payloads are RTP and become Annex-B NAL units for the decoder; telemetry payloads
  are MAVLink, which a router fans out to ground control software and decodes for the display, and MSP DisplayPort,
  which becomes the on-screen text grid. Statistics of the link drive the adaptive-link controller, whose messages go
  up to the drone together with what ground control software sends. One object owns all of it; a JNI bridge exposes it
  to the Kotlin application.

  \<^bold>\<open>Theories\<close>, each importing the components it calls:

  \<^item> \<open>Prelude\<close>: machine integers as words, checked reads (\<open>read8\<close>, \<open>read_span\<close>: \<open>None\<close> is an access outside a buffer),
    runs of a step function (\<open>run_steps\<close>), and the locales every parser is an instance of: \<open>checked_machine\<close> (an
    invariant under which a step always returns), \<open>checked_emitter\<close> (and every output is well-formed),
    \<open>stream_parser\<close> (chunking does not matter) and \<open>refinement\<close> (a simulation of a specification).
    \<open>Doubles\<close>: doubles as exact reals with the IEEE special values. \<open>Decimal\<close>: decimal printing and reading.
  \<^item> \<open>Config\<close> (\<open>core/include/openipc/config.h\<close>): configuration structures, radio ports, \<open>ChannelId\<close>.
  \<^item> \<open>Mavlink_Framer\<close>, \<open>Telemetry\<close>, \<open>Mavlink_Router\<close> (\<open>core/src/mavlink/router.cpp\<close>): the framer and its accounting of
    bytes; the decoder of seven message types; endpoints (a socket that cannot be set up is opened and closed again), one
    round of the poll loop, fan-out and uplink, with an \<open>inductive\<close> set of reachable states over which descriptors are
    accounted for; what each recipient of the downlink is sent, and the mode the telemetry keeps of a stream.
    \<open>Router_Loop\<close>: the poll loop as a whole, with the calls other threads make before and during the wait.
  \<^item> \<open>Rtp\<close> (\<open>core/src/rtp/depacketizer.cpp\<close>): header parsing, H.264 and H.265 reassembly (one locale, interpreted for both
    formats), aggregation, loss, codec detection. \<open>Rtp_Streams\<close>: streams of units of any form with any packets missing,
    in the locale \<open>video_format\<close>, which extends that of \<open>Rtp\<close>.
  \<^item> \<open>Msp_Osd\<close> (\<open>core/src/msp/displayport.cpp\<close>): the MSP v1/v2 parser and the DisplayPort commands, refined to a
    character terminal.
  \<^item> \<open>Link_Stats\<close>, \<open>Wfb_Receiver\<close>, \<open>Session_Keys\<close> (\<open>core/src/wfb\<close>): snapshots, classification of frames, signal
    accounting, dispatch to sinks, key files (written through a buffer that \<open>fclose\<close> flushes).
  \<^item> \<open>Alink\<close> (\<open>core/src/alink/alink.cpp\<close>): the Kalman filter, the score, the FEC change, the message and its frame.
  \<^item> \<open>Packet_Sources\<close> (\<open>packet_source.h\<close>, \<open>udp_source.cpp\<close>, \<open>devourer_source.cpp\<close>): the two sources under the contract
    \<open>source_contract\<close>.
  \<^item> \<open>Ground_Station\<close> (\<open>ground_station.cpp\<close>): start and stop, payload routing, uplink frames, the statistics thread,
    live changes, and the \<open>inductive\<close> set of states any sequence of its calls and thread steps can reach. \<open>Stats_Thread\<close>:
    \<open>StatsLoop\<close> as a whole. \<open>Station_Threads\<close>: \<open>Stop\<close> and \<open>SendUplink\<close> cut where the code holds no lock, and the
    owner, the router thread and the statistics thread taking turns between the cuts.
  \<^item> \<open>Jni_Bridge\<close> (\<open>jni_bridge.cpp\<close>): the session, the native functions, the callbacks and the arrays they fill.
    \<open>Jni_Types\<close>: what the calls into the JVM carry.
  \<^item> \<open>Pcap_Stub\<close> (\<open>compat/pcap_stub.c\<close>): the stand-in for libpcap.

  \<^bold>\<open>Correspondence\<close>. A class is a record of its members; a method is a function from the state (and what the outside
  decides) to the new state and a list of outputs in order. A callback member is a flag that it is set; its calls are the
  outputs. \<open>None\<close> is undefined behaviour: a read outside a buffer, a null pointer, a conversion that overflows. Exceptions
  and error returns are values. Loops over data are \<open>function\<close>s with a measure, so every operation returns; no fuel is
  used. The loops of the threads, which run until they are stopped, are recursions over the rounds the outside provides,
  and a flag tells whether the loop has returned. The mutexes of the router and of the telemetry make their operations
  atomic. The station holds no lock around its calls; \<open>gs_reach\<close> takes each of them (\<open>Start\<close> and \<open>Stop\<close> included) and each
  round of its threads as one step. \<open>Station_Threads\<close> has finer steps of \<open>Stop\<close>, the uplink and the adaptive link; for
  \<open>Start\<close>, whose source thread may run before \<open>running_\<close> is set, \<open>OnFrame_before_running\<close> shows that the frames received
  in between are handled as they are afterwards.

  \<^bold>\<open>What the properties show\<close>. Safety: no sequence of inputs makes a parser, the router or the station read outside a
  buffer, and every well-formed output is emitted by the same machines (\<open>rtp_never_faults\<close>, \<open>osd_safe_for_all_streams\<close>,
  \<open>router_reachable_safe\<close>, \<open>gs_reachable_safe\<close>). Functional correctness as round trips against encoders: framing,
  fragmentation, MSP packets, MAVLink messages, adaptive-link messages, statistics arrays, endpoint arrays, uplink
  frames. Refinement: the OSD decoder implements a terminal, the snapshot statistics are those of the frames received,
  the station is the product of its pipelines. Resources: router, sources, station and bridge release what they acquire.
  Liveness and termination: the MSP parser resynchronises; the router's loop returns when it is stopped, whatever arrives
  meanwhile. Loss: a lost packet costs the video units it belongs to and no other. Rate: the statistics thread sends at
  most one adaptive-link message per interval. Types: what the listener is called with. Threads: which null pointers the
  unlocked members can lead to, and that they do. End to end: \<open>video_end_to_end\<close>, \<open>osd_end_to_end\<close> and \<open>commands_end_to_end\<close>
  follow video (with loss) and screens from the radio frames to the calls of the listener, and commands from an endpoint's bytes to
  the injected frames. Some theorems record behaviour that differs from a comment or from the
  intent: shared framing of TCP clients, the peer of a UDP server, a failed start, the adaptive-link interval, signed
  messages, wide link ids, codec detection, an inverted noise range, FEC parameters that are never set, key files cut short
  by a full device without an error.

  \<^bold>\<open>Parameters and assumptions\<close>. The wfb-ng aggregator, libsodium, libusb with the devourer driver, the JVM, the file
  system, the sockets and the clock are arguments (\<open>aggregator_ops\<close>, \<open>sodium\<close>, \<open>usb_ops\<close>, \<open>jvm\<close>, \<open>file_os\<close>, \<open>network\<close>,
  \<open>poll_result\<close>). Assumed of them, where a property needs it: a new descriptor differs from the open ones
  (\<open>fresh_sockets\<close>, \<open>fresh_accepts\<close>, \<open>fresh_pipe\<close>); at most \<open>2 ^ 24\<close> frames per statistics interval; counters
  below \<open>2 ^ 31\<close>. Single floats are symbolic (a bit pattern or a quotient); doubles do not round.

  \<^bold>\<open>Not modelled\<close>. The Kotlin application apart from the array layout it shares with the bridge; wfb-ng, libsodium and
  devourer, whose sources are not in the repository; \<open>wfb_log.h\<close>, which only redirects logging, and the log messages; the
  socket options of the endpoints (\<open>SetNonBlocking\<close>, \<open>SO_REUSEADDR\<close>), which no result depends on; memory allocation
  failure in the C++ code. Of the data races, those on the pointers \<open>source_\<close> and \<open>alink_\<close> are modelled as interleavings;
  the C++ memory model below them is not, nor are torn reads of the configuration members.
\<close>

subsection \<open>From the radio to the application\<close>

text \<open>The calls of one listener method among those a list of events makes.\<close>

definition video_calls :: "jvm_call list \<Rightarrow> (bytes \<times> int) list" where
  "video_calls calls = concat (map (\<lambda>c. case c of OnVideoNal data n \<Rightarrow> [(data, n)] | _ \<Rightarrow> []) calls)"

definition osd_calls :: "jvm_call list \<Rightarrow> (int \<times> int \<times> int list \<times> int list) list" where
  "osd_calls calls = concat (map (\<lambda>c. case c of OnOsdFrame rows cols gs as \<Rightarrow> [(rows, cols, gs, as)] | _ \<Rightarrow> []) calls)"

definition listening :: "jvm \<Rightarrow> ('a, 'd) session \<Rightarrow> bool" where
  "listening vm session \<longleftrightarrow> fst (ScopedEnv vm) \<and> jv_alloc vm \<and> mi_on_video (jn_methods session) \<and> mi_on_osd (jn_methods session)"

lemma video_calls_events:
  "listening vm session \<Longrightarrow> video_calls (concat (map (call_jvm vm session) ev)) = map (\<lambda>d. (d, jint_of (of_nat (length d)))) (video_of ev)"
  by (induction ev) (auto simp: video_calls_def video_of_def call_jvm_def listening_def osd_arrays_def Let_def split: gs_event.split)

lemma osd_calls_events:
  "listening vm session \<Longrightarrow> osd_calls (concat (map (call_jvm vm session) ev))
     = map (\<lambda>f. (of_rows f, of_cols f, fst (osd_arrays f), snd (osd_arrays f))) (osd_of ev)"
  by (induction ev) (auto simp: osd_calls_def osd_of_def call_jvm_def listening_def osd_arrays_def Let_def split: gs_event.split)

lemma frames_events:
  assumes "gs_reach s" and "gs_callbacks s = jni_callbacks" and "gs_receiver s = Some r"
    and "run_steps (ProcessFrame ops) r frames = Some (r', items)"
  shows "\<exists>s' ev nals screens. run_steps (gs_OnFrame ops now) s frames = Some (s', ev)
    \<and> run_steps OnVideoPayload (gs_depacketizer s) (on_ports {kPortVideo} items) = Some (gs_depacketizer s', nals)
    \<and> video_of ev = map nu_data nals
    \<and> run_steps osd_Push (gs_osd s) (on_ports {kPortMavlinkRx, kPortTunnelRx} items) = Some (gs_osd s', screens) \<and> osd_of ev = screens"
  using frames_pipelines [OF _ assms(3,4), of now] gs_reachable_inv [OF assms(1)] assms(2)
  by (auto simp: pipelines_step_def jni_callbacks_def)

text \<open>The example station with the codec chosen, and a session whose listener has every method.\<close>

definition h264_station :: "(nat, nat) ground_station" where
  "h264_station = SetVideoCodec example_station kH264"

definition listening_session :: "(nat, nat) session" where
  "listening_session = nativeCreate\<lparr>jn_methods := sa_methods sample_args\<rparr>"

lemma listening_example: "listening plain_jvm listening_session"
  by (simp add: listening_def ScopedEnv_def JNI_OK_def JNI_EDETACHED_def plain_jvm_def listening_session_def nativeCreate_def sample_args_def)

lemma h264_station_fields:
  "gs_reach h264_station" "gs_callbacks h264_station = jni_callbacks" "dp_codec (gs_depacketizer h264_station) = kH264"
  "dp_callback (gs_depacketizer h264_station)" "gs_osd h264_station = osd_set_callback msp_decoder_init"
  "\<exists>r. gs_receiver h264_station = Some r \<and> wr_radio r = radio_config_default \<and> plain_receiver r"
  "\<not> dp_in_fragment (gs_depacketizer h264_station)"
  using gs_codec [OF station_reach] example_fields
  by (simp_all add: h264_station_def SetVideoCodec_def all_callbacks_def jni_callbacks_def depacketizer_set_codec_def
      depacketizer_set_callback_def depacketizer_init_def)

lemma intact_calls:
  "map (\<lambda>d. (d, jint_of (of_nat (length d)))) (map nu_data (intact_nals hdr us)) =
     concat (map (\<lambda>(t, m, u, arr). if False \<in> set arr then []
       else map (\<lambda>nal. (kStartCode @ nal, jint_of (of_nat (4 + length nal)))) (unit_nals hdr u)) us)"
  by (induction us) (auto simp: intact_nals_def kStartCode_def o_def)

text \<open>
  C4: video end to end, with loss. Let the payloads the receiver decodes on the video port, out of any sequence of radio
  frames and mixed in any way with those of other ports, be what arrives of the RTP packets of a sequence of H.264 units
  (single packets, fragments, aggregates) any of whose packets may be missing. Then the Kotlin listener is called with
  exactly the NAL units of the units that arrived whole, in order, each behind the start code and with its size, cast to
  the \<open>jint\<close> the method takes.
\<close>

theorem video_end_to_end:
  assumes "gs_reach s" and "gs_callbacks s = jni_callbacks" and "gs_receiver s = Some r"
    and "run_steps (ProcessFrame ops) r frames = Some (r', items)"
    and "on_ports {kPortVideo} items = stream_packets fu_a stap_a q us"
    and "\<forall>(t, m, u, arr) \<in> set us. sendable h264_whole aggregable u \<and> length arr = length (unit_packets fu_a stap_a m u)"
    and "short_gaps 0 (concat (map (\<lambda>(t, m, u, arr). arr) us))"
    and "dp_codec (gs_depacketizer s) = kH264" and "dp_callback (gs_depacketizer s)" and "\<not> dp_in_fragment (gs_depacketizer s)"
    and "listening vm session"
  shows "\<exists>s' ev. run_steps (gs_OnFrame ops now) s frames = Some (s', ev)
    \<and> video_calls (concat (map (call_jvm vm session) ev)) =
        concat (map (\<lambda>(t, m, u, arr). if False \<in> set arr then []
          else map (\<lambda>nal. (kStartCode @ nal, jint_of (of_nat (4 + length nal)))) (unit_nals (\<lambda>h. [h]) u)) us)"
proof -
  obtain s' ev nals where ev: "run_steps (gs_OnFrame ops now) s frames = Some (s', ev)" "video_of ev = map nu_data nals"
      "run_steps OnVideoPayload (gs_depacketizer s) (stream_packets fu_a stap_a q us) = Some (gs_depacketizer s', nals)"
    using frames_events [OF assms(1-4), of now] assms(5) by auto
  have "h264_video.between (gs_depacketizer s) q 0"
    using assms(8-10) by (simp add: h264_video.between_def h264.ready_def)
  from h264_video.stream_run [OF this assms(6,7)] ev(3) have "nals = intact_nals (\<lambda>h. [h]) us" by auto
  with ev(1,2) video_calls_events [OF assms(11), of ev] intact_calls [of "\<lambda>h. [h]" us] show ?thesis by simp
qed

text \<open>A key frame whose two fragments are lost, and a picture after it that arrives.\<close>

definition lossy_units :: "(u32 \<times> bool \<times> u8 video_unit \<times> bool list) list" where
  "lossy_units = [(9000, True, Fragments 0x65 [[0xaa], [0xbb]], [False, False]), (9100, True, Single [0x41, 0xcc], [True])]"

theorem video_end_to_end_witness:
  "\<exists>s' ev. run_steps (gs_OnFrame plain_aggregator 5) h264_station
      [(air_frame (ChannelId 7669206 kPortVideo) (MakeRtp 9 9100 True [0x41, 0xcc]) [0, 0, 0, 0], sample_meta)]
      = Some (s', ev)
    \<and> video_calls (concat (map (call_jvm plain_jvm listening_session) ev)) = [([0, 0, 0, 1, 0x41, 0xcc], 6)]"
proof -
  let ?p = "MakeRtp 9 9100 True [0x41, 0xcc]"
  obtain r where r: "gs_receiver h264_station = Some r" "wr_radio r = radio_config_default" "plain_receiver r"
    using h264_station_fields(6) by blast
  from example_frame [OF r(3,2), of kPortVideo ?p] obtain r' where
    f: "run_steps (ProcessFrame plain_aggregator) r [(air_frame (ChannelId 7669206 kPortVideo) ?p [0, 0, 0, 0], sample_meta)]
      = Some (r', [(kPortVideo, ?p)])" by auto
  have items: "on_ports {kPortVideo} [(kPortVideo, ?p)] = stream_packets fu_a stap_a 7 lossy_units"
    by (simp add: on_ports_def lossy_units_def)
  have us: "\<forall>(t, m, u, arr) \<in> set lossy_units. sendable h264_whole aggregable u \<and> length arr = length (unit_packets fu_a stap_a m u)"
      "short_gaps 0 (concat (map (\<lambda>(t, m, u, arr). arr) lossy_units))"
    by (simp_all add: lossy_units_def h264_whole_def)
  from video_end_to_end [OF h264_station_fields(1,2) r(1) f items us h264_station_fields(3,4) h264_station_fields(7) listening_example, of 5]
  show ?thesis by (simp add: kStartCode_def lossy_units_def jint_of_small)
qed

text \<open>
  C5: OSD end to end. If the telemetry and tunnel payloads of any sequence of radio frames concatenate to a stream of MSP
  packets, then the screens the Kotlin listener is given are those of a character terminal fed with the DisplayPort
  messages of the stream, in order, each flattened row by row into arrays of rows times columns entries.
\<close>

theorem osd_end_to_end:
  assumes "gs_reach s" and "gs_callbacks s = jni_callbacks" and "gs_receiver s = Some r"
    and "run_steps (ProcessFrame ops) r frames = Some (r', items)"
    and "concat (on_ports {kPortMavlinkRx, kPortTunnelRx} items) = packet_stream packets"
    and "\<forall>(gap, pk) \<in> set packets. 0x24 \<notin> set gap \<and> packet_ok pk"
    and "ms_callback (gs_osd s)" and "ms_state (gs_osd s) = kIdle" and "listening vm session"
  shows "\<exists>s' ev screens. run_steps (gs_OnFrame ops now) s frames = Some (s', ev)
    \<and> osd_calls (concat (map (call_jvm vm session) ev)) =
        map (\<lambda>f. (of_rows f, of_cols f, map (\<lambda>c. uint (oc_glyph c)) (of_cells f), map (\<lambda>c. uint (oc_attributes c)) (of_cells f))) screens
    \<and> run_spec terminal_step (canvas_of (ms_frame (gs_osd s))) (displayport_payloads (map snd packets))
        = (canvas_of (ms_frame (gs_osd s')), map canvas_of screens)
    \<and> list_all frame_wf screens"
proof -
  have inv: "osd_inv (gs_osd s)" using gs_reachable_inv [OF assms(1)] by (simp add: parts_inv_def)
  obtain s' ev screens where ev: "run_steps (gs_OnFrame ops now) s frames = Some (s', ev)" "osd_of ev = screens"
      "osd_Push (gs_osd s) (packet_stream packets) = Some (gs_osd s', screens)"
    using frames_events [OF assms(1-4), of now] assms(5) msp_stream.run_concat [OF inv] by auto
  have "list_all frame_wf screens" using msp.run_good [OF inv, of "packet_stream packets"] ev(3) by (auto simp: osd_Push_def)
  moreover have "run_spec terminal_step (canvas_of (ms_frame (gs_osd s))) (displayport_payloads (map snd packets))
      = (canvas_of (ms_frame (gs_osd s')), map canvas_of screens)"
    using packet_stream_run [OF inv assms(7,8,6)] ev(3) unfolding osd_Push_def by auto
  ultimately show ?thesis using ev(1,2) osd_calls_events [OF assms(9), of ev] by (auto simp: osd_arrays_def)
qed

theorem osd_end_to_end_witness:
  "\<exists>s' ev screens. run_steps (gs_OnFrame plain_aggregator 5) h264_station
      [(air_frame (ChannelId 7669206 kPortTunnelRx) (packet_stream [([], MspV2 0x3e 0 182 [4])]) [0, 0, 0, 0], sample_meta)] = Some (s', ev)
    \<and> length (osd_calls (concat (map (call_jvm plain_jvm listening_session) ev))) = 1"
proof -
  let ?items = "[([], MspV2 0x3e 0 182 [4])]" and ?p = "packet_stream [([], MspV2 0x3e 0 182 [4])]"
  obtain r where r: "gs_receiver h264_station = Some r" "wr_radio r = radio_config_default" "plain_receiver r"
    using h264_station_fields(6) by blast
  from example_frame [OF r(3,2), of kPortTunnelRx ?p] obtain r' where
    f: "run_steps (ProcessFrame plain_aggregator) r [(air_frame (ChannelId 7669206 kPortTunnelRx) ?p [0, 0, 0, 0], sample_meta)]
      = Some (r', [(kPortTunnelRx, ?p)])" by auto
  have cat: "concat (on_ports {kPortMavlinkRx, kPortTunnelRx} [(kPortTunnelRx, ?p)]) = packet_stream ?items"
    by (simp add: on_ports_def)
  have ok: "\<forall>(gap, pk) \<in> set ?items. (0x24 :: u8) \<notin> set gap \<and> packet_ok pk" by simp
  have payloads: "displayport_payloads (map snd ?items) = [[4]]" by (simp add: displayport_payloads_def kMspDisplayPort_def)
  have osd: "ms_callback (gs_osd h264_station)" "ms_state (gs_osd h264_station) = kIdle"
    using osd_init(2,3) by (simp_all add: h264_station_fields(5))
  obtain s' ev screens where run: "run_steps (gs_OnFrame plain_aggregator 5) h264_station
      [(air_frame (ChannelId 7669206 kPortTunnelRx) ?p [0, 0, 0, 0], sample_meta)] = Some (s', ev)"
    "osd_calls (concat (map (call_jvm plain_jvm listening_session) ev)) =
        map (\<lambda>f. (of_rows f, of_cols f, map (\<lambda>c. uint (oc_glyph c)) (of_cells f), map (\<lambda>c. uint (oc_attributes c)) (of_cells f))) screens"
    "run_spec terminal_step (canvas_of (ms_frame (gs_osd h264_station))) [[4]] = (canvas_of (ms_frame (gs_osd s')), map canvas_of screens)"
    using osd_end_to_end [OF h264_station_fields(1,2) r(1) f cat ok osd listening_example, of 5] payloads by auto
  have "length (map canvas_of screens) = 1" using arg_cong [OF run(3), of "\<lambda>x. length (snd x)"] by (simp add: terminal_step_def)
  with run(1,2) show ?thesis by auto
qed

subsection \<open>From ground control to the aircraft\<close>

lemma route_uplinks:
  "gs_source s \<noteq> None \<Longrightarrow> gc_source (gs_config s) = kDevourer \<Longrightarrow>
     injected_of (snd (route_actions ops s (map Uplink fs)))
       = map (uplink_frame (ChannelId (rc_link_id (gc_radio (gs_config s))) kPortMavlinkTx)) fs"
proof (induction fs arbitrary: s)
  case (Cons f fs)
  let ?s = "fst (SendUplink ops s kPortMavlinkTx f)"
  have "gs_source ?s \<noteq> None" "gs_config ?s = gs_config s" using Cons.prems by (auto simp: SendUplink_state)
  moreover have "injected_of (snd (SendUplink ops s kPortMavlinkTx f))
      = [uplink_frame (ChannelId (rc_link_id (gc_radio (gs_config s))) kPortMavlinkTx) f]"
    using Cons.prems by (auto simp: SendUplink_def injected_of_def Let_def split_def)
  ultimately show ?case using Cons.IH [of ?s] Cons.prems(2) by (simp add: split_def Let_def)
qed simp

text \<open>
  C6: commands end to end. Whatever bytes ground control software sends to an endpoint that may send up, cut in any way
  and with noise between the messages, the station injects one radio frame per complete MAVLink message, in order; a
  receiver of the same link classifies each to the MAVLink uplink port, and its payload is the message unchanged. An
  endpoint without permission causes no transmission.
\<close>

theorem commands_end_to_end:
  assumes "gs_source s \<noteq> None" and "gc_source (gs_config s) = kDevourer" and "rt_uplink (gs_mavlink s)"
    and "ep_framer ep = framer_init" and "\<forall>(g, f) \<in> set items. noise g \<and> whole_frame f"
    and "chunks \<noteq> []" and "concat chunks = concat (map (\<lambda>(g, f). g @ f) items)"
    and "rc_link_id (wr_radio air) = rc_link_id (gc_radio (gs_config s))" and "rc_link_id (wr_radio air) < 2 ^ 24" and "length fcs = 4"
  shows "\<exists>m ep' acts frames. run_steps endpoint_step (gs_mavlink s, ep) chunks = Some ((m, ep'), acts)
    \<and> injected_of (snd (route_actions ops s acts)) = frames
    \<and> map (drop kIeee80211HeaderSize) frames = (if me_allow_uplink (ep_config ep) then map snd items else [])
    \<and> list_all (\<lambda>frame. ClassifyFrame air (frame @ fcs) = Some (uint kPortMavlinkTx)) frames"
proof -
  let ?fs = "if me_allow_uplink (ep_config ep) then map snd items else []"
  let ?ch = "ChannelId (rc_link_id (gc_radio (gs_config s))) kPortMavlinkTx"
  have "(if me_allow_uplink (ep_config ep) then map (\<lambda>(g, f). Uplink f) items else []) = map Uplink ?fs"
    by (simp add: split_def)
  then obtain m ep' where run: "run_steps endpoint_step (gs_mavlink s, ep) chunks = Some ((m, ep'), map Uplink ?fs)"
    using endpoint_uplink_frames [OF assms(3-7)] by auto
  have "injected_of (snd (route_actions ops s (map Uplink ?fs))) = map (uplink_frame ?ch) ?fs"
    by (rule route_uplinks [OF assms(1,2)])
  moreover have "ClassifyFrame air (uplink_frame ?ch f @ fcs) = Some (uint kPortMavlinkTx)" for f
    using ClassifyFrame_carries [OF assms(9)] uplink_frame_carries [of fcs] assms(8,10) by simp
  moreover have "map (drop kIeee80211HeaderSize) (map (uplink_frame ?ch) ?fs) = ?fs"
    by (simp add: o_def uplink_frame_payload kIeee80211HeaderSize_def)
  ultimately show ?thesis using run by (auto simp: list_all_iff)
qed

theorem commands_end_to_end_witness:
  "\<exists>m ep' acts frame. run_steps endpoint_step (gs_mavlink (example_station\<lparr>gs_mavlink := set_uplink_callback router_init\<rparr>),
        new_endpoint mavlink_endpoint_default 10) [[0x11, 0xfe], [0, 7, 1, 1, 5, 9, 9]] = Some ((m, ep'), acts)
    \<and> injected_of (snd (route_actions working_usb (example_station\<lparr>gs_mavlink := set_uplink_callback router_init\<rparr>) acts)) = [frame]
    \<and> drop 24 frame = [0xfe, 0, 7, 1, 1, 5, 9, 9]"
proof -
  let ?s = "example_station\<lparr>gs_mavlink := set_uplink_callback router_init\<rparr>" and ?ep = "new_endpoint mavlink_endpoint_default 10"
  let ?air = "wfb_receiver_init radio_config_default :: nat wfb_receiver"
  have hyps: "gs_source ?s \<noteq> None" "gc_source (gs_config ?s) = kDevourer" "rt_uplink (gs_mavlink ?s)" "ep_framer ?ep = framer_init"
      "rc_link_id (wr_radio ?air) = rc_link_id (gc_radio (gs_config ?s))" "rc_link_id (wr_radio ?air) < 2 ^ 24"
      "me_allow_uplink (ep_config ?ep)"
    using example_fields(5)
    by (auto simp: example_fields(3) example_config_def gs_config_default_def set_uplink_callback_def new_endpoint_def
        wfb_receiver_init_def ResetSignal_def radio_config_default_def mavlink_endpoint_default_def)
  show ?thesis
    using commands_end_to_end [OF hyps(1-4), of "[([0x11], [0xfe, 0, 7, 1, 1, 5, 9, 9])]"
        "[[0x11, 0xfe], [0, 7, 1, 1, 5, 9, 9]]" ?air "[0, 0, 0, 0]" working_usb] hyps(5-7)
    by (auto simp: noise_def whole_frame_def magic_byte_def wire_len_def header_len_def kIeee80211HeaderSize_def
        Cons_eq_map_conv map_eq_Cons_conv)
qed

end
